(* ===== verification/VNS_Prelude.thy ===== *)
theory VNS_Prelude
  imports Main "HOL-Library.Word"
begin

text \<open>
  Shared material of the development: bytes and the C character classes, substring search,
  fixed-width integers, and the byte-codec interface that the serialised structures share.

  A byte (\<^verbatim>\<open>uint8_t\<close>, \<^verbatim>\<open>unsigned char\<close>, or an element of a \<^verbatim>\<open>std::string\<close>) is HOL's
  \<^typ>\<open>char\<close>, which has exactly 256 values; \<open>byte_val\<close> reads it as a number and \<open>byte_of\<close>
  truncates a number to a byte, as \<^verbatim>\<open>static_cast<uint8_t>\<close> does. The character classes are those
  of the C locale, in which the daemon runs.
\<close>

named_theorems char_defs \<open>definitions of the C character classes\<close>
named_theorems codec_simps \<open>equations of the byte codecs\<close>

type_synonym byte = char
type_synonym bytes = "char list"
type_synonym u8 = "8 word"
type_synonym u16 = "16 word"
type_synonym u32 = "32 word"
type_synonym u64 = "64 word"

section \<open>Bytes\<close>

definition byte_val :: "byte \<Rightarrow> nat" where
  "byte_val c = of_char c"

definition byte_of :: "nat \<Rightarrow> byte" where
  "byte_of n = char_of n"

lemma byte_val_less [simp]: "byte_val c < 256"
  by (simp add: byte_val_def)

lemma byte_of_byte_val [simp]: "byte_of (byte_val c) = c"
  by (simp add: byte_val_def byte_of_def)

lemma byte_val_byte_of: "byte_val (byte_of n) = n mod 256"
  by (simp add: byte_val_def byte_of_def)

lemma byte_val_byte_of_small [simp]: "n < 256 \<Longrightarrow> byte_val (byte_of n) = n"
  by (simp add: byte_val_byte_of)

lemma byte_val_inject [simp]: "byte_val a = byte_val b \<longleftrightarrow> a = b"
  by (simp add: byte_val_def)

text \<open>Evaluation of \<^const>\<open>byte_of\<close> on numerals.\<close>

lemma byte_of_eval:
  "byte_of n = Char (odd n) (odd (n div 2)) (odd (n div 4)) (odd (n div 8))
     (odd (n div 16)) (odd (n div 32)) (odd (n div 64)) (odd (n div 128))"
  by (simp add: byte_of_def char_of_def bit_iff_odd)

section \<open>Character classes of the C locale\<close>

definition isdigit :: "byte \<Rightarrow> bool" where
  [char_defs]: "isdigit c \<longleftrightarrow> 48 \<le> byte_val c \<and> byte_val c \<le> 57"

definition isupper :: "byte \<Rightarrow> bool" where
  [char_defs]: "isupper c \<longleftrightarrow> 65 \<le> byte_val c \<and> byte_val c \<le> 90"

definition islower :: "byte \<Rightarrow> bool" where
  [char_defs]: "islower c \<longleftrightarrow> 97 \<le> byte_val c \<and> byte_val c \<le> 122"

definition isalpha :: "byte \<Rightarrow> bool" where
  [char_defs]: "isalpha c \<longleftrightarrow> isupper c \<or> islower c"

definition isalnum :: "byte \<Rightarrow> bool" where
  [char_defs]: "isalnum c \<longleftrightarrow> isalpha c \<or> isdigit c"

definition isspace :: "byte \<Rightarrow> bool" where
  [char_defs]: "isspace c \<longleftrightarrow> byte_val c = 32 \<or> 9 \<le> byte_val c \<and> byte_val c \<le> 13"

definition tolower :: "byte \<Rightarrow> byte" where
  "tolower c = (if isupper c then byte_of (byte_val c + 32) else c)"

lemma byte_val_tolower:
  "byte_val (tolower c) = (if isupper c then byte_val c + 32 else byte_val c)"
  by (auto simp: tolower_def char_defs)

lemma tolower_class [simp]:
  "isupper (tolower c) = False"
  "isspace (tolower c) = isspace c"
  "isdigit (tolower c) = isdigit c"
  "isalpha (tolower c) = isalpha c"
  "isalnum (tolower c) = isalnum c"
  "islower (tolower c) = isalpha c"
  by (auto simp: char_defs byte_val_tolower)

lemma tolower_tolower [simp]: "tolower (tolower c) = tolower c"
  by (simp add: tolower_def [of "tolower c"])

lemma tolower_id: "\<not> isupper c \<Longrightarrow> tolower c = c"
  by (simp add: tolower_def)

lemma byte_val_punct [simp]:
  "byte_val CHR ''.'' = 46" "byte_val CHR ''-'' = 45"
  by (simp_all add: byte_val_def)

lemma tolower_eq_iff:
  "\<not> isalpha d \<Longrightarrow> tolower c = d \<longleftrightarrow> c = d"
  by (metis islower_def isalpha_def tolower_class(4) tolower_id)

section \<open>Strings\<close>

definition starts_with :: "'a list \<Rightarrow> 'a list \<Rightarrow> bool" where
  "starts_with p s \<longleftrightarrow> take (length p) s = p"

text \<open>\<^verbatim>\<open>std::string::find\<close>: the least position at which the pattern occurs.\<close>

fun find_sub :: "'a list \<Rightarrow> 'a list \<Rightarrow> nat option" where
  "find_sub p [] = (if p = [] then Some 0 else None)"
| "find_sub p (c # s) =
     (if starts_with p (c # s) then Some 0 else map_option Suc (find_sub p s))"

lemma starts_with_append [simp]: "starts_with p (p @ s)"
  by (simp add: starts_with_def)

lemma starts_withE: "starts_with p s \<Longrightarrow> \<exists>r. s = p @ r"
  by (metis append_take_drop_id starts_with_def)

lemma find_sub_SomeD:
  "find_sub p s = Some i \<Longrightarrow> s = take i s @ p @ drop (i + length p) s"
proof (induction s arbitrary: i)
  case Nil
  then show ?case by (auto split: if_splits)
next
  case (Cons c s)
  show ?case
  proof (cases "starts_with p (c # s)")
    case True
    with Cons.prems show ?thesis by (auto dest: starts_withE)
  next
    case False
    with Cons.prems obtain j where "find_sub p s = Some j" "i = Suc j" by auto
    with Cons.IH [of j] show ?thesis by simp
  qed
qed

lemma find_sub_le: "find_sub p s = Some i \<Longrightarrow> i + length p \<le> length s"
proof (induction s arbitrary: i)
  case Nil
  then show ?case by (auto split: if_splits)
next
  case (Cons c s)
  show ?case
  proof (cases "starts_with p (c # s)")
    case True
    then obtain r where "c # s = p @ r" by (auto dest: starts_withE)
    then have "length p \<le> length (c # s)" by simp
    with True Cons.prems show ?thesis by simp
  next
    case False
    with Cons show ?thesis by auto
  qed
qed

text \<open>A pattern whose first element does not occur in the prefix is found right after it.\<close>

lemma find_sub_skip:
  "x \<notin> set l \<Longrightarrow> find_sub (x # p) (l @ x # p @ r) = Some (length l)"
proof (induction l)
  case Nil
  then show ?case by (simp add: starts_with_def)
next
  case (Cons c l)
  then have "c \<noteq> x" by auto
  with Cons show ?case by (simp add: starts_with_def)
qed

section \<open>Runs\<close>

text \<open>What every step keeps, every sequence of steps keeps.\<close>

locale kept =
  fixes step :: "'s \<Rightarrow> 's \<Rightarrow> bool" and inv :: "'s \<Rightarrow> 's \<Rightarrow> bool"
  assumes refl: "inv s s"
    and step_keeps: "step s1 s2 \<Longrightarrow> inv s s1 \<Longrightarrow> inv s s2"
begin

lemma run_keeps: "step\<^sup>*\<^sup>* s s' \<Longrightarrow> inv s s'"
  by (induction rule: rtranclp_induct) (auto intro: refl step_keeps)

end

end
