(* ===== verification/Domain_Names.thy ===== *)
theory Domain_Names
  imports VNS_Prelude
begin

text \<open>
  The VNS name grammar: \<^verbatim>\<open>src/src/common/domain_utils.h\<close> from \<open>validate_domain_name_format\<close> to
  \<open>normalize_vns_domain\<close>, and the second validator in \<^verbatim>\<open>blockchain.cpp\<close>. A name has the form
  \<open>label..extension\<close>. \<open>canonical_domain\<close> is the abstract grammar; the lemmas show that the
  index-based validator decides it, that normalisation is idempotent, insensitive to case and to
  surrounding white space, and that parsing inverts the composition of label and extension.
\<close>

section \<open>Validators and normalisers\<close>

abbreviation (input) dotdot :: string where
  "dotdot \<equiv> ''..''"

definition valid_label_char :: "byte \<Rightarrow> bool" where
  "valid_label_char c \<longleftrightarrow> isalnum c \<or> c = CHR ''-''"

definition valid_ext_char :: "byte \<Rightarrow> bool" where
  "valid_ext_char c \<longleftrightarrow>
     97 \<le> byte_val c \<and> byte_val c \<le> 122 \<or> 48 \<le> byte_val c \<and> byte_val c \<le> 57"

definition validate_domain_name_format :: "string \<Rightarrow> bool" where
  "validate_domain_name_format domain =
     (case find_sub dotdot domain of
        None \<Rightarrow> False
      | Some dd \<Rightarrow>
          if dd = 0 \<or> length domain \<le> dd + 2 then False
          else
            let label = take dd domain; ext = drop (dd + 2) domain in
            if label = [] \<or> ext = [] \<or> 32 < length label \<or> 15 < length ext
               \<or> 49 < length domain then False
            else if \<not> list_all valid_label_char label \<or> \<not> list_all valid_ext_char ext then False
            else list_ex isalpha label \<or> list_ex isalpha ext)"

text \<open>\<open>Blockchain::validate_domain_name_format\<close>: the same checks, without the letter rule.\<close>

definition chain_validate_domain_name_format :: "string \<Rightarrow> bool" where
  "chain_validate_domain_name_format domain =
     (case find_sub dotdot domain of
        None \<Rightarrow> False
      | Some dd \<Rightarrow>
          if dd = 0 \<or> length domain \<le> dd + 2 then False
          else
            let label = take dd domain; ext = drop (dd + 2) domain in
            if label = [] \<or> ext = [] \<or> 32 < length label \<or> 15 < length ext
               \<or> 49 < length domain then False
            else list_all valid_label_char label \<and> list_all valid_ext_char ext)"

text \<open>
  \<open>parse_vns_domain\<close> has two output parameters; the model returns them when the code returns true.
\<close>

definition parse_vns_domain :: "string \<Rightarrow> (string \<times> string) option" where
  "parse_vns_domain domain =
     (case find_sub dotdot domain of
        None \<Rightarrow> None
      | Some dd \<Rightarrow>
          let label = take dd domain; extension = drop (dd + 2) domain in
          if label \<noteq> [] \<and> extension \<noteq> [] then Some (label, extension) else None)"

definition is_valid_vns_extension :: "string \<Rightarrow> bool" where
  "is_valid_vns_extension extension =
     (if extension = [] \<or> 15 < length extension then False
      else list_all valid_ext_char extension)"

definition normalize_vns_extension :: "string \<Rightarrow> string" where
  "normalize_vns_extension extension =
     (let out = map tolower extension in if \<not> is_valid_vns_extension out then [] else out)"

definition is_valid_vns_label :: "string \<Rightarrow> bool" where
  "is_valid_vns_label label =
     (if label = [] \<or> 32 < length label then False
      else list_all (\<lambda>c. isalnum c \<or> c = CHR ''-'') label)"

definition normalize_vns_label :: "string \<Rightarrow> string" where
  "normalize_vns_label label =
     (let out = map tolower label in if \<not> is_valid_vns_label out then [] else out)"

text \<open>
  The two \<^verbatim>\<open>std::find_if\<close> calls: from the first to the last byte that is not white space, and the
  empty string when there is none.
\<close>

definition trim :: "string \<Rightarrow> string" where
  "trim s = rev (dropWhile isspace (rev (dropWhile isspace s)))"

definition normalize_vns_domain :: "string \<Rightarrow> string" where
  "normalize_vns_domain domain =
     (let trimmed = trim domain in
      if trimmed = [] then []
      else
        let lowered = map tolower trimmed in
        if \<not> validate_domain_name_format lowered then [] else lowered)"

section \<open>The grammar\<close>

definition canonical_label :: "string \<Rightarrow> bool" where
  "canonical_label l \<longleftrightarrow>
     l \<noteq> [] \<and> length l \<le> 32 \<and> (\<forall>c \<in> set l. islower c \<or> isdigit c \<or> c = CHR ''-'')"

definition canonical_ext :: "string \<Rightarrow> bool" where
  "canonical_ext e \<longleftrightarrow>
     e \<noteq> [] \<and> length e \<le> 15 \<and> (\<forall>c \<in> set e. islower c \<or> isdigit c)"

definition canonical_domain :: "string \<Rightarrow> bool" where
  "canonical_domain d \<longleftrightarrow>
     (\<exists>l e. d = l @ dotdot @ e \<and> canonical_label l \<and> canonical_ext e \<and>
        (\<exists>c \<in> set (l @ e). islower c))"

lemma valid_label_char_no_dot: "list_all valid_label_char l \<Longrightarrow> CHR ''.'' \<notin> set l"
  by (auto simp: list_all_iff valid_label_char_def char_defs)

lemma valid_ext_char_iff: "valid_ext_char c \<longleftrightarrow> islower c \<or> isdigit c"
  by (simp add: valid_ext_char_def char_defs)

lemma find_dotdot_label:
  "CHR ''.'' \<notin> set l \<Longrightarrow> find_sub dotdot (l @ dotdot @ e) = Some (length l)"
  using find_sub_skip [of "CHR ''.''" l "''.''" e] by simp

lemma find_dotdot_split:
  "find_sub dotdot d = Some dd \<Longrightarrow> d = take dd d @ dotdot @ drop (dd + 2) d"
  using find_sub_SomeD [of dotdot d dd] by simp

text \<open>The validator, stated over the decomposition instead of over indices.\<close>

lemma validate_iff:
  "validate_domain_name_format d \<longleftrightarrow>
     (\<exists>l e. d = l @ dotdot @ e \<and> l \<noteq> [] \<and> e \<noteq> [] \<and> length l \<le> 32 \<and> length e \<le> 15 \<and>
        list_all valid_label_char l \<and> list_all valid_ext_char e \<and>
        (list_ex isalpha l \<or> list_ex isalpha e))" (is "?L \<longleftrightarrow> (\<exists>l e. ?R l e)")
proof
  assume ?L
  then obtain dd where dd: "find_sub dotdot d = Some dd"
    by (auto simp: validate_domain_name_format_def split: option.splits)
  with \<open>?L\<close> have "?R (take dd d) (drop (dd + 2) d)"
    using find_dotdot_split [OF dd]
    by (simp add: validate_domain_name_format_def Let_def split: if_splits)
  then show "\<exists>l e. ?R l e" by blast
next
  assume "\<exists>l e. ?R l e"
  then obtain l e where R: "?R l e" by blast
  then have "find_sub dotdot d = Some (length l)"
    using find_dotdot_label valid_label_char_no_dot by blast
  with R show ?L
    by (simp add: validate_domain_name_format_def Let_def)
qed

lemma chain_validate_iff:
  "chain_validate_domain_name_format d \<longleftrightarrow>
     (\<exists>l e. d = l @ dotdot @ e \<and> l \<noteq> [] \<and> e \<noteq> [] \<and> length l \<le> 32 \<and> length e \<le> 15 \<and>
        list_all valid_label_char l \<and> list_all valid_ext_char e)" (is "?L \<longleftrightarrow> (\<exists>l e. ?R l e)")
proof
  assume ?L
  then obtain dd where dd: "find_sub dotdot d = Some dd"
    by (auto simp: chain_validate_domain_name_format_def split: option.splits)
  with \<open>?L\<close> have "?R (take dd d) (drop (dd + 2) d)"
    using find_dotdot_split [OF dd]
    by (simp add: chain_validate_domain_name_format_def Let_def split: if_splits)
  then show "\<exists>l e. ?R l e" by blast
next
  assume "\<exists>l e. ?R l e"
  then obtain l e where R: "?R l e" by blast
  then have "find_sub dotdot d = Some (length l)"
    using find_dotdot_label valid_label_char_no_dot by blast
  with R show ?L
    by (simp add: chain_validate_domain_name_format_def Let_def)
qed

lemma validate_imp_chain_validate:
  "validate_domain_name_format d \<Longrightarrow> chain_validate_domain_name_format d"
  by (auto simp: validate_iff chain_validate_iff)


lemma label_char_no_upper:
  "\<not> isupper c \<Longrightarrow> valid_label_char c \<longleftrightarrow> islower c \<or> isdigit c \<or> c = CHR ''-''"
  by (auto simp: valid_label_char_def isalnum_def isalpha_def)

lemma validate_no_upper:
  assumes "\<forall>c \<in> set d. \<not> isupper c"
  shows "validate_domain_name_format d \<longleftrightarrow> canonical_domain d"
proof -
  have "(l \<noteq> [] \<and> e \<noteq> [] \<and> length l \<le> 32 \<and> length e \<le> 15 \<and>
        list_all valid_label_char l \<and> list_all valid_ext_char e \<and>
        (list_ex isalpha l \<or> list_ex isalpha e)) \<longleftrightarrow>
      canonical_label l \<and> canonical_ext e \<and> (\<exists>c \<in> set (l @ e). islower c)"
    if "d = l @ dotdot @ e" for l e
  proof -
    have nu: "\<And>c. c \<in> set l \<Longrightarrow> \<not> isupper c" "\<And>c. c \<in> set e \<Longrightarrow> \<not> isupper c"
      using assms that by auto
    have "list_all valid_label_char l \<longleftrightarrow> (\<forall>c \<in> set l. islower c \<or> isdigit c \<or> c = CHR ''-'')"
      using nu(1) by (auto simp: list_all_iff label_char_no_upper)
    moreover have "list_all valid_ext_char e \<longleftrightarrow> (\<forall>c \<in> set e. islower c \<or> isdigit c)"
      by (simp add: list_all_iff valid_ext_char_iff)
    moreover have "list_ex isalpha l \<longleftrightarrow> (\<exists>c \<in> set l. islower c)"
      "list_ex isalpha e \<longleftrightarrow> (\<exists>c \<in> set e. islower c)"
      using nu by (auto simp: list_ex_iff isalpha_def)
    ultimately show ?thesis
      by (auto simp: canonical_label_def canonical_ext_def)
  qed
  then show ?thesis
    unfolding validate_iff canonical_domain_def by blast
qed

lemma canonical_domain_no_upper_space:
  assumes "canonical_domain d" "c \<in> set d"
  shows "\<not> isupper c \<and> \<not> isspace c"
proof -
  have "islower c \<or> isdigit c \<or> c = CHR ''-'' \<or> c = CHR ''.''"
    using assms by (auto simp: canonical_domain_def canonical_label_def canonical_ext_def)
  then show ?thesis by (auto simp: char_defs)
qed

lemma canonical_domain_nonempty: "canonical_domain d \<Longrightarrow> d \<noteq> []"
  by (auto simp: canonical_domain_def)

section \<open>Trimming and lower case\<close>

lemma dropWhile_none: "\<forall>c \<in> set s. \<not> P c \<Longrightarrow> dropWhile P s = s"
  by (cases s) auto

lemma trim_id: "\<forall>c \<in> set s. \<not> isspace c \<Longrightarrow> trim s = s"
  by (simp add: trim_def dropWhile_none)

lemma map_tolower_id: "\<forall>c \<in> set s. \<not> isupper c \<Longrightarrow> map tolower s = s"
  by (induction s) (auto simp: tolower_id)

lemma map_tolower_map_tolower [simp]: "map tolower (map tolower s) = map tolower s"
  by (simp add: comp_def)

lemma dropWhile_isspace_tolower:
  "dropWhile isspace (map tolower s) = map tolower (dropWhile isspace s)"
  by (induction s) auto

lemma trim_tolower: "trim (map tolower s) = map tolower (trim s)"
  by (simp add: trim_def dropWhile_isspace_tolower rev_map)

lemma dropWhile_pad:
  "list_all isspace ws \<Longrightarrow> dropWhile isspace (ws @ s) = dropWhile isspace s"
  by (induction ws) auto

lemma trim_pad:
  assumes "list_all isspace ws" "list_all isspace ws'"
  shows "trim (ws @ s @ ws') = trim s"
proof (cases "list_all isspace s")
  case True
  with assms have "dropWhile isspace (ws @ s @ ws') = []" "dropWhile isspace s = []"
    unfolding dropWhile_eq_Nil_conv by (auto simp: list_all_iff)
  then show ?thesis by (simp only: trim_def)
next
  case False
  then have "\<exists>c \<in> set s. \<not> isspace c" by (auto simp: list_all_iff)
  then have "dropWhile isspace (s @ ws') = dropWhile isspace s @ ws'"
    by (auto simp: dropWhile_append)
  moreover have "list_all isspace (rev ws')"
    using assms(2) by (simp add: list_all_iff)
  ultimately show ?thesis
    using assms(1) by (simp add: trim_def dropWhile_pad)
qed

section \<open>Correctness of normalisation\<close>

lemma normalize_vns_domain_eq:
  "normalize_vns_domain d =
     (if canonical_domain (map tolower (trim d)) then map tolower (trim d) else [])"
  using validate_no_upper [of "map tolower (trim d)"]
    canonical_domain_nonempty [of "map tolower (trim d)"]
  by (auto simp: normalize_vns_domain_def Let_def)

lemma normalize_vns_domain_canonical:
  "normalize_vns_domain d \<noteq> [] \<Longrightarrow> canonical_domain (normalize_vns_domain d)"
  by (auto simp: normalize_vns_domain_eq split: if_splits)

lemma normalize_of_canonical: "canonical_domain d \<Longrightarrow> normalize_vns_domain d = d"
  using canonical_domain_no_upper_space [of d]
  by (simp add: normalize_vns_domain_eq trim_id map_tolower_id)

text \<open>What a canonical name gives the code that takes it apart.\<close>

lemma canonical_parse:
  assumes "canonical_domain d"
  obtains l e where "parse_vns_domain d = Some (l, e)" "d = l @ dotdot @ e"
    "canonical_label l" "canonical_ext e"
proof -
  from assms obtain l e where le: "d = l @ dotdot @ e" "canonical_label l" "canonical_ext e"
    by (auto simp: canonical_domain_def)
  from le(2) have "CHR ''.'' \<notin> set l"
    by (auto simp: canonical_label_def char_defs)
  with le have "parse_vns_domain d = Some (l, e)"
    by (simp add: parse_vns_domain_def find_dotdot_label [simplified] canonical_label_def
        canonical_ext_def)
  with le show ?thesis by (rule that [rotated])
qed

lemma canonical_ext_valid: "canonical_ext e \<longleftrightarrow> is_valid_vns_extension e"
  by (auto simp: canonical_ext_def is_valid_vns_extension_def list_all_iff valid_ext_char_iff)

lemma canonical_label_valid: "canonical_label l \<Longrightarrow> is_valid_vns_label l"
  by (auto simp: canonical_label_def is_valid_vns_label_def list_all_iff isalnum_def isalpha_def)

lemma canonical_domain_validate:
  "canonical_domain d \<Longrightarrow> validate_domain_name_format d"
  using canonical_domain_no_upper_space [of d] by (simp add: validate_no_upper)

lemma canonical_domain_length: "canonical_domain d \<Longrightarrow> length d \<le> 49"
  by (auto simp: canonical_domain_def canonical_label_def canonical_ext_def)

section \<open>Properties\<close>

text \<open>
  C28: normalisation is a projection onto the grammar. It is idempotent, it does not depend on the
  case of the letters nor on white space around the name, and its result is empty or a canonical
  name.
\<close>
theorem normalize_projection:
  "normalize_vns_domain (normalize_vns_domain d) = normalize_vns_domain d
   \<and> normalize_vns_domain (map tolower d) = normalize_vns_domain d
   \<and> (list_all isspace ws \<and> list_all isspace ws' \<longrightarrow>
        normalize_vns_domain (ws @ d @ ws') = normalize_vns_domain d)
   \<and> (normalize_vns_domain d = [] \<or> canonical_domain (normalize_vns_domain d))"
proof (intro conjI impI)
  show "normalize_vns_domain (normalize_vns_domain d) = normalize_vns_domain d"
  proof (cases "normalize_vns_domain d = []")
    case True
    then show ?thesis by (simp add: normalize_vns_domain_def trim_def)
  next
    case False
    then show ?thesis by (intro normalize_of_canonical normalize_vns_domain_canonical)
  qed
  show "normalize_vns_domain (map tolower d) = normalize_vns_domain d"
    by (simp add: normalize_vns_domain_eq trim_tolower del: map_map)
  show "normalize_vns_domain (ws @ d @ ws') = normalize_vns_domain d"
    if "list_all isspace ws \<and> list_all isspace ws'"
    using that by (simp add: normalize_vns_domain_eq trim_pad)
  show "normalize_vns_domain d = [] \<or> canonical_domain (normalize_vns_domain d)"
    using normalize_vns_domain_canonical by blast
qed

theorem normalize_projection_witness:
  "normalize_vns_domain ('' '' @ ''MyBlog..Free'' @ '' '') = ''myblog..free''
   \<and> canonical_domain ''myblog..free''"
proof -
  have e: "normalize_vns_domain ''MyBlog..Free'' = ''myblog..free''"
    by (simp add: normalize_vns_domain_def trim_def validate_domain_name_format_def
        starts_with_def tolower_def char_defs valid_label_char_def valid_ext_char_def
        byte_val_def byte_of_eval)
  have "list_all isspace '' ''" by (simp add: isspace_def byte_val_def)
  with normalize_projection [of "''MyBlog..Free''" "'' ''" "'' ''"] e
  show ?thesis by simp
qed

text \<open>
  C29: on a name without upper-case letters, the index arithmetic of the validator decides exactly
  the grammar \<open>label..extension\<close>: a label of 1 to 32 letters, digits and hyphens, an extension of 1
  to 15 letters and digits, and at least one letter in the whole name.
\<close>
theorem validate_decides_grammar:
  "\<forall>c \<in> set d. \<not> isupper c \<Longrightarrow>
   validate_domain_name_format d \<longleftrightarrow>
     (\<exists>l e. d = l @ ''..'' @ e \<and> canonical_label l \<and> canonical_ext e
        \<and> (\<exists>c \<in> set (l @ e). islower c))"
  using validate_no_upper [of d] by (simp add: canonical_domain_def)

theorem validate_decides_grammar_witness:
  "validate_domain_name_format ''a-1..b2'' \<longleftrightarrow>
     (\<exists>l e. ''a-1..b2'' = l @ ''..'' @ e \<and> canonical_label l \<and> canonical_ext e
        \<and> (\<exists>c \<in> set (l @ e). islower c))"
  by (rule validate_decides_grammar) (simp add: isupper_def byte_val_def)

text \<open>
  C30: what the code that consumes a normalised name relies on. A non-empty normalised name splits
  into the label and the extension it was made of, both valid for their own validators, it passes
  both copies of the format check, and it fits the 49 bytes that the record layouts reserve.
\<close>
theorem normalized_parse:
  assumes "normalize_vns_domain d = n" "n \<noteq> []"
  shows "\<exists>l e. parse_vns_domain n = Some (l, e) \<and> n = l @ ''..'' @ e
    \<and> is_valid_vns_label l \<and> is_valid_vns_extension e
    \<and> validate_domain_name_format n \<and> chain_validate_domain_name_format n \<and> length n \<le> 49"
proof -
  have c: "canonical_domain n" using assms normalize_vns_domain_canonical by blast
  then obtain l e where "parse_vns_domain n = Some (l, e)" "n = l @ dotdot @ e"
    "canonical_label l" "canonical_ext e"
    by (rule canonical_parse)
  with c show ?thesis
    using canonical_label_valid canonical_ext_valid canonical_domain_validate
      validate_imp_chain_validate canonical_domain_length by blast
qed

theorem normalized_parse_witness:
  "\<exists>l e. parse_vns_domain ''ab..xyz'' = Some (l, e) \<and> ''ab..xyz'' = l @ ''..'' @ e
    \<and> is_valid_vns_label l \<and> is_valid_vns_extension e
    \<and> validate_domain_name_format ''ab..xyz'' \<and> chain_validate_domain_name_format ''ab..xyz''
    \<and> length ''ab..xyz'' \<le> 49"
proof -
  have "normalize_vns_domain ''AB..xyz'' = ''ab..xyz''"
    by (simp add: normalize_vns_domain_def trim_def validate_domain_name_format_def
        starts_with_def tolower_def char_defs valid_label_char_def valid_ext_char_def
        byte_val_def byte_of_eval)
  then show ?thesis by (rule normalized_parse) simp
qed

end
