(* ===== verification/Byte_Codecs.thy ===== *)
theory Byte_Codecs
  imports VNS_Prelude
begin

text \<open>
  Little-endian integers, length-prefixed strings and counted lists, as the C++ code writes them
  with \<^verbatim>\<open>blob.append\<close> of an object's bytes and reads them back through a moving pointer. The host
  is little-endian, as on every platform the daemon is built for. A reader takes the remaining
  bytes and returns the value with what is left, or \<open>None\<close> where the code returns false.

  The locale \<open>byte_codec\<close> is the contract between a writer and a reader; its lemma for counted
  lists is proved once and used through the interpretations for every serialised list.
\<close>

section \<open>Little-endian integers\<close>

primrec le_bytes :: "nat \<Rightarrow> nat \<Rightarrow> bytes" where
  "le_bytes 0 v = []"
| "le_bytes (Suc n) v = byte_of v # le_bytes n (v div 256)"

primrec le_val :: "bytes \<Rightarrow> nat" where
  "le_val [] = 0"
| "le_val (c # cs) = byte_val c + 256 * le_val cs"

lemma length_le_bytes [simp]: "length (le_bytes n v) = n"
  by (induction n arbitrary: v) auto

lemma le_val_le_bytes [simp]: "le_val (le_bytes n v) = v mod 256 ^ n"
proof (induction n arbitrary: v)
  case 0
  then show ?case by simp
next
  case (Suc n)
  have "v mod 256 ^ Suc n = v mod 256 + 256 * (v div 256 mod 256 ^ n)"
    by (metis add.commute mod_mult2_eq power_Suc)
  with Suc show ?case by (simp add: byte_val_byte_of)
qed

lemma le_val_bound: "le_val bs < 256 ^ length bs"
proof (induction bs)
  case Nil
  then show ?case by simp
next
  case (Cons c cs)
  have "byte_val c + 256 * le_val cs < 256 * Suc (le_val cs)" by simp
  also have "\<dots> \<le> 256 * 256 ^ length cs" using Cons by (simp only: Suc_le_eq mult_le_mono2)
  finally show ?case by simp
qed

section \<open>Readers and writers\<close>

definition put_u8 :: "u8 \<Rightarrow> bytes" where
  "put_u8 w = [byte_of (unat w)]"

fun get_u8 :: "bytes \<Rightarrow> (u8 \<times> bytes) option" where
  "get_u8 [] = None"
| "get_u8 (c # bs) = Some (word_of_nat (byte_val c), bs)"

definition put_u16 :: "u16 \<Rightarrow> bytes" where
  "put_u16 w = le_bytes 2 (unat w)"

definition get_u16 :: "bytes \<Rightarrow> (u16 \<times> bytes) option" where
  "get_u16 bs = (if length bs < 2 then None else Some (word_of_nat (le_val (take 2 bs)), drop 2 bs))"

definition put_u64 :: "u64 \<Rightarrow> bytes" where
  "put_u64 w = le_bytes 8 (unat w)"

definition get_u64 :: "bytes \<Rightarrow> (u64 \<times> bytes) option" where
  "get_u64 bs = (if length bs < 8 then None else Some (word_of_nat (le_val (take 8 bs)), drop 8 bs))"

definition get_raw :: "nat \<Rightarrow> bytes \<Rightarrow> (bytes \<times> bytes) option" where
  "get_raw n bs = (if length bs < n then None else Some (take n bs, drop n bs))"

lemma put_length [simp]:
  "length (put_u8 a) = 1" "length (put_u16 b) = 2" "length (put_u64 c) = 8"
  by (simp_all add: put_u8_def put_u16_def put_u64_def)

text \<open>A counted loop over a reader: \<^verbatim>\<open>for (i = 0; i < count; ++i) if (!read(...)) return false;\<close>.\<close>

primrec get_n :: "(bytes \<Rightarrow> ('a \<times> bytes) option) \<Rightarrow> nat \<Rightarrow> bytes \<Rightarrow> ('a list \<times> bytes) option" where
  "get_n dec 0 bs = Some ([], bs)"
| "get_n dec (Suc n) bs =
     (case dec bs of
        None \<Rightarrow> None
      | Some (x, bs') \<Rightarrow>
          (case get_n dec n bs' of None \<Rightarrow> None | Some (xs, bs'') \<Rightarrow> Some (x # xs, bs'')))"

lemma unat_bounds [simp]:
  "unat (a :: u8) < 256" "unat (b :: u16) < 65536" "unat (c :: u64) < 18446744073709551616"
proof -
  have "unat a < 2 ^ LENGTH(8)" "unat b < 2 ^ LENGTH(16)" "unat c < 2 ^ LENGTH(64)"
    by (rule unsigned_less)+
  then show "unat a < 256" "unat b < 65536" "unat c < 18446744073709551616" by simp_all
qed

section \<open>The codec contract\<close>

locale byte_codec =
  fixes enc :: "'a \<Rightarrow> bytes"
    and dec :: "bytes \<Rightarrow> ('a \<times> bytes) option"
    and ok :: "'a \<Rightarrow> bool"
  assumes dec_enc: "ok x \<Longrightarrow> dec (enc x @ r) = Some (x, r)"
begin

lemma dec_list_enc:
  "\<forall>x \<in> set xs. ok x \<Longrightarrow> get_n dec (length xs) (concat (map enc xs) @ r) = Some (xs, r)"
  by (induction xs) (auto simp: dec_enc)

lemma enc_inj: "ok x \<Longrightarrow> ok y \<Longrightarrow> enc x @ r = enc y @ r' \<Longrightarrow> x = y \<and> r = r'"
  by (metis dec_enc option.inject prod.inject)

end

interpretation u8: byte_codec put_u8 get_u8 "\<lambda>_. True"
  by unfold_locales (simp add: put_u8_def)

interpretation u16: byte_codec put_u16 get_u16 "\<lambda>_. True"
  by unfold_locales
    (simp add: put_u16_def get_u16_def)

interpretation u64: byte_codec put_u64 get_u64 "\<lambda>_. True"
  by unfold_locales
    (simp add: put_u64_def get_u64_def)

interpretation raw: byte_codec "\<lambda>bs. bs" "get_raw n" "\<lambda>bs. length bs = n" for n
  by unfold_locales (simp add: get_raw_def)

end
