(* ===== verification/Domain_Tables.thy ===== *)
theory Domain_Tables
  imports VNS_Prelude
begin

text \<open>
  The built-in name policy of \<^verbatim>\<open>src/src/common/domain_utils.h\<close>: the extension lists of the fee
  tiers, the banned and the premium labels, and the functions that look them up. Strings outside
  ASCII are written as their UTF-8 bytes. The code fills one hash map from the lists in order, so
  that a later list overrides an earlier one; \<open>get_tier_for_extension_eq\<close> states the resulting
  precedence.
\<close>

section \<open>Constants\<close>

definition TIER_FEES :: "u64 list" where
  "TIER_FEES = [100000000000, 1000000000000, 10000000000000, 100000000000000,
     1000000000000000, 10000000000000000]"

definition PREMIUM_TIER_FEE :: u64 where
  "PREMIUM_TIER_FEE = 100000000000000000"

abbreviation (input) TIER_GENERIC :: u8 where "TIER_GENERIC \<equiv> 0"
abbreviation (input) TIER_AFFORDABLE :: u8 where "TIER_AFFORDABLE \<equiv> 1"
abbreviation (input) TIER_POPULAR :: u8 where "TIER_POPULAR \<equiv> 2"
abbreviation (input) TIER_PROFESSIONAL :: u8 where "TIER_PROFESSIONAL \<equiv> 3"
abbreviation (input) TIER_ENTERPRISE :: u8 where "TIER_ENTERPRISE \<equiv> 4"
abbreviation (input) TIER_SOVEREIGN :: u8 where "TIER_SOVEREIGN \<equiv> 5"
abbreviation (input) TIER_PREMIUM :: u8 where "TIER_PREMIUM \<equiv> 6"
abbreviation (input) TIER_BANNED :: u8 where "TIER_BANNED \<equiv> 255"

section \<open>The lists\<close>

definition GENERIC_EXTENSIONS :: "string list" where
  "GENERIC_EXTENSIONS = [
    ''com'', ''org'', ''net'', ''info'', ''xyz'', ''blog'', ''site'', ''online'', ''me'', ''co'',
    ''shop'', ''club'', ''news'', ''media'', ''social'', ''world'', ''life'', ''fun'', ''space'',
    ''website'', ''press'', ''host'', ''cloud'', ''digital'', ''direct'', ''express'', ''free'',
    ''guru'', ''help'', ''live'', ''one'', ''plus'', ''rocks'', ''show'', ''software'',
    ''solutions'', ''support'', ''systems'', ''tips'', ''today'', ''tools'', ''training'',
    ''tv'', ''video'', ''vin'', ''vip'', ''work'', ''zone'', ''center'', ''company'',
    ''consulting'', ''design'', ''events'', ''expert'', ''global'', ''group'', ''guide'',
    ''institute'', ''international'', ''market'', ''money'', ''network'', ''partners'',
    ''photo'', ''pictures'', ''productions'', ''properties'', ''realty'', ''report'',
    ''services'', ''studio'', ''supply'', ''trading'', ''travel'', ''ventures'', ''vision'',
    ''watch'', ''web'']"

definition AFFORDABLE_EXTENSIONS :: "string list" where
  "AFFORDABLE_EXTENSIONS = [
    ''biz'', ''pro'', ''io'', ''tv'', ''app'', ''dev'', ''agency'', ''consulting'', ''design'',
    ''studio'', ''expert'', ''partners'', ''ventures'']"

definition POPULAR_EXTENSIONS :: "string list" where
  "POPULAR_EXTENSIONS = [
    ''ai'', ''art'', ''music'', ''film'', ''gallery'', ''theater'', ''pub'', ''restaurant'',
    ''cafe'', ''bar'', ''fitness'', ''yoga'', ''health'', ''legal'']"

definition PREMIUM_EXTENSIONS :: "string list" where
  "PREMIUM_EXTENSIONS = [
    ''law'', ''doctor'', ''dentist'', ''accountant'', ''engineer'', ''university'', ''college'',
    ''academy'', ''school'', ''institute'', ''foundation'', ''charity'', ''ngo'', ''sport'',
    ''travel'', ''hotel'', ''insurance'', ''mortgage'', ''loans'']"

definition ENTERPRISE_EXTENSIONS :: "string list" where
  "ENTERPRISE_EXTENSIONS = [
    ''bank'', ''broker'', ''creditcard'', ''financial'', ''investments'', ''capital'',
    ''holdings'', ''enterprises'', ''industries'', ''corp'', ''inc'', ''ltd'', ''llc'',
    ''pharma'', ''biotech'', ''aerospace'', ''defense'', ''energy'', ''oil'', ''gas'']"

definition SOVEREIGN_EXTENSIONS :: "string list" where
  "SOVEREIGN_EXTENSIONS = [
    ''ac'', ''ad'', ''ae'', ''af'', ''ag'', ''ai'', ''al'', ''am'', ''ao'', ''aq'', ''ar'',
    ''as'', ''at'', ''au'', ''aw'', ''ax'', ''az'', ''ba'', ''bb'', ''bd'', ''be'', ''bf'',
    ''bg'', ''bh'', ''bi'', ''bj'', ''bl'', ''bm'', ''bn'', ''bo'', ''bq'', ''br'', ''bs'',
    ''bt'', ''bv'', ''bw'', ''by'', ''bz'', ''ca'', ''cc'', ''cd'', ''cf'', ''cg'', ''ch'',
    ''ci'', ''ck'', ''cl'', ''cm'', ''cn'', ''co'', ''cr'', ''cu'', ''cv'', ''cw'', ''cx'',
    ''cy'', ''cz'', ''de'', ''dj'', ''dk'', ''dm'', ''do'', ''dz'', ''ec'', ''ee'', ''eg'',
    ''er'', ''es'', ''et'', ''eu'', ''fi'', ''fj'', ''fk'', ''fm'', ''fo'', ''fr'', ''ga'',
    ''gd'', ''ge'', ''gf'', ''gg'', ''gh'', ''gi'', ''gl'', ''gm'', ''gn'', ''gp'', ''gq'',
    ''gr'', ''gs'', ''gt'', ''gu'', ''gw'', ''gy'', ''hk'', ''hm'', ''hn'', ''hr'', ''ht'',
    ''hu'', ''id'', ''ie'', ''il'', ''im'', ''in'', ''io'', ''iq'', ''ir'', ''is'', ''it'',
    ''je'', ''jm'', ''jo'', ''jp'', ''ke'', ''kg'', ''kh'', ''ki'', ''km'', ''kn'', ''kp'',
    ''kr'', ''kw'', ''ky'', ''kz'', ''la'', ''lb'', ''lc'', ''li'', ''lk'', ''lr'', ''ls'',
    ''lt'', ''lu'', ''lv'', ''ly'', ''ma'', ''mc'', ''md'', ''me'', ''mg'', ''mh'', ''mk'',
    ''ml'', ''mm'', ''mn'', ''mo'', ''mp'', ''mq'', ''mr'', ''ms'', ''mt'', ''mu'', ''mv'',
    ''mw'', ''mx'', ''my'', ''mz'', ''na'', ''nc'', ''ne'', ''nf'', ''ng'', ''ni'', ''nl'',
    ''no'', ''np'', ''nr'', ''nu'', ''nz'', ''om'', ''pa'', ''pe'', ''pf'', ''pg'', ''ph'',
    ''pk'', ''pl'', ''pm'', ''pn'', ''pr'', ''ps'', ''pt'', ''pw'', ''py'', ''qa'', ''re'',
    ''ro'', ''rs'', ''ru'', ''rw'', ''sa'', ''sb'', ''sc'', ''sd'', ''se'', ''sg'', ''sh'',
    ''si'', ''sj'', ''sk'', ''sl'', ''sm'', ''sn'', ''so'', ''sr'', ''ss'', ''st'', ''sv'',
    ''sx'', ''sy'', ''sz'', ''tc'', ''td'', ''tf'', ''tg'', ''th'', ''tj'', ''tk'', ''tl'',
    ''tm'', ''tn'', ''to'', ''tr'', ''tt'', ''tv'', ''tw'', ''tz'', ''ua'', ''ug'', ''uk'',
    ''us'', ''uy'', ''uz'', ''va'', ''vc'', ''ve'', ''vg'', ''vi'', ''vn'', ''vu'', ''wf'',
    ''ws'', ''ye'', ''yt'', ''za'', ''zm'', ''zw'', ''gov'', ''edu'', ''mil'', ''int'',
    ''parliament'', ''congress'', ''senate'', ''army'', ''navy'', ''airforce'', ''police'',
    ''fbi'', ''cia'', ''nsa'', ''court'', ''justice'', ''diplomacy'', ''embassy'', ''consulate'',
    ''minister'', ''ministry'', ''department'', ''federal'', ''state'', ''municipal'', ''city'',
    ''county'']"

definition BANNED_EXTENSIONS :: "string list" where
  "BANNED_EXTENSIONS = [
    ''example'', ''test'', ''invalid'', ''localhost'', ''onion'', ''arpa'', ''root'', ''corp'',
    ''home'', ''mail'', ''nato'', ''icann'', ''iana'', ''internic'', ''whois'', ''dns'',
    ''ddns'', ''dyndns'', ''noip'', ''afraid'', ''freedns'', ''zoneedit'', ''cloudns'',
    ''easydns'']"

definition BANNED_ABHORRENT_TERMS :: "string list" where
  "BANNED_ABHORRENT_TERMS = [
    ''rape'', ''rapes'', ''rapist'', ''raping'', ''raped'', ''rap3'', ''rap3d'', ''r4pe'',
    ''r4p3'', ''murder'', ''murders'', ''murderer'', ''murdering'', ''murd3r'', ''murd3rs'',
    ''pedophile'', ''pedophilia'', ''pedo'', ''pedofile'', ''paedophile'', ''paedophilia'',
    ''childporn'', ''childabuse'', ''childpornography'', ''lolita'', ''preteen'', ''abuse'',
    ''abuser'', ''abusing'', ''abus3'', ''abus3r'', ''abus3d'', ''gore'', ''gory'', ''g0re'',
    ''g0ry'', ''torture'', ''tortur3'', ''t0rture'', ''necrophilia'', ''necrophile'', ''necro'',
    ''necrophil'', ''necrophiliac'', ''suicide'', ''suicidal'', ''suicid3'', ''suicid4l'',
    ''kill'', ''killyourself'', ''kys'', ''hangyourself'', ''selfharm'', ''selfmutilation'',
    ''incest'', ''inc3st'', ''incestuous'', ''bestiality'', ''beastiality'', ''zoophilia'',
    ''fisting'', ''fistfucking'', ''scat'', ''scatology'', ''watersports'', ''pissplay'',
    ''snuff'', ''snufffilm'', ''snuffporn'', ''snuffmovie'', ''kidnapping'', ''kidnap'',
    ''kidnapper'', ''kidn4p'', ''abduction'', ''abduct'', ''terrorist'', ''terrorism'',
    ''terror'', ''t3rror'', ''t3rrorist'', ''bombmaking'', ''cannabis'', ''cocaine'', ''heroin'',
    ''methamphetamine'', ''meth'', ''lsd'', ''ecstasy'', ''mdma'', ''fentanyl'', ''opioid'',
    ''opium'', ''crack'', ''ketamine'', ''amphetamines'', ''marijuana'', ''weed'', ''hashish'',
    ''hash'', ''thc'', ''pornography'', ''porn'', ''pron'', ''pr0n'', ''p0rn'', ''xxx'',
    ''adultvideo'', ''hardcore'', ''softcore'', ''teensex'', ''milf'', ''bdsm'', ''bondage'',
    ''sadomasochism'', ''domination'', ''submission'', ''swinger'', ''swinging'', ''hooker'',
    ''hookers'', ''prostitute'', ''prostitution'', ''escortservice'', ''brothel'', ''whore'',
    ''whorehouse'', ''stripclub'', ''stripper'', ''lapdance'', ''sexwork'', ''sexworker'',
    ''sexslave'', ''sextrafficking'', ''humantrafficking'', ''trafficking'']"

definition PROJECT_RESERVED_TERMS :: "string list" where
  "PROJECT_RESERVED_TERMS = [
    ''veilroot'', ''veil'', ''root'', ''vns'', ''veilrootdao'', ''vnsdao'', ''veilnet'',
    ''veilchain'', ''veilname'', ''veilrootname'', ''veilrootnamesystem'', ''veilrootprotocol'',
    ''veilrootdns'', ''veilrootdomain'', ''veilrootdomains'']"

definition BIG_TECH_LABELS :: "string list" where
  "BIG_TECH_LABELS = [
    ''apple'', ''appleinc'', ''google'', ''alphabet'', ''youtube'', ''android'', ''chrome'',
    ''microsoft'', ''windows'', ''azure'', ''office'', ''linkedin'', ''github'', ''skype'',
    ''amazon'', ''aws'', ''kindle'', ''audible'', ''twitch'', ''imdb'', ''meta'', ''facebook'',
    ''instagram'', ''whatsapp'', ''messenger'', ''threads'', ''oculus'', ''x'', ''twitter'',
    ''tesla'', ''spacex'', ''starlink'', ''palantir'', ''openai'', ''anthropic'', ''deepmind'',
    ''nvidia'', ''intel'', ''amd'', ''qualcomm'', ''broadcom'', ''cisco'', ''oracle'', ''sap'',
    ''salesforce'', ''ibm'', ''hp'', ''dell'', ''sony'', ''panasonic'', ''samsung'', ''lg'',
    ''xiaomi'', ''huawei'', ''zte'', ''lenovo'', ''asus'', ''acer'', ''logitech'', ''razer'',
    ''tiktok'', ''bytedance'', ''snapchat'', ''pinterest'', ''reddit'', ''spotify'', ''netflix'',
    ''hulu'', ''disney'', ''warner'', ''paramount'', ''hbo'', ''peacock'', ''tencent'',
    ''alibaba'', ''baidu'', ''naver'', ''kakao'', ''yandex'', ''mailru'', ''vk'', ''cloudflare'']"

definition FINANCE_LABELS :: "string list" where
  "FINANCE_LABELS = [
    ''goldmansachs'', ''jpmorgan'', ''jpmorganchase'', ''morganstanley'', ''bankofamerica'',
    ''bofa'', ''citigroup'', ''citi'', ''wellsfargo'', ''barclays'', ''hsbc'', ''ubs'',
    ''creditsuisse'', ''deutschebank'', ''bnpparibas'', ''societegenerale'', ''commerzbank'',
    ''unicredit'', ''intesa'', ''santander'', ''bbva'', ''ing'', ''abnamro'', ''nordea'',
    ''dnb'', ''swedbank'', ''seb'', ''standardchartered'', ''westpac'', ''nab'', ''anz'',
    ''cba'', ''dbs'', ''ocbc'', ''uob'', ''mizuho'', ''mitsubishiufj'', ''smbc'', ''nomura'',
    ''daiwa'', ''icbc'', ''chinaconstructionbank'', ''agriculturalbankofchina'', ''bankofchina'',
    ''bankofcommunications'', ''pingan'', ''sberbank'', ''vtb'', ''gazprombank'', ''alfabank'',
    ''itau'', ''bradesco'', ''bancodobrasil'', ''santanderbrasil'', ''blackrock'', ''vanguard'',
    ''fidelity'', ''statestreet'', ''pimco'', ''capitalgroup'', ''troweprice'', ''franklin'',
    ''templeton'', ''invesco'', ''janie'', ''wellington'', ''putnam'', ''berkshirehathaway'',
    ''citadel'', ''point72'', ''millennium'', ''bragg'', ''renaissance'', ''twosigma'',
    ''deshaw'', ''jump'', ''virtu'', ''susquehanna'', ''aig'', ''prudential'', ''metlife'',
    ''allstate'', ''statefarm'', ''progressive'', ''geico'', ''libertymutual'', ''guardian'',
    ''principal'', ''hartford'', ''travelers'', ''nationwide'', ''usaa'', ''axa'', ''allianz'',
    ''generali'', ''zurich'', ''munichre'', ''swissre'', ''berkshire'', ''hathaway'', ''visa'',
    ''mastercard'', ''americanexpress'', ''paypal'', ''venmo'', ''stripe'', ''square'',
    ''block'', ''adyen'', ''worldpay'', ''fiserv'', ''fis'', ''globalpayments'', ''binance'',
    ''coinbase'', ''kraken'', ''gemini'', ''bitfinex'', ''bitstamp'', ''huobi'', ''okx'',
    ''bybit'', ''kucoin'', ''gateio'', ''cryptocom'', ''robinhood'', ''revolut'', ''wise'',
    ''n26'', ''nubank'', ''chime'', ''sofi'', ''chainalysis'', ''elliptic'', ''ciphertrace'',
    ''trm'', ''compilatio'', ''refinitiv'', ''worldcheck'', ''dowjones'', ''lexisnexis'',
    ''relx'', ''experian'', ''equifax'', ''transunion'', ''bis'', ''worldbank'', ''imf'',
    ''wef'', ''fsb'', ''iosco'', ''basel'', ''fatf'', ''ecb'', ''federalreserve'',
    ''bankofengland'', ''boj'', ''pbc'', ''boe'', ''swift'', ''chips'']"

definition GOVERNMENT_KEYWORDS :: "string list" where
  "GOVERNMENT_KEYWORDS = [
    ''government'', ''ministry'', ''minister'', ''department'', ''federal'', ''national'',
    ''state'', ''provincial'', ''municipal'', ''city'', ''county'', ''township'', ''borough'',
    ''parish'', ''canton'', ''agency'', ''administration'', ''authority'', ''commission'',
    ''committee'', ''council'', ''board'', ''assembly'', ''parliament'', ''congress'',
    ''senate'', ''house'', ''chamber'', ''court'', ''justice'', ''police'', ''sheriff'',
    ''marshal'', ''constable'', ''trooper'', ''patrol'', ''investigation'', ''fbi'', ''cia'',
    ''nsa'', ''dia'', ''nga'', ''nro'', ''dea'', ''atf'', ''ice'', ''cbp'', ''tss'',
    ''secretservice'', ''intelligence'', ''counterterrorism'', ''homeland'', ''security'',
    ''defense'', ''armedforces'', ''army'', ''navy'', ''airforce'', ''marines'', ''coastguard'',
    ''militia'', ''guard'', ''reserve'', ''veteran'', ''affairs'', ''gchq'', ''fiveeyes'',
    ''fisa'', ''gobierno'', ''estado'', ''nacional'', ''provincial'', ''municipal'', ''ciudad'',
    ''condado'', ''departamento'', ''ministerio'', ''oficina'', ''agencia'', ''administracion'',
    ''comision'', ''comite'', ''consejo'', ''asamblea'', ''parlamento'', ''congreso'',
    ''senado'', ''camara'', ''corte'', ''justicia'', ''policia'', ''fiscal'', ''juez'',
    ''investigacion'', ''inteligencia'', ''seguridad'', ''defensa'', ''fuerzasarmadas'',
    ''ejercito'', ''armada'', ''fuerzaaerea'', ''marina'', ''guardiacivil'', ''gouvernement'',
    ''etat'', ''national'', ''provincial'', ''municipal'', ''ville'', ''departement'',
    ''ministere'', ''bureau'', ''agence'', ''administration'', ''commission'', ''comite'',
    ''conseil'', ''assemblee'', ''parlement'', ''congres'', ''senat'', ''chambre'', ''cour'',
    ''justice'', ''police'', ''enquete'', ''renseignement'', ''securite'', ''defense'',
    ''armees'', ''armee'', ''marine'', ''garde'', ''regierung'', ''staat'', ''bundes'',
    ''landes'', ''kreis'', ''stadt'', ''gemeinde'', ''ministerium'', ''amt'', ''behoerde'',
    ''verwaltung'', ''kommission'', ''ausschuss'', ''rat'', ''parlament'', ''bundestag'',
    ''senat'', ''gericht'', ''justiz'', ''polizei'', ''ermittlung'', ''geheimdienst'',
    ''nachrichtendienst'', ''sicherheit'', ''verteidigung'', ''streitkraefte'', ''armee'',
    ''marine'', ''luftwaffe'',
    [CHR 0xD0, CHR 0xBF, CHR 0xD1, CHR 0x80, CHR 0xD0, CHR 0xB0, CHR 0xD0, CHR 0xB2, CHR 0xD0,
     CHR 0xB8, CHR 0xD1, CHR 0x82, CHR 0xD0, CHR 0xB5, CHR 0xD0, CHR 0xBB, CHR 0xD1, CHR 0x8C,
     CHR 0xD1, CHR 0x81, CHR 0xD1, CHR 0x82, CHR 0xD0, CHR 0xB2, CHR 0xD0, CHR 0xBE],
    [CHR 0xD0, CHR 0xB3, CHR 0xD0, CHR 0xBE, CHR 0xD1, CHR 0x81, CHR 0xD1, CHR 0x83, CHR 0xD0,
     CHR 0xB4, CHR 0xD0, CHR 0xB0, CHR 0xD1, CHR 0x80, CHR 0xD1, CHR 0x81, CHR 0xD1, CHR 0x82,
     CHR 0xD0, CHR 0xB2, CHR 0xD0, CHR 0xBE],
    [CHR 0xD1, CHR 0x84, CHR 0xD0, CHR 0xB5, CHR 0xD0, CHR 0xB4, CHR 0xD0, CHR 0xB5, CHR 0xD1,
     CHR 0x80, CHR 0xD0, CHR 0xB0, CHR 0xD0, CHR 0xBB, CHR 0xD1, CHR 0x8C, CHR 0xD0, CHR 0xBD,
     CHR 0xD1, CHR 0x8B, CHR 0xD0, CHR 0xB9],
    [CHR 0xD1, CHR 0x80, CHR 0xD0, CHR 0xB5, CHR 0xD0, CHR 0xB3, CHR 0xD0, CHR 0xB8, CHR 0xD0,
     CHR 0xBE, CHR 0xD0, CHR 0xBD, CHR 0xD0, CHR 0xB0, CHR 0xD0, CHR 0xBB, CHR 0xD1, CHR 0x8C,
     CHR 0xD0, CHR 0xBD, CHR 0xD1, CHR 0x8B, CHR 0xD0, CHR 0xB9],
    [CHR 0xD0, CHR 0xBC, CHR 0xD1, CHR 0x83, CHR 0xD0, CHR 0xBD, CHR 0xD0, CHR 0xB8, CHR 0xD1,
     CHR 0x86, CHR 0xD0, CHR 0xB8, CHR 0xD0, CHR 0xBF, CHR 0xD0, CHR 0xB0, CHR 0xD0, CHR 0xBB,
     CHR 0xD1, CHR 0x8C, CHR 0xD0, CHR 0xBD, CHR 0xD1, CHR 0x8B, CHR 0xD0, CHR 0xB9],
    [CHR 0xD0, CHR 0xB3, CHR 0xD0, CHR 0xBE, CHR 0xD1, CHR 0x80, CHR 0xD0, CHR 0xBE, CHR 0xD0,
     CHR 0xB4],
    [CHR 0xD1, CHR 0x80, CHR 0xD0, CHR 0xB0, CHR 0xD0, CHR 0xB9, CHR 0xD0, CHR 0xBE, CHR 0xD0,
     CHR 0xBD],
    [CHR 0xD0, CHR 0xB4, CHR 0xD0, CHR 0xB5, CHR 0xD0, CHR 0xBF, CHR 0xD0, CHR 0xB0, CHR 0xD1,
     CHR 0x80, CHR 0xD1, CHR 0x82, CHR 0xD0, CHR 0xB0, CHR 0xD0, CHR 0xBC, CHR 0xD0, CHR 0xB5,
     CHR 0xD0, CHR 0xBD, CHR 0xD1, CHR 0x82],
    [CHR 0xD0, CHR 0xBC, CHR 0xD0, CHR 0xB8, CHR 0xD0, CHR 0xBD, CHR 0xD0, CHR 0xB8, CHR 0xD1,
     CHR 0x81, CHR 0xD1, CHR 0x82, CHR 0xD0, CHR 0xB5, CHR 0xD1, CHR 0x80, CHR 0xD1, CHR 0x81,
     CHR 0xD1, CHR 0x82, CHR 0xD0, CHR 0xB2, CHR 0xD0, CHR 0xBE],
    [CHR 0xD0, CHR 0xB2, CHR 0xD0, CHR 0xB5, CHR 0xD0, CHR 0xB4, CHR 0xD0, CHR 0xBE, CHR 0xD0,
     CHR 0xBC, CHR 0xD1, CHR 0x81, CHR 0xD1, CHR 0x82, CHR 0xD0, CHR 0xB2, CHR 0xD0, CHR 0xBE],
    [CHR 0xD1, CHR 0x81, CHR 0xD0, CHR 0xBB, CHR 0xD1, CHR 0x83, CHR 0xD0, CHR 0xB6, CHR 0xD0,
     CHR 0xB1, CHR 0xD0, CHR 0xB0],
    [CHR 0xD0, CHR 0xBA, CHR 0xD0, CHR 0xBE, CHR 0xD0, CHR 0xBC, CHR 0xD0, CHR 0xB8, CHR 0xD1,
     CHR 0x81, CHR 0xD1, CHR 0x81, CHR 0xD0, CHR 0xB8, CHR 0xD1, CHR 0x8F],
    [CHR 0xD0, CHR 0xBA, CHR 0xD0, CHR 0xBE, CHR 0xD0, CHR 0xBC, CHR 0xD0, CHR 0xB8, CHR 0xD1,
     CHR 0x82, CHR 0xD0, CHR 0xB5, CHR 0xD1, CHR 0x82],
    [CHR 0xD1, CHR 0x81, CHR 0xD0, CHR 0xBE, CHR 0xD0, CHR 0xB2, CHR 0xD0, CHR 0xB5, CHR 0xD1,
     CHR 0x82],
    [CHR 0xD0, CHR 0xBF, CHR 0xD0, CHR 0xB0, CHR 0xD1, CHR 0x80, CHR 0xD0, CHR 0xBB, CHR 0xD0,
     CHR 0xB0, CHR 0xD0, CHR 0xBC, CHR 0xD0, CHR 0xB5, CHR 0xD0, CHR 0xBD, CHR 0xD1, CHR 0x82],
    [CHR 0xD1, CHR 0x81, CHR 0xD0, CHR 0xB5, CHR 0xD0, CHR 0xBD, CHR 0xD0, CHR 0xB0, CHR 0xD1,
     CHR 0x82], [CHR 0xD1, CHR 0x81, CHR 0xD1, CHR 0x83, CHR 0xD0, CHR 0xB4],
    [CHR 0xD1, CHR 0x8E, CHR 0xD1, CHR 0x81, CHR 0xD1, CHR 0x82, CHR 0xD0, CHR 0xB8, CHR 0xD1,
     CHR 0x86, CHR 0xD0, CHR 0xB8, CHR 0xD1, CHR 0x8F],
    [CHR 0xD0, CHR 0xBF, CHR 0xD0, CHR 0xBE, CHR 0xD0, CHR 0xBB, CHR 0xD0, CHR 0xB8, CHR 0xD1,
     CHR 0x86, CHR 0xD0, CHR 0xB8, CHR 0xD1, CHR 0x8F],
    [CHR 0xD1, CHR 0x80, CHR 0xD0, CHR 0xB0, CHR 0xD1, CHR 0x81, CHR 0xD1, CHR 0x81, CHR 0xD0,
     CHR 0xBB, CHR 0xD0, CHR 0xB5, CHR 0xD0, CHR 0xB4, CHR 0xD0, CHR 0xBE, CHR 0xD0, CHR 0xB2,
     CHR 0xD0, CHR 0xB0, CHR 0xD0, CHR 0xBD, CHR 0xD0, CHR 0xB8, CHR 0xD0, CHR 0xB5],
    [CHR 0xD1, CHR 0x80, CHR 0xD0, CHR 0xB0, CHR 0xD0, CHR 0xB7, CHR 0xD0, CHR 0xB2, CHR 0xD0,
     CHR 0xB5, CHR 0xD0, CHR 0xB4, CHR 0xD0, CHR 0xBA, CHR 0xD0, CHR 0xB0],
    [CHR 0xD0, CHR 0xB1, CHR 0xD0, CHR 0xB5, CHR 0xD0, CHR 0xB7, CHR 0xD0, CHR 0xBE, CHR 0xD0,
     CHR 0xBF, CHR 0xD0, CHR 0xB0, CHR 0xD1, CHR 0x81, CHR 0xD0, CHR 0xBD, CHR 0xD0, CHR 0xBE,
     CHR 0xD1, CHR 0x81, CHR 0xD1, CHR 0x82, CHR 0xD1, CHR 0x8C],
    [CHR 0xD0, CHR 0xBE, CHR 0xD0, CHR 0xB1, CHR 0xD0, CHR 0xBE, CHR 0xD1, CHR 0x80, CHR 0xD0,
     CHR 0xBE, CHR 0xD0, CHR 0xBD, CHR 0xD0, CHR 0xB0],
    [CHR 0xD0, CHR 0xB2, CHR 0xD0, CHR 0xBE, CHR 0xD0, CHR 0xBE, CHR 0xD1, CHR 0x80, CHR 0xD1,
     CHR 0x83, CHR 0xD0, CHR 0xB6, CHR 0xD0, CHR 0xB5, CHR 0xD0, CHR 0xBD, CHR 0xD0, CHR 0xBD,
     CHR 0xD1, CHR 0x8B, CHR 0xD0, CHR 0xB5, CHR 0xD1, CHR 0x81, CHR 0xD0, CHR 0xB8, CHR 0xD0,
     CHR 0xBB, CHR 0xD1, CHR 0x8B],
    [CHR 0xD0, CHR 0xB0, CHR 0xD1, CHR 0x80, CHR 0xD0, CHR 0xBC, CHR 0xD0, CHR 0xB8, CHR 0xD1,
     CHR 0x8F], [CHR 0xD1, CHR 0x84, CHR 0xD0, CHR 0xBB, CHR 0xD0, CHR 0xBE, CHR 0xD1, CHR 0x82],
    [CHR 0xE6, CHR 0x94, CHR 0xBF, CHR 0xE5, CHR 0xBA, CHR 0x9C],
    [CHR 0xE5, CHR 0x9B, CHR 0xBD, CHR 0xE5, CHR 0x8A, CHR 0xA1, CHR 0xE9, CHR 0x99, CHR 0xA2],
    [CHR 0xE5, CHR 0x9B, CHR 0xBD, CHR 0xE5, CHR 0xAE, CHR 0xB6], [CHR 0xE9, CHR 0x83, CHR 0xA8],
    [CHR 0xE9, CHR 0x83, CHR 0xA8, CHR 0xE9, CHR 0x97, CHR 0xA8], [CHR 0xE7, CHR 0x9C, CHR 0x81],
    [CHR 0xE5, CHR 0xB8, CHR 0x82], [CHR 0xE5, CHR 0x8E, CHR 0xBF],
    [CHR 0xE5, CHR 0x8C, CHR 0xBA], [CHR 0xE8, CHR 0xAD, CHR 0xA6, CHR 0xE5, CHR 0xAF, CHR 0x9F],
    [CHR 0xE5, CHR 0x86, CHR 0x9B, CHR 0xE9, CHR 0x98, CHR 0x9F],
    [CHR 0xE5, CHR 0x9B, CHR 0xBD, CHR 0xE9, CHR 0x98, CHR 0xB2],
    [CHR 0xE5, CHR 0xAE, CHR 0x89, CHR 0xE5, CHR 0x85, CHR 0xA8],
    [CHR 0xE6, CHR 0x83, CHR 0x85, CHR 0xE6, CHR 0x8A, CHR 0xA5],
    [CHR 0xE6, CHR 0xB3, CHR 0x95, CHR 0xE9, CHR 0x99, CHR 0xA2],
    [CHR 0xE6, CHR 0xA3, CHR 0x80, CHR 0xE5, CHR 0xAF, CHR 0x9F, CHR 0xE9, CHR 0x99, CHR 0xA2],
    [CHR 0xD8, CHR 0xAD, CHR 0xD9, CHR 0x83, CHR 0xD9, CHR 0x88, CHR 0xD9, CHR 0x85, CHR 0xD8,
     CHR 0xA9],
    [CHR 0xD9, CHR 0x88, CHR 0xD8, CHR 0xB2, CHR 0xD8, CHR 0xA7, CHR 0xD8, CHR 0xB1, CHR 0xD8,
     CHR 0xA9], [CHR 0xD9, CHR 0x88, CHR 0xD8, CHR 0xB2, CHR 0xD9, CHR 0x8A, CHR 0xD8, CHR 0xB1],
    [CHR 0xD8, CHR 0xAF, CHR 0xD9, CHR 0x88, CHR 0xD9, CHR 0x84, CHR 0xD8, CHR 0xA9],
    [CHR 0xD8, CHR 0xB4, CHR 0xD8, CHR 0xB1, CHR 0xD8, CHR 0xB7, CHR 0xD8, CHR 0xA9],
    [CHR 0xD8, CHR 0xAC, CHR 0xD9, CHR 0x8A, CHR 0xD8, CHR 0xB4],
    [CHR 0xD8, CHR 0xA3, CHR 0xD9, CHR 0x85, CHR 0xD9, CHR 0x86],
    [CHR 0xD9, CHR 0x85, CHR 0xD8, CHR 0xAE, CHR 0xD8, CHR 0xA7, CHR 0xD8, CHR 0xA8, CHR 0xD8,
     CHR 0xB1, CHR 0xD8, CHR 0xA7, CHR 0xD8, CHR 0xAA],
    [CHR 0xD9, CHR 0x82, CHR 0xD8, CHR 0xB6, CHR 0xD8, CHR 0xA7, CHR 0xD8, CHR 0xA1],
    [CHR 0xD9, CHR 0x85, CHR 0xD8, CHR 0xAD, CHR 0xD9, CHR 0x83, CHR 0xD9, CHR 0x85, CHR 0xD8,
     CHR 0xA9],
    [CHR 0xD8, CHR 0xA8, CHR 0xD8, CHR 0xB1, CHR 0xD9, CHR 0x84, CHR 0xD9, CHR 0x85, CHR 0xD8,
     CHR 0xA7, CHR 0xD9, CHR 0x86],
    [CHR 0xD9, CHR 0x85, CHR 0xD8, CHR 0xAC, CHR 0xD9, CHR 0x84, CHR 0xD8, CHR 0xB3]]"

definition INTERNATIONAL_BODIES :: "string list" where
  "INTERNATIONAL_BODIES = [
    ''un'', ''unitednations'', ''undp'', ''unicef'', ''unesco'', ''who'', ''ilo'', ''imf'',
    ''worldbank'', ''wto'', ''oecd'', ''nato'', ''eu'', ''europeanunion'', ''ecb'',
    ''africanunion'', ''asean'', ''mercosur'', ''g7'', ''g20'', ''brics'', ''interpol'',
    ''icrc'', ''redcross'', ''redcrescent'', ''wef'', ''bis'', ''fatf'', ''iosco'', ''icann'',
    ''iana'', ''iso'', ''itu'', ''upu'', ''wipo'', ''wmo'', ''iaea'', ''opcw'', ''icc'', ''icj'',
    ''pca'', ''unhcr'', ''unrwa'', ''wfp'', ''fao'', ''ifad'', ''unido'', ''unctad'', ''unep'',
    ''unfccc'', ''unhabitat'', ''unwomen'', ''unfpa'', ''iom'', ''ieee'', ''w3c'',
    ''freedomhouse'', ''article19'', ''eff'', ''opensociety'', ''mozilla'', ''wikimedia'',
    ''isoc'', ''privacyinternational'', ''aclu'']"

definition DEFENCE_CONTRACTORS :: "string list" where
  "DEFENCE_CONTRACTORS = [
    ''lockheedmartin'', ''raytheon'', ''northropgrumman'', ''generaldynamics'', ''boeing'',
    ''baesystems'', ''thales'', ''leonardo'', ''saab'', ''airbus'', ''elbit'', ''cobham'',
    ''meggitt'', ''ultra'', ''l3harris'', ''harris'', ''leidos'', ''caci'', ''mitre'', ''sra'',
    ''boozallen'', ''anduril'', ''palantir'', ''epirus'', ''shieldai'', ''hawk'', ''dedrone'',
    ''clearviewai'', ''hikvision'', ''dahua'', ''axon'', ''cellebrite'', ''nsogroup'',
    ''finfisher'', ''gammagroup'', ''blackcube'', ''intellxa'', ''k2integrity'']"

definition TELECOM_MEDIA_LABELS :: "string list" where
  "TELECOM_MEDIA_LABELS = [
    ''at&t'', ''att'', ''verizon'', ''tmobile'', ''sprint'', ''comcast'', ''charter'', ''cox'',
    ''dish'', ''vodafone'', ''orange'', ''telefonica'', ''deutschetelekom'', ''bt'', ''sky'',
    ''ntt'', ''kddi'', ''softbank'', ''singtel'', ''telstra'', ''rogers'', ''bell'', ''telenor'',
    ''telia'', ''swisscom'', ''nokia'', ''ericsson'', ''huawei'', ''zte'', ''disney'',
    ''warner'', ''nbc'', ''cbs'', ''abc'', ''bbc'', ''cnn'', ''fox'', ''bloomberg'', ''reuters'',
    ''ap'', ''afp'', ''nytimes'', ''wsj'', ''news'', ''sinclair'', ''viacom'', ''discovery'',
    ''amc'', ''aenetworks'', ''lionsgate'', ''mgm'']"

section \<open>Lookups\<close>

text \<open>\<^verbatim>\<open>for (const auto& ext : LIST) m[ext] = TIER;\<close>\<close>

definition assign_tier :: "u8 \<Rightarrow> string list \<Rightarrow> (string \<rightharpoonup> u8) \<Rightarrow> (string \<rightharpoonup> u8)" where
  "assign_tier t exts m = fold (\<lambda>ext m. m(ext \<mapsto> t)) exts m"

definition get_extension_tier_map :: "string \<rightharpoonup> u8" where
  "get_extension_tier_map =
     (let m = Map.empty;
          m = assign_tier TIER_GENERIC GENERIC_EXTENSIONS m;
          m = assign_tier TIER_AFFORDABLE AFFORDABLE_EXTENSIONS m;
          m = assign_tier TIER_POPULAR POPULAR_EXTENSIONS m;
          m = assign_tier TIER_PROFESSIONAL PREMIUM_EXTENSIONS m;
          m = assign_tier TIER_ENTERPRISE ENTERPRISE_EXTENSIONS m;
          m = assign_tier TIER_SOVEREIGN SOVEREIGN_EXTENSIONS m;
          m = assign_tier TIER_BANNED BANNED_EXTENSIONS m
      in m)"

definition get_tier_for_extension :: "string \<Rightarrow> u8" where
  "get_tier_for_extension extension =
     (case get_extension_tier_map extension of Some t \<Rightarrow> t | None \<Rightarrow> TIER_PREMIUM)"

definition is_extension_locked :: "string \<Rightarrow> bool" where
  "is_extension_locked extension =
     (case get_extension_tier_map extension of Some t \<Rightarrow> t = TIER_BANNED | None \<Rightarrow> False)"

definition get_banned_labels :: "string set" where
  "get_banned_labels = set BANNED_ABHORRENT_TERMS \<union> set PROJECT_RESERVED_TERMS"

definition is_label_banned :: "string \<Rightarrow> bool" where
  "is_label_banned label = (label \<in> get_banned_labels)"

definition get_premium_labels :: "string set" where
  "get_premium_labels = set BIG_TECH_LABELS \<union> set FINANCE_LABELS \<union> set GOVERNMENT_KEYWORDS
     \<union> set INTERNATIONAL_BODIES \<union> set DEFENCE_CONTRACTORS \<union> set TELECOM_MEDIA_LABELS"

definition get_label_tier :: "string \<Rightarrow> u8" where
  "get_label_tier label = (if label \<in> get_premium_labels then TIER_SOVEREIGN else 0)"

definition is_premium_label :: "string \<Rightarrow> bool" where
  "is_premium_label label = (get_label_tier label = TIER_SOVEREIGN)"

definition get_required_fee :: "u8 \<Rightarrow> u64" where
  "get_required_fee tier =
     (if tier = TIER_PREMIUM then PREMIUM_TIER_FEE
      else if tier < 6 then TIER_FEES ! unat tier else 0)"

definition get_required_fee_for_extension :: "string \<Rightarrow> u64" where
  "get_required_fee_for_extension extension = get_required_fee (get_tier_for_extension extension)"

section \<open>Precedence of the lists\<close>

lemma assign_tier_apply [simp]:
  "assign_tier t exts m x = (if x \<in> set exts then Some t else m x)"
  unfolding assign_tier_def by (induction exts arbitrary: m) auto

text \<open>Abstract reading of the tables: the last list that names an extension decides.\<close>

definition listed_tier :: "string \<Rightarrow> u8 option" where
  "listed_tier e =
     (if e \<in> set BANNED_EXTENSIONS then Some TIER_BANNED
      else if e \<in> set SOVEREIGN_EXTENSIONS then Some TIER_SOVEREIGN
      else if e \<in> set ENTERPRISE_EXTENSIONS then Some TIER_ENTERPRISE
      else if e \<in> set PREMIUM_EXTENSIONS then Some TIER_PROFESSIONAL
      else if e \<in> set POPULAR_EXTENSIONS then Some TIER_POPULAR
      else if e \<in> set AFFORDABLE_EXTENSIONS then Some TIER_AFFORDABLE
      else if e \<in> set GENERIC_EXTENSIONS then Some TIER_GENERIC
      else None)"

lemma extension_tier_map_eq: "get_extension_tier_map = listed_tier"
  by (rule ext) (simp add: get_extension_tier_map_def listed_tier_def)

lemma listed_tier_values:
  "listed_tier e = Some t \<Longrightarrow> t \<le> TIER_SOVEREIGN \<or> t = TIER_BANNED"
  by (auto simp: listed_tier_def split: if_splits)

lemma listed_tier_banned: "listed_tier e = Some TIER_BANNED \<longleftrightarrow> e \<in> set BANNED_EXTENSIONS"
  by (auto simp: listed_tier_def)

lemma extension_locked_iff: "is_extension_locked e \<longleftrightarrow> e \<in> set BANNED_EXTENSIONS"
  by (auto simp: is_extension_locked_def extension_tier_map_eq listed_tier_banned [symmetric]
      split: option.splits)

lemma finite_dom_extension_tier_map: "finite (dom get_extension_tier_map)"
proof -
  have "dom listed_tier \<subseteq> set (BANNED_EXTENSIONS @ SOVEREIGN_EXTENSIONS @ ENTERPRISE_EXTENSIONS @
      PREMIUM_EXTENSIONS @ POPULAR_EXTENSIONS @ AFFORDABLE_EXTENSIONS @ GENERIC_EXTENSIONS)"
    by (auto simp: listed_tier_def split: if_splits)
  then show ?thesis
    unfolding extension_tier_map_eq by (rule finite_subset) simp
qed

lemma u8_less_6_cases:
  "(t :: u8) < 6 \<Longrightarrow> t = 0 \<or> t = 1 \<or> t = 2 \<or> t = 3 \<or> t = 4 \<or> t = 5"
  by unat_arith

lemma required_fee_values:
  "get_required_fee 0 = 100000000000" "get_required_fee 1 = 1000000000000"
  "get_required_fee 2 = 10000000000000" "get_required_fee 3 = 100000000000000"
  "get_required_fee 4 = 1000000000000000" "get_required_fee 5 = 10000000000000000"
  "get_required_fee 6 = 100000000000000000" "get_required_fee 255 = 0"
  by (simp_all add: get_required_fee_def TIER_FEES_def PREMIUM_TIER_FEE_def)

end
