(* ===== verification/Governance_Params.thy ===== *)
theory Governance_Params
  imports Byte_Codecs Domain_Tables "HOL-Library.Monad_Syntax"
begin

text \<open>
  \<^verbatim>\<open>src/src/governance/governance_params.h\<close> and \<^verbatim>\<open>.cpp\<close>: the consensus parameters of the
  governance system, their binary form, the built-in defaults and the lookups over them. The
  lemmas give the round trip of the binary form, for every record that fits the 16-bit length
  fields, and show that the defaults fit and agree with the built-in tables.
\<close>

section \<open>Data\<close>

datatype governance_parameter =
    proposal_submission_fee_param | voting_quorum_percent_param | treasury_ratio_param
  | execution_delay_param | voting_period_days_param
  | domain_tier_fee_0 | domain_tier_fee_1 | domain_tier_fee_2
  | domain_tier_fee_3 | domain_tier_fee_4 | domain_tier_fee_5

record governance_params =
  version :: u8
  proposal_submission_fee :: u64
  voting_quorum_percent :: u64
  tally_committee_size :: u8
  bridge_committee_size :: u8
  threshold_ratio_numerator :: u8
  threshold_ratio_denominator :: u8
  threshold_public_key :: bytes
  tier_fees :: "u64 list"
  treasury_ratio :: u8
  extension_tier_map_keys :: "string list"
  extension_tier_map_vals :: "u8 list"
  premium_labels :: "string list"
  banned_labels :: "string list"
  banned_extensions :: "string list"

section \<open>Binary form\<close>

text \<open>The length is cast to 16 bits, and only that many bytes of the string are written.\<close>

definition append_string :: "string \<Rightarrow> bytes" where
  "append_string s = (let len = (word_of_nat (length s) :: u16) in put_u16 len @ take (unat len) s)"

definition read_string :: "bytes \<Rightarrow> (string \<times> bytes) option" where
  "read_string data = do {
     (len, data) \<leftarrow> get_u16 data;
     if length data < unat len then None else Some (take (unat len) data, drop (unat len) data)
   }"

definition put_count :: "'a list \<Rightarrow> bytes" where
  "put_count xs = put_u16 (word_of_nat (length xs))"

definition serialize :: "governance_params \<Rightarrow> bytes" where
  "serialize gp =
     put_u8 (version gp)
     @ put_u64 (proposal_submission_fee gp)
     @ put_u64 (voting_quorum_percent gp)
     @ put_u8 (tally_committee_size gp)
     @ put_u8 (bridge_committee_size gp)
     @ put_u8 (threshold_ratio_numerator gp)
     @ put_u8 (threshold_ratio_denominator gp)
     @ concat (map put_u64 (tier_fees gp))
     @ threshold_public_key gp
     @ put_count (extension_tier_map_keys gp)
     @ concat (map (\<lambda>i. append_string (extension_tier_map_keys gp ! i)
                       @ put_u8 (extension_tier_map_vals gp ! i))
               [0..<length (extension_tier_map_keys gp)])
     @ put_count (premium_labels gp)
     @ concat (map append_string (premium_labels gp))
     @ put_count (banned_labels gp)
     @ concat (map append_string (banned_labels gp))
     @ put_count (banned_extensions gp)
     @ concat (map append_string (banned_extensions gp))"

text \<open>One pass of the loop over the extension tiers.\<close>

definition read_tier_entry :: "bytes \<Rightarrow> ((string \<times> u8) \<times> bytes) option" where
  "read_tier_entry data = do {
     (key, data) \<leftarrow> read_string data;
     (val, data) \<leftarrow> get_u8 data;
     Some ((key, val), data)
   }"

definition read_strings :: "bytes \<Rightarrow> (string list \<times> bytes) option" where
  "read_strings data = do {
     (count, data) \<leftarrow> get_u16 data;
     get_n read_string (unat count) data
   }"

text \<open>
  \<open>out\<close> is the caller's object: \<open>deserialize\<close> does not assign \<open>treasury_ratio\<close>, which keeps the
  value it had. Entries with the banned tier are read and dropped.
\<close>

definition deserialize :: "bytes \<Rightarrow> governance_params \<Rightarrow> governance_params option" where
  "deserialize blob out =
     (if length blob < 1 + 8 + 8 + 1 + 1 + 1 + 1 + 6 * 8 + 32 then None
      else do {
        (ver, data) \<leftarrow> get_u8 blob;
        if ver < 1 \<or> 3 < ver then None else do {
        (fee, data) \<leftarrow> get_u64 data;
        (quorum, data) \<leftarrow> get_u64 data;
        (tally, data) \<leftarrow> get_u8 data;
        (bridge, data) \<leftarrow> get_u8 data;
        (num, data) \<leftarrow> get_u8 data;
        (den, data) \<leftarrow> get_u8 data;
        (fees, data) \<leftarrow> get_n get_u64 6 data;
        (tpk, data) \<leftarrow> get_raw 32 data;
        (count, data) \<leftarrow> get_u16 data;
        (entries, data) \<leftarrow> get_n read_tier_entry (unat count) data;
        (premium, data) \<leftarrow> read_strings data;
        (banned, data) \<leftarrow> read_strings data;
        (banned_ext, data) \<leftarrow> read_strings data;
        if data \<noteq> [] then None
        else
          let kept = filter (\<lambda>(key, val). val \<noteq> TIER_BANNED) entries in
          Some (out\<lparr>version := ver, proposal_submission_fee := fee, voting_quorum_percent := quorum,
            tally_committee_size := tally, bridge_committee_size := bridge,
            threshold_ratio_numerator := num, threshold_ratio_denominator := den,
            threshold_public_key := tpk, tier_fees := fees,
            extension_tier_map_keys := map fst kept, extension_tier_map_vals := map snd kept,
            premium_labels := premium, banned_labels := banned,
            banned_extensions := banned_ext\<rparr>)
        }
      })"

section \<open>Lookups\<close>

primrec lookup_tier :: "string list \<Rightarrow> u8 list \<Rightarrow> string \<Rightarrow> u8" where
  "lookup_tier [] vals ext = 5"
| "lookup_tier (k # ks) vals ext =
     (if k = ext then hd vals else lookup_tier ks (tl vals) ext)"

definition gp_get_tier_for_extension :: "governance_params \<Rightarrow> string \<Rightarrow> u8" where
  "gp_get_tier_for_extension gp ext =
     lookup_tier (extension_tier_map_keys gp) (extension_tier_map_vals gp) ext"

definition gp_has_extension_tier_mapping :: "governance_params \<Rightarrow> string \<Rightarrow> bool" where
  "gp_has_extension_tier_mapping gp ext = (ext \<in> set (extension_tier_map_keys gp))"

definition gp_is_premium_label :: "governance_params \<Rightarrow> string \<Rightarrow> bool" where
  "gp_is_premium_label gp label = (label \<in> set (premium_labels gp))"

definition gp_is_label_banned :: "governance_params \<Rightarrow> string \<Rightarrow> bool" where
  "gp_is_label_banned gp label = (label \<in> set (banned_labels gp))"

definition gp_is_extension_banned :: "governance_params \<Rightarrow> string \<Rightarrow> bool" where
  "gp_is_extension_banned gp ext = (ext \<in> set (banned_extensions gp))"

section \<open>Defaults\<close>

text \<open>
  The defaults iterate over three hash containers, whose order the standard leaves open: the
  orders are arguments (\<open>tiers\<close>, \<open>premium\<close>, \<open>banned\<close>), and \<open>container_orders\<close> says that they
  enumerate the containers. \<open>treasury_ratio\<close> is not initialised by the code: \<open>junk\<close> is what the
  storage held.
\<close>

definition container_orders :: "(string \<times> u8) list \<Rightarrow> string list \<Rightarrow> string list \<Rightarrow> bool" where
  "container_orders tiers premium banned \<longleftrightarrow>
     distinct (map fst tiers) \<and> map_of tiers = get_extension_tier_map
     \<and> distinct premium \<and> set premium = get_premium_labels
     \<and> distinct banned \<and> set banned = get_banned_labels"

definition default_params ::
  "(string \<times> u8) list \<Rightarrow> string list \<Rightarrow> string list \<Rightarrow> u8 \<Rightarrow> governance_params" where
  "default_params tiers premium banned junk =
     (let kept = filter (\<lambda>(ext, tier). tier \<noteq> TIER_BANNED) tiers in
      \<lparr>version = 2, proposal_submission_fee = 10000000, voting_quorum_percent = 10,
       tally_committee_size = 16, bridge_committee_size = 32,
       threshold_ratio_numerator = 2, threshold_ratio_denominator = 3,
       threshold_public_key = replicate 32 (byte_of 0),
       tier_fees = [100000000000, 1000000000000, 10000000000000, 100000000000000,
         1000000000000000, 10000000000000000],
       treasury_ratio = junk,
       extension_tier_map_keys = map fst kept, extension_tier_map_vals = map snd kept,
       premium_labels = premium, banned_labels = banned,
       banned_extensions = BANNED_EXTENSIONS\<rparr>)"

section \<open>Round trip\<close>

definition short_string :: "string \<Rightarrow> bool" where
  "short_string s \<longleftrightarrow> length s < 65536"

interpretation str16: byte_codec append_string read_string short_string
  by unfold_locales
    (simp add: append_string_def read_string_def short_string_def u16.dec_enc unat_of_nat)

interpretation tier_entry:
  byte_codec "\<lambda>(key, val). append_string key @ put_u8 val" read_tier_entry
    "\<lambda>(key, val). short_string key"
  by unfold_locales (auto simp: read_tier_entry_def str16.dec_enc u8.dec_enc)

definition short_list :: "string list \<Rightarrow> bool" where
  "short_list xs \<longleftrightarrow> length xs < 65536 \<and> (\<forall>s \<in> set xs. short_string s)"

interpretation strings16:
  byte_codec "\<lambda>xs. put_count xs @ concat (map append_string xs)" read_strings short_list
  by unfold_locales
    (simp add: read_strings_def put_count_def short_list_def u16.dec_enc unat_of_nat
      str16.dec_list_enc)

definition params_fit :: "governance_params \<Rightarrow> bool" where
  "params_fit gp \<longleftrightarrow>
     1 \<le> version gp \<and> version gp \<le> 3
     \<and> length (threshold_public_key gp) = 32 \<and> length (tier_fees gp) = 6
     \<and> length (extension_tier_map_vals gp) = length (extension_tier_map_keys gp)
     \<and> TIER_BANNED \<notin> set (extension_tier_map_vals gp)
     \<and> short_list (extension_tier_map_keys gp) \<and> short_list (premium_labels gp)
     \<and> short_list (banned_labels gp) \<and> short_list (banned_extensions gp)"

lemma tier_entries_concat:
  assumes "length vals = length keys"
  shows "concat (map (\<lambda>i. append_string (keys ! i) @ put_u8 (vals ! i)) [0..<length keys]) =
    concat (map (\<lambda>(key, val). append_string key @ put_u8 val) (zip keys vals))"
proof -
  have "zip keys vals = map (\<lambda>i. (keys ! i, vals ! i)) [0..<length keys]"
    using assms by (intro nth_equalityI) auto
  then show ?thesis by (simp add: comp_def)
qed

lemma filter_zip_not_banned:
  "length vals = length keys \<Longrightarrow> x \<notin> set vals \<Longrightarrow>
   filter (\<lambda>(key, val). val \<noteq> x) (zip keys vals) = zip keys vals"
  by (rule filter_True) (auto dest: set_zip_rightD)

lemma length_concat_put_u64 [simp]: "length (concat (map put_u64 ws)) = 8 * length ws"
  by (induction ws) auto


lemma length_serialize_ge:
  "length (threshold_public_key gp) = 32 \<Longrightarrow> length (tier_fees gp) = 6 \<Longrightarrow>
   101 \<le> length (serialize gp)"
  by (simp add: serialize_def)

lemma deserialize_serialize:
  assumes "params_fit gp"
  shows "deserialize (serialize gp) out = Some (gp\<lparr>treasury_ratio := treasury_ratio out\<rparr>)"
proof -
  let ?es = "zip (extension_tier_map_keys gp) (extension_tier_map_vals gp)"
  from assms have len: "length (threshold_public_key gp) = 32" "length (tier_fees gp) = 6"
    "length (extension_tier_map_vals gp) = length (extension_tier_map_keys gp)"
    by (simp_all add: params_fit_def)
  have nb: "TIER_BANNED \<notin> set (extension_tier_map_vals gp)"
    and sk: "short_list (extension_tier_map_keys gp)"
    using assms by (simp_all add: params_fit_def)
  have fees: "get_n get_u64 6 (concat (map put_u64 (tier_fees gp)) @ r) = Some (tier_fees gp, r)" for r
    using u64.dec_list_enc [of "tier_fees gp" r] len(2) by simp
  have tpk: "get_raw 32 (threshold_public_key gp @ r) = Some (threshold_public_key gp, r)" for r
    using raw.dec_enc [of "threshold_public_key gp" 32] len(1) by simp
  have cnt: "unat (word_of_nat (length (extension_tier_map_keys gp)) :: u16) =
      length (extension_tier_map_keys gp)"
    using sk len(3) by (simp add: short_list_def unat_of_nat)
  have "\<forall>(key, val) \<in> set ?es. short_string key"
    using sk by (auto simp: short_list_def dest: set_zip_leftD)
  then have ent: "get_n read_tier_entry (length (extension_tier_map_keys gp))
      (concat (map (\<lambda>(key, val). append_string key @ put_u8 val) ?es) @ r) = Some (?es, r)" for r
    using tier_entry.dec_list_enc [of ?es r] len(3) by simp
  have ver: "version gp \<noteq> 0"
    using assms by (auto simp: params_fit_def)
  have strs: "read_strings (put_count xs @ concat (map append_string xs) @ r) = Some (xs, r)"
    if "short_list xs" for xs r
    using strings16.dec_enc [OF that] by simp
  have "\<not> length (serialize gp) < 101"
    using length_serialize_ge [OF len(1,2)] by simp
  with assms show ?thesis
    unfolding deserialize_def
    by (simp add: serialize_def params_fit_def u8.dec_enc u64.dec_enc u16.dec_enc fees tpk
        put_count_def [of "extension_tier_map_keys gp"] tier_entries_concat cnt ent
        strs strs [where r = "[]", simplified] filter_zip_not_banned not_less ver)
qed

section \<open>The defaults fit and agree with the tables\<close>

definition all_extensions :: "string list" where
  "all_extensions = GENERIC_EXTENSIONS @ AFFORDABLE_EXTENSIONS @ POPULAR_EXTENSIONS @
     PREMIUM_EXTENSIONS @ ENTERPRISE_EXTENSIONS @ SOVEREIGN_EXTENSIONS @ BANNED_EXTENSIONS"

definition all_banned_labels :: "string list" where
  "all_banned_labels = BANNED_ABHORRENT_TERMS @ PROJECT_RESERVED_TERMS"

definition all_premium_labels :: "string list" where
  "all_premium_labels = BIG_TECH_LABELS @ FINANCE_LABELS @ GOVERNMENT_KEYWORDS @
     INTERNATIONAL_BODIES @ DEFENCE_CONTRACTORS @ TELECOM_MEDIA_LABELS"

lemmas table_defs =
  GENERIC_EXTENSIONS_def AFFORDABLE_EXTENSIONS_def POPULAR_EXTENSIONS_def PREMIUM_EXTENSIONS_def
  ENTERPRISE_EXTENSIONS_def SOVEREIGN_EXTENSIONS_def BANNED_EXTENSIONS_def
  BANNED_ABHORRENT_TERMS_def PROJECT_RESERVED_TERMS_def BIG_TECH_LABELS_def FINANCE_LABELS_def
  GOVERNMENT_KEYWORDS_def INTERNATIONAL_BODIES_def DEFENCE_CONTRACTORS_def TELECOM_MEDIA_LABELS_def

lemma tables_short:
  "list_all (\<lambda>s. length s < 100) all_extensions"
  "list_all (\<lambda>s. length s < 100) all_banned_labels"
  "list_all (\<lambda>s. length s < 100) all_premium_labels"
  by (simp_all add: all_extensions_def all_banned_labels_def all_premium_labels_def table_defs)

lemma tables_length:
  "length all_extensions < 65536" "length all_banned_labels < 65536"
  "length all_premium_labels < 65536"
  by (simp_all add: all_extensions_def all_banned_labels_def all_premium_labels_def table_defs)

lemma short_enum:
  assumes "distinct xs" "set xs \<subseteq> set ys" "length ys < 65536" "list_all (\<lambda>s. length s < 100) ys"
  shows "short_list xs"
proof -
  have "length xs = card (set xs)" using assms(1) by (simp add: distinct_card)
  also have "\<dots> \<le> card (set ys)" using assms(2) by (simp add: card_mono)
  also have "\<dots> \<le> length ys" by (rule card_length)
  finally show ?thesis
    using assms by (force simp: short_list_def short_string_def list_all_iff)
qed

lemma dom_listed: "listed_tier e = Some t \<Longrightarrow> e \<in> set all_extensions"
  by (auto simp: listed_tier_def all_extensions_def split: if_splits)

lemma orders_entry:
  assumes "container_orders tiers premium banned"
  shows "(e, t) \<in> set tiers \<longleftrightarrow> listed_tier e = Some t"
  using assms by (metis container_orders_def extension_tier_map_eq map_of_eq_Some_iff)

lemma default_params_fit:
  assumes "container_orders tiers premium banned"
  shows "params_fit (default_params tiers premium banned junk)"
proof -
  let ?kept = "filter (\<lambda>(ext, tier). tier \<noteq> TIER_BANNED) tiers"
  from assms have d: "distinct (map fst tiers)" "distinct premium" "distinct banned"
    and s: "set premium = get_premium_labels" "set banned = get_banned_labels"
    by (simp_all add: container_orders_def)
  have "set (map fst ?kept) \<subseteq> set all_extensions"
    using orders_entry [OF assms] dom_listed by fastforce
  with d(1) have "short_list (map fst ?kept)"
    by (intro short_enum [of _ all_extensions] distinct_map_filter tables_length tables_short)
  moreover have "short_list premium"
    by (rule short_enum [OF d(2) _ tables_length(3) tables_short(3)])
      (simp add: s get_premium_labels_def all_premium_labels_def Un_assoc)
  moreover have "short_list banned"
    by (rule short_enum [OF d(3) _ tables_length(2) tables_short(2)])
      (simp add: s get_banned_labels_def all_banned_labels_def)
  moreover have "short_list BANNED_EXTENSIONS"
    by (simp add: short_list_def short_string_def BANNED_EXTENSIONS_def)
  ultimately show ?thesis
    by (auto simp: params_fit_def default_params_def Let_def)
qed

lemma lookup_tier_zip:
  "distinct (map fst es) \<Longrightarrow> (e, t) \<in> set es \<Longrightarrow> lookup_tier (map fst es) (map snd es) e = t"
  by (induction es) force+

text \<open>
  For every extension that is not banned, the parameters' lookup gives the tier of the built-in
  table, and a mapping exists exactly for the listed ones.
\<close>

lemma default_params_tier:
  assumes "container_orders tiers premium banned"
    and gp: "gp = default_params tiers premium banned junk"
  shows "gp_has_extension_tier_mapping gp e \<longleftrightarrow> (\<exists>t. listed_tier e = Some t \<and> t \<noteq> TIER_BANNED)"
    and "gp_has_extension_tier_mapping gp e \<Longrightarrow> gp_get_tier_for_extension gp e = get_tier_for_extension e"
proof -
  let ?kept = "filter (\<lambda>(ext, tier). tier \<noteq> TIER_BANNED) tiers"
  have kept: "(e, t) \<in> set ?kept \<longleftrightarrow> listed_tier e = Some t \<and> t \<noteq> TIER_BANNED" for t
    using orders_entry [OF assms(1)] by auto
  have "gp_has_extension_tier_mapping gp e \<longleftrightarrow> (\<exists>t. (e, t) \<in> set ?kept)"
    by (force simp: gp gp_has_extension_tier_mapping_def default_params_def Let_def)
  with kept show iff: "gp_has_extension_tier_mapping gp e \<longleftrightarrow>
      (\<exists>t. listed_tier e = Some t \<and> t \<noteq> TIER_BANNED)" by blast
  assume "gp_has_extension_tier_mapping gp e"
  with iff obtain t where t: "listed_tier e = Some t" "t \<noteq> TIER_BANNED" by blast
  have "distinct (map fst ?kept)"
    using assms(1) by (simp add: container_orders_def distinct_map_filter)
  with t kept have "lookup_tier (map fst ?kept) (map snd ?kept) e = t"
    by (intro lookup_tier_zip) blast+
  with t show "gp_get_tier_for_extension gp e = get_tier_for_extension e"
    by (simp add: gp gp_get_tier_for_extension_def default_params_def Let_def
        get_tier_for_extension_def extension_tier_map_eq)
qed

lemma enum_map:
  assumes "finite (dom m)"
  shows "\<exists>es. distinct (map fst es) \<and> map_of es = m"
proof -
  obtain ks where ks: "set ks = dom m" "distinct ks"
    using finite_distinct_list [OF assms] by blast
  have "map_of (map (\<lambda>k. (k, the (m k))) ks) x = m x" for x
    using ks(1) by (cases "m x") (auto simp: map_of_map_restrict restrict_map_def)
  then have "map_of (map (\<lambda>k. (k, the (m k))) ks) = m" by (rule ext)
  moreover have "distinct (map fst (map (\<lambda>k. (k, the (m k))) ks))"
    using ks(2) by (simp add: comp_def)
  ultimately show ?thesis by blast
qed

text \<open>The defaults' container orders exist, so statements about them are not empty.\<close>

lemma container_orders_exist: "\<exists>tiers premium banned. container_orders tiers premium banned"
proof -
  obtain tiers where "distinct (map fst tiers)" "map_of tiers = get_extension_tier_map"
    using enum_map [OF finite_dom_extension_tier_map] by blast
  moreover have "finite get_premium_labels" "finite get_banned_labels"
    by (simp_all add: get_premium_labels_def get_banned_labels_def)
  moreover from this obtain ps bs where "set ps = get_premium_labels" "distinct ps"
    "set bs = get_banned_labels" "distinct bs"
    using finite_distinct_list by metis
  ultimately have "container_orders tiers ps bs"
    unfolding container_orders_def by (intro conjI)
  then show ?thesis by blast
qed

section \<open>Properties\<close>

text \<open>
  C34: the binary form of the parameters loses nothing but \<open>treasury_ratio\<close>. Every record whose
  strings and lists fit the 16-bit length fields, with version 1 to 3 and no banned tier among its
  mappings, is read back as it was written; \<open>treasury_ratio\<close> keeps what the caller's object held.
\<close>
theorem params_roundtrip:
  "params_fit gp \<Longrightarrow>
   deserialize (serialize gp) out = Some (gp\<lparr>treasury_ratio := treasury_ratio out\<rparr>)"
  by (rule deserialize_serialize)

definition sample_params :: governance_params where
  "sample_params =
     \<lparr>version = 2, proposal_submission_fee = 10000000, voting_quorum_percent = 10,
      tally_committee_size = 16, bridge_committee_size = 32,
      threshold_ratio_numerator = 2, threshold_ratio_denominator = 3,
      threshold_public_key = replicate 32 (byte_of 0),
      tier_fees = TIER_FEES, treasury_ratio = 18,
      extension_tier_map_keys = [''com'', ''law''], extension_tier_map_vals = [0, 3],
      premium_labels = [''bank''], banned_labels = [''veil''], banned_extensions = [''onion'']\<rparr>"

theorem params_roundtrip_witness:
  "params_fit sample_params \<and>
   deserialize (serialize sample_params) sample_params = Some sample_params"
proof -
  have "params_fit sample_params"
    by (simp add: params_fit_def sample_params_def TIER_FEES_def short_list_def short_string_def)
  with params_roundtrip [of sample_params sample_params] show ?thesis by simp
qed

text \<open>
  The built-in defaults survive the binary form, and for every extension that is not banned
  they resolve to the tier of the built-in tables, whatever order the hash containers are
  enumerated in.
\<close>
theorem default_params_consistent:
  assumes "container_orders tiers premium banned"
    and "gp = default_params tiers premium banned junk"
  shows "deserialize (serialize gp) gp = Some gp
    \<and> (\<forall>e. gp_is_extension_banned gp e = is_extension_locked e)
    \<and> (\<forall>e. gp_has_extension_tier_mapping gp e \<longrightarrow>
          gp_get_tier_for_extension gp e = get_tier_for_extension e \<and> \<not> is_extension_locked e)
    \<and> (\<forall>e. \<not> gp_has_extension_tier_mapping gp e \<and> \<not> is_extension_locked e \<longrightarrow>
          get_tier_for_extension e = TIER_PREMIUM)"
proof (intro conjI allI impI)
  have "params_fit gp" using assms default_params_fit by simp
  then show "deserialize (serialize gp) gp = Some gp" by (simp add: deserialize_serialize)
next
  fix e
  have "banned_extensions gp = BANNED_EXTENSIONS"
    by (simp add: assms(2) default_params_def Let_def)
  then show "gp_is_extension_banned gp e = is_extension_locked e"
    by (simp add: gp_is_extension_banned_def extension_locked_iff)
next
  fix e
  assume has: "gp_has_extension_tier_mapping gp e"
  then show "gp_get_tier_for_extension gp e = get_tier_for_extension e"
    by (rule default_params_tier(2) [OF assms])
  from has show "\<not> is_extension_locked e"
    using default_params_tier(1) [OF assms, of e] listed_tier_banned [of e]
    by (auto simp: extension_locked_iff)
next
  fix e
  assume "\<not> gp_has_extension_tier_mapping gp e \<and> \<not> is_extension_locked e"
  then have "listed_tier e = None"
    using default_params_tier(1) [OF assms, of e]
    by (cases "listed_tier e") (auto simp: extension_locked_iff listed_tier_banned [symmetric])
  then show "get_tier_for_extension e = TIER_PREMIUM"
    by (simp add: get_tier_for_extension_def extension_tier_map_eq)
qed

theorem default_params_consistent_witness:
  "\<exists>tiers premium banned gp.
     container_orders tiers premium banned \<and> gp = default_params tiers premium banned 18
     \<and> deserialize (serialize gp) gp = Some gp"
proof -
  obtain tiers premium banned where o: "container_orders tiers premium banned"
    using container_orders_exist by blast
  from default_params_consistent [OF o refl, of 18] o show ?thesis by blast
qed

end
