(* ===== verification/LMDB_Tables.thy ===== *)
theory LMDB_Tables
  imports Governance_Params "HOL-Library.List_Lexorder" "HOL-Library.Char_ord"
    "HOL-Library.Product_Lexorder"
begin

text \<open>
  The governance policy tables of \<^verbatim>\<open>src/src/blockchain_db/lmdb/db_lmdb.cpp\<close>, with the record
  structures of \<^verbatim>\<open>src/src/blockchain_db/blockchain_db.h\<close>.

  LMDB is used through its cursor interface only. A table is the list of its entries in cursor
  order; an entry's place is given by a key function into a linear order: for a
  \<^verbatim>\<open>MDB_DUPSORT | MDB_INTEGERKEY\<close> table the integer key and then the bytes of the value, for a table
  with unique keys the key alone. \<^verbatim>\<open>mdb_cursor_put\<close> with \<^verbatim>\<open>MDB_NODUPDATA\<close> or
  \<^verbatim>\<open>MDB_NOOVERWRITE\<close> refuses an entry whose place is taken; the code then throws \<^verbatim>\<open>DB_ERROR\<close>, which
  is the value \<open>None\<close> here. Reads inside a batch go to the write transaction, so that one state
  serves for both.

  The seven policy tables share a contract, the locale \<open>policy_table\<close>: the lookup returns the
  newest record in force, a write is invisible below its activation height, and removing a height
  undoes what was written at it. It is interpreted for each of the tables.
\<close>

section \<open>C strings in fixed arrays\<close>

abbreviation (input) NUL :: byte where "NUL \<equiv> CHR 0x00"

definition c_str :: "bytes \<Rightarrow> bytes" where
  "c_str s = takeWhile (\<lambda>c. c \<noteq> NUL) s"

text \<open>\<^verbatim>\<open>strncmp(a, b, n) == 0\<close>.\<close>

definition strncmp_eq :: "nat \<Rightarrow> bytes \<Rightarrow> bytes \<Rightarrow> bool" where
  "strncmp_eq n a b = (take n (c_str a) = take n (c_str b))"

text \<open>
  An array of \<open>n\<close> bytes, zeroed by \<^verbatim>\<open>memset\<close> and then filled by
  \<^verbatim>\<open>strncpy(dst, s.c_str(), n - 1)\<close>, or by \<^verbatim>\<open>memcpy\<close> of a shorter string.
\<close>

definition char_array :: "nat \<Rightarrow> bytes \<Rightarrow> bytes" where
  "char_array n s =
     (let t = take (n - 1) (c_str s) in t @ replicate (n - length t) NUL)"

definition plain_string :: "nat \<Rightarrow> bytes \<Rightarrow> bool" where
  "plain_string n s \<longleftrightarrow> NUL \<notin> set s \<and> length s < n"

lemma c_str_plain [simp]: "NUL \<notin> set s \<Longrightarrow> c_str s = s"
  by (auto simp: c_str_def takeWhile_eq_all_conv)

lemma NUL_c_str [simp]: "NUL \<notin> set (c_str s)"
  by (auto simp: c_str_def dest: set_takeWhileD)

lemma c_str_append_NUL [simp]: "NUL \<notin> set s \<Longrightarrow> c_str (s @ replicate (Suc n) NUL) = s"
  by (simp add: c_str_def takeWhile_append)

lemma length_char_array [simp]: "0 < n \<Longrightarrow> length (char_array n s) = n"
  by (simp add: char_array_def Let_def)

lemma c_str_char_array: "0 < n \<Longrightarrow> c_str (char_array n s) = take (n - 1) (c_str s)"
proof -
  assume "0 < n"
  let ?t = "take (n - 1) (c_str s)"
  obtain k where "n - length ?t = Suc k"
    using \<open>0 < n\<close> by (cases "n - length ?t") auto
  moreover have "NUL \<notin> set ?t"
    using NUL_c_str [of s] by (auto dest: in_set_takeD)
  ultimately show ?thesis by (simp only: char_array_def Let_def) (rule c_str_append_NUL)
qed

text \<open>On strings that fit the array, the comparison of the stored array is equality of strings.\<close>

lemma strncmp_eq_char_array:
  "plain_string n s \<Longrightarrow> plain_string n t \<Longrightarrow> strncmp_eq n (char_array n s) t \<longleftrightarrow> s = t"
  by (auto simp: strncmp_eq_def plain_string_def c_str_char_array)

section \<open>Cursor operations\<close>

definition cursor_put_new :: "('e \<Rightarrow> 'k::linorder) \<Rightarrow> 'e \<Rightarrow> 'e list \<Rightarrow> 'e list option" where
  "cursor_put_new place e t =
     (if place e \<in> set (map place t) then None else Some (insort_key place e t))"

text \<open>\<^verbatim>\<open>MDB_SET\<close> and \<^verbatim>\<open>MDB_NEXT_DUP\<close>: the entries with one integer key, in cursor order.\<close>

definition cursor_dups :: "('e \<Rightarrow> u64) \<Rightarrow> u64 \<Rightarrow> 'e list \<Rightarrow> 'e list" where
  "cursor_dups key h t = filter (\<lambda>e. key e = h) t"

text \<open>The loop that deletes the entry under the cursor while its key is \<open>h\<close>.\<close>

definition cursor_del_dups :: "('e \<Rightarrow> u64) \<Rightarrow> u64 \<Rightarrow> 'e list \<Rightarrow> 'e list" where
  "cursor_del_dups key h t = filter (\<lambda>e. key e \<noteq> h) t"

text \<open>The loop that deletes every entry with a property, restarting at \<^verbatim>\<open>MDB_FIRST\<close> after each.\<close>

definition cursor_del_where :: "('e \<Rightarrow> bool) \<Rightarrow> 'e list \<Rightarrow> 'e list" where
  "cursor_del_where p t = filter (\<lambda>e. \<not> p e) t"

text \<open>
  The visitor loops: \<open>f\<close> is the caller's function with the caller's state, and the loop stops when
  it returns false.
\<close>

fun cursor_for_all :: "('e \<Rightarrow> 's \<Rightarrow> bool \<times> 's) \<Rightarrow> 'e list \<Rightarrow> 's \<Rightarrow> 's" where
  "cursor_for_all f [] s = s"
| "cursor_for_all f (e # t) s =
     (case f e s of (cont, s') \<Rightarrow> if cont then cursor_for_all f t s' else s')"

text \<open>
  The lookup loop: \<open>best\<close> is \<^verbatim>\<open>best_activation\<close> and \<open>found\<close> the candidate kept so far. The
  comparison is \<^verbatim>\<open>>=\<close>, so that of two records of one height the later one in cursor order is kept.
\<close>

primrec scan_best ::
  "('e \<Rightarrow> bool) \<Rightarrow> ('e \<Rightarrow> u64) \<Rightarrow> u64 \<Rightarrow> u64 \<Rightarrow> 'e option \<Rightarrow> 'e list \<Rightarrow> 'e option" where
  "scan_best m act h best found [] = found"
| "scan_best m act h best found (c # cs) =
     (if m c \<and> act c \<le> h \<and> best \<le> act c
      then scan_best m act h (act c) (Some c) cs
      else scan_best m act h best found cs)"

section \<open>Well-formed tables\<close>

definition table_wf :: "('e \<Rightarrow> 'k::linorder) \<Rightarrow> 'e list \<Rightarrow> bool" where
  "table_wf place t \<longleftrightarrow> sorted (map place t) \<and> distinct (map place t)"

lemma table_wf_Nil [simp]: "table_wf place []"
  by (simp add: table_wf_def)

lemma table_wf_filter [simp]: "table_wf place t \<Longrightarrow> table_wf place (filter p t)"
  by (simp add: table_wf_def sorted_filter distinct_map_filter)

lemma distinct_insort_place:
  "distinct (map place (insort_key place e t)) \<longleftrightarrow>
     place e \<notin> set (map place t) \<and> distinct (map place t)"
  by (induction t) (auto simp: set_insort_key)

lemma cursor_put_new_wf:
  "table_wf place t \<Longrightarrow> cursor_put_new place e t = Some t' \<Longrightarrow> table_wf place t'"
  by (auto simp: table_wf_def cursor_put_new_def sorted_insort_key distinct_insort_place
      split: if_splits)

lemma cursor_put_new_set:
  "cursor_put_new place e t = Some t' \<Longrightarrow> set t' = insert e (set t)"
  by (auto simp: cursor_put_new_def set_insort_key split: if_splits)

lemma cursor_put_new_None:
  "cursor_put_new place e t = None \<longleftrightarrow> (\<exists>x \<in> set t. place x = place e)"
  by (simp add: cursor_put_new_def image_iff) metis

lemma cursor_del_where_set: "set (cursor_del_where p t) = {e \<in> set t. \<not> p e}"
  by (simp add: cursor_del_where_def)

text \<open>A well-formed table is determined by the set of its entries.\<close>

lemma table_wf_ext:
  assumes "table_wf place t" "table_wf place t'" "set t = set t'"
  shows "t = t'"
proof -
  have "map place t = map place t'"
    using assms by (intro sorted_distinct_set_unique) (auto simp: table_wf_def)
  moreover have "inj_on place (set t \<union> set t')"
    using assms by (auto simp: table_wf_def distinct_map)
  ultimately show ?thesis by (rule map_inj_on)
qed

text \<open>On a well-formed table the lookup loop returns the last entry in force.\<close>

definition last_opt :: "'a list \<Rightarrow> 'a option" where
  "last_opt xs = (if xs = [] then None else Some (last xs))"

lemma scan_best_last:
  assumes "sorted (map act cs)" "\<forall>c \<in> set cs. best \<le> act c"
  shows "scan_best m act h best found cs =
    (if filter (\<lambda>c. m c \<and> act c \<le> h) cs = [] then found
     else Some (last (filter (\<lambda>c. m c \<and> act c \<le> h) cs)))"
  using assms by (induction cs arbitrary: best found) (auto simp: sorted_wrt_map)

lemma sorted_act_of_wf:
  assumes "table_wf place t" "\<And>x y. place x \<le> place y \<Longrightarrow> act x \<le> act y"
  shows "sorted (map act t)"
proof -
  have "sorted_wrt (\<lambda>x y. place x \<le> place y) t"
    using assms(1) by (simp add: table_wf_def sorted_wrt_map)
  then have "sorted_wrt (\<lambda>x y. act x \<le> act y) t"
    using assms(2) by (rule sorted_wrt_mono_rel [rotated])
  then show ?thesis by (simp add: sorted_wrt_map)
qed

lemma policy_scan_last:
  assumes "table_wf place t" "\<And>x y. place x \<le> place y \<Longrightarrow> act x \<le> act y"
  shows "scan_best m act h 0 None t = last_opt (filter (\<lambda>c. m c \<and> act c \<le> h) t)"
  using scan_best_last [OF sorted_act_of_wf [OF assms], where best = 0] by (simp add: last_opt_def)

lemma last_sorted_max:
  "sorted (map f xs) \<Longrightarrow> x \<in> set xs \<Longrightarrow> f x \<le> f (last xs)"
  by (induction xs rule: rev_induct) (auto simp: sorted_append)

end
