(* ===== verification/Policy_Tables.thy ===== *)
theory Policy_Tables
  imports LMDB_Tables
begin

text \<open>
  The seven policy tables and the table of pending domain policies: the record structures of
  \<^verbatim>\<open>blockchain_db.h\<close> and the operations of \<^verbatim>\<open>db_lmdb.cpp\<close> on them. The plain and the
  \<^verbatim>\<open>_in_txn\<close> variants of an operation differ in the transaction they use, not in what they do to
  the table. A record is keyed by its activation height and ordered, within one height, by its
  bytes: the object representation in the C++ layout, whose padding is zero where the writer
  clears the object with \<^verbatim>\<open>memset\<close>. A \<^verbatim>\<open>parameter_record\<close> is not cleared by its writers, so its
  padding is a field of the model's record.
\<close>

section \<open>The contract of a policy table\<close>

locale policy_table =
  fixes put :: "'r \<Rightarrow> 'r list \<Rightarrow> 'r list option"
    and get :: "'q \<Rightarrow> u64 \<Rightarrow> 'r list \<Rightarrow> 'r option"
    and del :: "u64 \<Rightarrow> 'r list \<Rightarrow> 'r list"
    and wf :: "'r list \<Rightarrow> bool"
    and matches :: "'q \<Rightarrow> 'r \<Rightarrow> bool"
    and act :: "'r \<Rightarrow> u64"
  assumes wf_ext: "wf t \<Longrightarrow> wf t' \<Longrightarrow> set t = set t' \<Longrightarrow> t = t'"
    and put_wf: "wf t \<Longrightarrow> put r t = Some t' \<Longrightarrow> wf t'"
    and put_set: "put r t = Some t' \<Longrightarrow> set t' = insert r (set t)"
    and put_fresh: "\<forall>x \<in> set t. act x \<noteq> act r \<Longrightarrow> \<exists>t'. put r t = Some t'"
    and del_wf: "wf t \<Longrightarrow> wf (del h t)"
    and del_set: "set (del h t) = {x \<in> set t. act x \<noteq> h}"
    and get_sound: "wf t \<Longrightarrow> get q h t = Some r \<Longrightarrow> r \<in> set t \<and> matches q r \<and> act r \<le> h"
    and get_newest: "wf t \<Longrightarrow> get q h t = Some r \<Longrightarrow> x \<in> set t \<Longrightarrow> matches q x \<Longrightarrow>
      act x \<le> h \<Longrightarrow> act x \<le> act r"
    and get_complete: "wf t \<Longrightarrow> x \<in> set t \<Longrightarrow> matches q x \<Longrightarrow> act x \<le> h \<Longrightarrow> get q h t \<noteq> None"
    and get_local: "wf t \<Longrightarrow> wf t' \<Longrightarrow>
      {x \<in> set t. matches q x \<and> act x \<le> h} = {x \<in> set t'. matches q x \<and> act x \<le> h} \<Longrightarrow>
      get q h t = get q h t'"
begin

lemma get_put_newest:
  assumes "wf t" "put r t = Some t'" "matches q r" "act r \<le> h"
    and newer: "\<forall>x \<in> set t. matches q x \<longrightarrow> act x < act r"
  shows "get q h t' = Some r"
proof -
  have wf': "wf t'" and set': "set t' = insert r (set t)"
    using assms put_wf put_set by blast+
  then have "get q h t' \<noteq> None" by (intro get_complete [of _ r]) (simp_all add: assms(3,4))
  then obtain x where x: "get q h t' = Some x" by blast
  then have "x \<in> set t'" "matches q x" "act r \<le> act x"
    using get_sound [OF wf' x] get_newest [OF wf' x, of r] set' assms(3,4) by auto
  then have "x = r" using set' newer by force
  with x show ?thesis by simp
qed

lemma get_put_other:
  assumes "wf t" "put r t = Some t'" "\<not> (matches q r \<and> act r \<le> h)"
  shows "get q h t' = get q h t"
  by (rule get_local) (use assms put_wf put_set [OF assms(2)] in auto)

lemma del_put:
  assumes "wf t" "put r t = Some t'" "\<forall>x \<in> set t. act x \<noteq> act r"
  shows "del (act r) t' = t"
  by (rule wf_ext) (use assms put_wf put_set [OF assms(2)] in \<open>auto simp: del_wf del_set\<close>)

lemma del_above:
  assumes "wf t" "h' < h"
  shows "get q h' (del h t) = get q h' t"
  by (rule get_local) (use assms in \<open>auto simp: del_wf del_set\<close>)

lemma del_fresh:
  assumes "wf t" "\<forall>x \<in> set t. act x \<noteq> h"
  shows "del h t = t"
  by (rule wf_ext) (use assms in \<open>auto simp: del_wf del_set\<close>)

end

lemma policy_table_intro:
  assumes mono: "\<And>x y. place x \<le> place y \<Longrightarrow> act x \<le> act y"
  shows "policy_table (cursor_put_new place) (\<lambda>q h t. scan_best (m q) act h 0 None t)
    (cursor_del_dups act) (table_wf place) m act"
proof
  note last = policy_scan_last [OF _ mono]
  fix t q h r x
  let ?f = "filter (\<lambda>c. m q c \<and> act c \<le> h) t"
  assume wf: "table_wf place t"
  show "r \<in> set t \<and> m q r \<and> act r \<le> h" if "scan_best (m q) act h 0 None t = Some r"
    using that last_in_set [of ?f] by (auto simp: last [OF wf] last_opt_def split: if_splits)
  show "act x \<le> act r" if "scan_best (m q) act h 0 None t = Some r" "x \<in> set t" "m q x" "act x \<le> h"
  proof -
    have "sorted (map act ?f)" using sorted_act_of_wf [OF wf mono] by (simp add: sorted_filter)
    then have "act x \<le> act (last ?f)" by (rule last_sorted_max) (use that in auto)
    then show ?thesis using that by (simp add: last [OF wf] last_opt_def split: if_splits)
  qed
  show "scan_best (m q) act h 0 None t \<noteq> None" if "x \<in> set t" "m q x" "act x \<le> h"
    using that by (auto simp: last [OF wf] last_opt_def filter_empty_conv)
next
  fix t t' q h
  assume wf: "table_wf place t" "table_wf place t'"
    and "{x \<in> set t. m q x \<and> act x \<le> h} = {x \<in> set t'. m q x \<and> act x \<le> h}"
  then have "filter (\<lambda>c. m q c \<and> act c \<le> h) t = filter (\<lambda>c. m q c \<and> act c \<le> h) t'"
    by (intro table_wf_ext [of place]) simp_all
  then show "scan_best (m q) act h 0 None t = scan_best (m q) act h 0 None t'"
    by (simp add: policy_scan_last [OF wf(1) mono] policy_scan_last [OF wf(2) mono])
next
  fix t r
  assume "\<forall>x \<in> set t. act x \<noteq> act r"
  then show "\<exists>t'. cursor_put_new place r t = Some t'"
    using cursor_put_new_None [of place r t] mono by (metis order_refl order_antisym option.exhaust)
qed (auto simp: cursor_put_new_wf cursor_put_new_set cursor_del_dups_def intro: table_wf_ext)

section \<open>Records\<close>

type_synonym hash32 = bytes

record policy_stamp =
  activation_height :: u64
  proposal_height :: u64
  proposal_id :: hash32

definition stamp_bytes :: "'a policy_stamp_scheme \<Rightarrow> bytes" where
  "stamp_bytes r = put_u64 (activation_height r) @ put_u64 (proposal_height r) @ proposal_id r"

abbreviation (input) padding :: "nat \<Rightarrow> bytes" where "padding n \<equiv> replicate n NUL"

definition put_bool :: "bool \<Rightarrow> bytes" where
  "put_bool b = [byte_of (if b then 1 else 0)]"

record parameter_record = policy_stamp +
  prm_parameter :: governance_parameter
  prm_padding :: bytes
  prm_value :: u64

record extension_policy_record = policy_stamp +
  ext_extension :: bytes
  ext_tier :: u8

record premium_label_policy_record = policy_stamp +
  prem_label :: bytes
  prem_active :: bool

record banned_label_policy_record = policy_stamp +
  bl_term :: bytes
  bl_banned :: bool

record banned_extension_policy_record = policy_stamp +
  be_extension :: bytes
  be_banned :: bool

record exact_domain_ban_policy_record = policy_stamp +
  edb_domain :: bytes
  edb_banned :: bool

record exact_domain_tier_policy_record = policy_stamp +
  edt_domain :: bytes
  edt_has_tier_override :: bool
  edt_tier :: u8

text \<open>The underlying values of \<^verbatim>\<open>enum class governance_parameter : uint8_t\<close>.\<close>

primrec parameter_code :: "governance_parameter \<Rightarrow> nat" where
  "parameter_code proposal_submission_fee_param = 0"
| "parameter_code voting_quorum_percent_param = 1"
| "parameter_code treasury_ratio_param = 2"
| "parameter_code execution_delay_param = 3"
| "parameter_code voting_period_days_param = 4"
| "parameter_code domain_tier_fee_0 = 5"
| "parameter_code domain_tier_fee_1 = 6"
| "parameter_code domain_tier_fee_2 = 7"
| "parameter_code domain_tier_fee_3 = 8"
| "parameter_code domain_tier_fee_4 = 9"
| "parameter_code domain_tier_fee_5 = 10"

text \<open>\<^verbatim>\<open>static_cast<governance_parameter>\<close> of a byte that is the value of an enumerator.\<close>

definition parameter_enum :: "u8 \<Rightarrow> governance_parameter" where
  "parameter_enum c =
     [proposal_submission_fee_param, voting_quorum_percent_param, treasury_ratio_param,
      execution_delay_param, voting_period_days_param, domain_tier_fee_0, domain_tier_fee_1,
      domain_tier_fee_2, domain_tier_fee_3, domain_tier_fee_4, domain_tier_fee_5] ! unat c"

lemma parameter_enum_code: "parameter_enum (word_of_nat (parameter_code p)) = p"
  by (cases p) (simp_all add: parameter_enum_def)

definition parameter_place :: "parameter_record \<Rightarrow> u64 \<times> bytes" where
  "parameter_place r = (activation_height r,
     byte_of (parameter_code (prm_parameter r)) # prm_padding r @ put_u64 (prm_value r) @ stamp_bytes r)"

definition extension_place :: "extension_policy_record \<Rightarrow> u64 \<times> bytes" where
  "extension_place r = (activation_height r,
     ext_extension r @ put_u8 (ext_tier r) @ padding 7 @ stamp_bytes r)"

definition premium_label_place :: "premium_label_policy_record \<Rightarrow> u64 \<times> bytes" where
  "premium_label_place r = (activation_height r,
     prem_label r @ put_bool (prem_active r) @ padding 7 @ stamp_bytes r)"

definition banned_label_place :: "banned_label_policy_record \<Rightarrow> u64 \<times> bytes" where
  "banned_label_place r = (activation_height r,
     bl_term r @ put_bool (bl_banned r) @ padding 7 @ stamp_bytes r)"

definition banned_extension_place :: "banned_extension_policy_record \<Rightarrow> u64 \<times> bytes" where
  "banned_extension_place r = (activation_height r,
     be_extension r @ put_bool (be_banned r) @ padding 7 @ stamp_bytes r)"

definition exact_ban_place :: "exact_domain_ban_policy_record \<Rightarrow> u64 \<times> bytes" where
  "exact_ban_place r = (activation_height r,
     edb_domain r @ put_bool (edb_banned r) @ padding 7 @ stamp_bytes r)"

definition exact_tier_place :: "exact_domain_tier_policy_record \<Rightarrow> u64 \<times> bytes" where
  "exact_tier_place r = (activation_height r,
     edt_domain r @ put_bool (edt_has_tier_override r) @ put_u8 (edt_tier r) @ padding 6 @ stamp_bytes r)"

lemmas place_defs = parameter_place_def extension_place_def premium_label_place_def
  banned_label_place_def banned_extension_place_def exact_ban_place_def exact_tier_place_def

lemma place_act:
  "parameter_place p \<le> parameter_place p' \<Longrightarrow> activation_height p \<le> activation_height p'"
  "extension_place e \<le> extension_place e' \<Longrightarrow> activation_height e \<le> activation_height e'"
  "premium_label_place l \<le> premium_label_place l' \<Longrightarrow> activation_height l \<le> activation_height l'"
  "banned_label_place b \<le> banned_label_place b' \<Longrightarrow> activation_height b \<le> activation_height b'"
  "banned_extension_place x \<le> banned_extension_place x' \<Longrightarrow> activation_height x \<le> activation_height x'"
  "exact_ban_place y \<le> exact_ban_place y' \<Longrightarrow> activation_height y \<le> activation_height y'"
  "exact_tier_place z \<le> exact_tier_place z' \<Longrightarrow> activation_height z \<le> activation_height z'"
  by (auto simp: place_defs less_eq_prod_simp)

section \<open>Table: governance parameters\<close>

definition add_parameter_record :: "parameter_record \<Rightarrow> parameter_record list \<Rightarrow> parameter_record list option" where
  "add_parameter_record rec t = cursor_put_new parameter_place rec t"

definition add_parameter_record_in_txn :: "parameter_record \<Rightarrow> parameter_record list \<Rightarrow> parameter_record list option" where
  "add_parameter_record_in_txn rec t = cursor_put_new parameter_place rec t"

definition get_parameters_ready :: "u64 \<Rightarrow> parameter_record list \<Rightarrow> parameter_record list" where
  "get_parameters_ready height t = cursor_dups activation_height height t"

definition remove_parameter_records_by_height :: "u64 \<Rightarrow> parameter_record list \<Rightarrow> parameter_record list" where
  "remove_parameter_records_by_height height t = cursor_del_dups activation_height height t"

definition remove_parameter_records_by_height_in_txn :: "u64 \<Rightarrow> parameter_record list \<Rightarrow> parameter_record list" where
  "remove_parameter_records_by_height_in_txn height t = cursor_del_dups activation_height height t"

definition get_parameter_record ::
  "governance_parameter \<Rightarrow> u64 \<Rightarrow> parameter_record list \<Rightarrow> parameter_record option" where
  "get_parameter_record param height t =
     scan_best (\<lambda>c. prm_parameter c = param) activation_height height 0 None t"

definition get_parameter :: "governance_parameter \<Rightarrow> u64 \<Rightarrow> parameter_record list \<Rightarrow> u64 option" where
  "get_parameter param height t =
     map_option prm_value
       (scan_best (\<lambda>rec. prm_parameter rec = param) activation_height height 0 None t)"

interpretation param_tab: policy_table add_parameter_record_in_txn get_parameter_record remove_parameter_records_by_height_in_txn
  "table_wf parameter_place" "\<lambda>param c. prm_parameter c = param" activation_height
  unfolding add_parameter_record_in_txn_def [abs_def] get_parameter_record_def [abs_def]
    remove_parameter_records_by_height_in_txn_def [abs_def]
  by (rule policy_table_intro) (rule place_act(1))

section \<open>Table: extension policy\<close>

definition add_extension_policy_record :: "extension_policy_record \<Rightarrow> extension_policy_record list \<Rightarrow> extension_policy_record list option" where
  "add_extension_policy_record rec t = cursor_put_new extension_place rec t"

definition add_extension_policy_record_in_txn :: "extension_policy_record \<Rightarrow> extension_policy_record list \<Rightarrow> extension_policy_record list option" where
  "add_extension_policy_record_in_txn rec t = cursor_put_new extension_place rec t"

definition get_extension_policies_ready :: "u64 \<Rightarrow> extension_policy_record list \<Rightarrow> extension_policy_record list" where
  "get_extension_policies_ready height t = cursor_dups activation_height height t"

definition remove_extension_policy_records_by_height :: "u64 \<Rightarrow> extension_policy_record list \<Rightarrow> extension_policy_record list" where
  "remove_extension_policy_records_by_height height t = cursor_del_dups activation_height height t"

definition remove_extension_policy_records_by_height_in_txn :: "u64 \<Rightarrow> extension_policy_record list \<Rightarrow> extension_policy_record list" where
  "remove_extension_policy_records_by_height_in_txn height t = cursor_del_dups activation_height height t"

definition get_extension_policy ::
  "string \<Rightarrow> u64 \<Rightarrow> extension_policy_record list \<Rightarrow> extension_policy_record option" where
  "get_extension_policy ext height t =
     scan_best (\<lambda>c. strncmp_eq 16 (ext_extension c) ext) activation_height height 0 None t"

definition for_all_extension_policy_records ::
  "(extension_policy_record \<Rightarrow> 's \<Rightarrow> bool \<times> 's) \<Rightarrow> extension_policy_record list \<Rightarrow> 's \<Rightarrow> 's" where
  "for_all_extension_policy_records f t s = cursor_for_all f t s"

interpretation ext_tab: policy_table add_extension_policy_record_in_txn get_extension_policy remove_extension_policy_records_by_height_in_txn
  "table_wf extension_place" "\<lambda>ext c. strncmp_eq 16 (ext_extension c) ext" activation_height
  unfolding add_extension_policy_record_in_txn_def [abs_def] get_extension_policy_def [abs_def]
    remove_extension_policy_records_by_height_in_txn_def [abs_def]
  by (rule policy_table_intro) (rule place_act(2))

section \<open>Table: premium label policy\<close>

definition add_premium_label_policy_record :: "premium_label_policy_record \<Rightarrow> premium_label_policy_record list \<Rightarrow> premium_label_policy_record list option" where
  "add_premium_label_policy_record rec t = cursor_put_new premium_label_place rec t"

definition add_premium_label_policy_record_in_txn :: "premium_label_policy_record \<Rightarrow> premium_label_policy_record list \<Rightarrow> premium_label_policy_record list option" where
  "add_premium_label_policy_record_in_txn rec t = cursor_put_new premium_label_place rec t"

definition remove_premium_label_policy_records_by_height_in_txn :: "u64 \<Rightarrow> premium_label_policy_record list \<Rightarrow> premium_label_policy_record list" where
  "remove_premium_label_policy_records_by_height_in_txn height t = cursor_del_dups activation_height height t"

definition get_premium_label_policy ::
  "string \<Rightarrow> u64 \<Rightarrow> premium_label_policy_record list \<Rightarrow> premium_label_policy_record option" where
  "get_premium_label_policy label height t =
     scan_best (\<lambda>c. strncmp_eq 64 (prem_label c) label) activation_height height 0 None t"

definition for_all_premium_label_policy_records ::
  "(premium_label_policy_record \<Rightarrow> 's \<Rightarrow> bool \<times> 's) \<Rightarrow> premium_label_policy_record list \<Rightarrow> 's \<Rightarrow> 's" where
  "for_all_premium_label_policy_records f t s = cursor_for_all f t s"

interpretation prem_tab: policy_table add_premium_label_policy_record_in_txn get_premium_label_policy remove_premium_label_policy_records_by_height_in_txn
  "table_wf premium_label_place" "\<lambda>label c. strncmp_eq 64 (prem_label c) label" activation_height
  unfolding add_premium_label_policy_record_in_txn_def [abs_def] get_premium_label_policy_def [abs_def]
    remove_premium_label_policy_records_by_height_in_txn_def [abs_def]
  by (rule policy_table_intro) (rule place_act(3))

section \<open>Table: banned label policy\<close>

definition add_banned_label_policy_record :: "banned_label_policy_record \<Rightarrow> banned_label_policy_record list \<Rightarrow> banned_label_policy_record list option" where
  "add_banned_label_policy_record rec t = cursor_put_new banned_label_place rec t"

definition add_banned_label_policy_record_in_txn :: "banned_label_policy_record \<Rightarrow> banned_label_policy_record list \<Rightarrow> banned_label_policy_record list option" where
  "add_banned_label_policy_record_in_txn rec t = cursor_put_new banned_label_place rec t"

definition remove_banned_label_policy_records_by_height_in_txn :: "u64 \<Rightarrow> banned_label_policy_record list \<Rightarrow> banned_label_policy_record list" where
  "remove_banned_label_policy_records_by_height_in_txn height t = cursor_del_dups activation_height height t"

definition get_banned_label_policy ::
  "string \<Rightarrow> u64 \<Rightarrow> banned_label_policy_record list \<Rightarrow> banned_label_policy_record option" where
  "get_banned_label_policy term height t =
     scan_best (\<lambda>c. strncmp_eq 64 (bl_term c) term) activation_height height 0 None t"

definition for_all_banned_label_policy_records ::
  "(banned_label_policy_record \<Rightarrow> 's \<Rightarrow> bool \<times> 's) \<Rightarrow> banned_label_policy_record list \<Rightarrow> 's \<Rightarrow> 's" where
  "for_all_banned_label_policy_records f t s = cursor_for_all f t s"

interpretation blab_tab: policy_table add_banned_label_policy_record_in_txn get_banned_label_policy remove_banned_label_policy_records_by_height_in_txn
  "table_wf banned_label_place" "\<lambda>term c. strncmp_eq 64 (bl_term c) term" activation_height
  unfolding add_banned_label_policy_record_in_txn_def [abs_def] get_banned_label_policy_def [abs_def]
    remove_banned_label_policy_records_by_height_in_txn_def [abs_def]
  by (rule policy_table_intro) (rule place_act(4))

section \<open>Table: banned extension policy\<close>

definition add_banned_extension_policy_record :: "banned_extension_policy_record \<Rightarrow> banned_extension_policy_record list \<Rightarrow> banned_extension_policy_record list option" where
  "add_banned_extension_policy_record rec t = cursor_put_new banned_extension_place rec t"

definition add_banned_extension_policy_record_in_txn :: "banned_extension_policy_record \<Rightarrow> banned_extension_policy_record list \<Rightarrow> banned_extension_policy_record list option" where
  "add_banned_extension_policy_record_in_txn rec t = cursor_put_new banned_extension_place rec t"

definition remove_banned_extension_policy_records_by_height_in_txn :: "u64 \<Rightarrow> banned_extension_policy_record list \<Rightarrow> banned_extension_policy_record list" where
  "remove_banned_extension_policy_records_by_height_in_txn height t = cursor_del_dups activation_height height t"

definition get_banned_extension_policy ::
  "string \<Rightarrow> u64 \<Rightarrow> banned_extension_policy_record list \<Rightarrow> banned_extension_policy_record option" where
  "get_banned_extension_policy ext height t =
     scan_best (\<lambda>c. strncmp_eq 16 (be_extension c) ext) activation_height height 0 None t"

definition for_all_banned_extension_policy_records ::
  "(banned_extension_policy_record \<Rightarrow> 's \<Rightarrow> bool \<times> 's) \<Rightarrow> banned_extension_policy_record list \<Rightarrow> 's \<Rightarrow> 's" where
  "for_all_banned_extension_policy_records f t s = cursor_for_all f t s"

interpretation bext_tab: policy_table add_banned_extension_policy_record_in_txn get_banned_extension_policy remove_banned_extension_policy_records_by_height_in_txn
  "table_wf banned_extension_place" "\<lambda>ext c. strncmp_eq 16 (be_extension c) ext" activation_height
  unfolding add_banned_extension_policy_record_in_txn_def [abs_def] get_banned_extension_policy_def [abs_def]
    remove_banned_extension_policy_records_by_height_in_txn_def [abs_def]
  by (rule policy_table_intro) (rule place_act(5))

section \<open>Table: exact domain bans\<close>

definition add_exact_domain_ban_policy_record :: "exact_domain_ban_policy_record \<Rightarrow> exact_domain_ban_policy_record list \<Rightarrow> exact_domain_ban_policy_record list option" where
  "add_exact_domain_ban_policy_record rec t = cursor_put_new exact_ban_place rec t"

definition add_exact_domain_ban_policy_record_in_txn :: "exact_domain_ban_policy_record \<Rightarrow> exact_domain_ban_policy_record list \<Rightarrow> exact_domain_ban_policy_record list option" where
  "add_exact_domain_ban_policy_record_in_txn rec t = cursor_put_new exact_ban_place rec t"

definition remove_exact_domain_ban_policy_records_by_height_in_txn :: "u64 \<Rightarrow> exact_domain_ban_policy_record list \<Rightarrow> exact_domain_ban_policy_record list" where
  "remove_exact_domain_ban_policy_records_by_height_in_txn height t = cursor_del_dups activation_height height t"

definition get_exact_domain_ban_policy ::
  "string \<Rightarrow> u64 \<Rightarrow> exact_domain_ban_policy_record list \<Rightarrow> exact_domain_ban_policy_record option" where
  "get_exact_domain_ban_policy domain height t =
     scan_best (\<lambda>c. strncmp_eq 64 (edb_domain c) domain) activation_height height 0 None t"

definition remove_exact_domain_ban_policy_records_by_domain_in_txn :: "string \<Rightarrow> exact_domain_ban_policy_record list \<Rightarrow> exact_domain_ban_policy_record list" where
  "remove_exact_domain_ban_policy_records_by_domain_in_txn domain t = cursor_del_where (\<lambda>r. strncmp_eq 64 (edb_domain r) domain) t"

definition for_all_exact_domain_ban_policy_records ::
  "(exact_domain_ban_policy_record \<Rightarrow> 's \<Rightarrow> bool \<times> 's) \<Rightarrow> exact_domain_ban_policy_record list \<Rightarrow> 's \<Rightarrow> 's" where
  "for_all_exact_domain_ban_policy_records f t s = cursor_for_all f t s"

interpretation eban_tab: policy_table add_exact_domain_ban_policy_record_in_txn get_exact_domain_ban_policy remove_exact_domain_ban_policy_records_by_height_in_txn
  "table_wf exact_ban_place" "\<lambda>domain c. strncmp_eq 64 (edb_domain c) domain" activation_height
  unfolding add_exact_domain_ban_policy_record_in_txn_def [abs_def] get_exact_domain_ban_policy_def [abs_def]
    remove_exact_domain_ban_policy_records_by_height_in_txn_def [abs_def]
  by (rule policy_table_intro) (rule place_act(6))

section \<open>Table: exact domain tiers\<close>

definition add_exact_domain_tier_policy_record :: "exact_domain_tier_policy_record \<Rightarrow> exact_domain_tier_policy_record list \<Rightarrow> exact_domain_tier_policy_record list option" where
  "add_exact_domain_tier_policy_record rec t = cursor_put_new exact_tier_place rec t"

definition add_exact_domain_tier_policy_record_in_txn :: "exact_domain_tier_policy_record \<Rightarrow> exact_domain_tier_policy_record list \<Rightarrow> exact_domain_tier_policy_record list option" where
  "add_exact_domain_tier_policy_record_in_txn rec t = cursor_put_new exact_tier_place rec t"

definition remove_exact_domain_tier_policy_records_by_height_in_txn :: "u64 \<Rightarrow> exact_domain_tier_policy_record list \<Rightarrow> exact_domain_tier_policy_record list" where
  "remove_exact_domain_tier_policy_records_by_height_in_txn height t = cursor_del_dups activation_height height t"

definition get_exact_domain_tier_policy ::
  "string \<Rightarrow> u64 \<Rightarrow> exact_domain_tier_policy_record list \<Rightarrow> exact_domain_tier_policy_record option" where
  "get_exact_domain_tier_policy domain height t =
     scan_best (\<lambda>c. strncmp_eq 64 (edt_domain c) domain) activation_height height 0 None t"

definition remove_exact_domain_tier_policy_records_by_domain_in_txn :: "string \<Rightarrow> exact_domain_tier_policy_record list \<Rightarrow> exact_domain_tier_policy_record list" where
  "remove_exact_domain_tier_policy_records_by_domain_in_txn domain t = cursor_del_where (\<lambda>r. strncmp_eq 64 (edt_domain r) domain) t"

definition for_all_exact_domain_tier_policy_records ::
  "(exact_domain_tier_policy_record \<Rightarrow> 's \<Rightarrow> bool \<times> 's) \<Rightarrow> exact_domain_tier_policy_record list \<Rightarrow> 's \<Rightarrow> 's" where
  "for_all_exact_domain_tier_policy_records f t s = cursor_for_all f t s"

interpretation etier_tab: policy_table add_exact_domain_tier_policy_record_in_txn get_exact_domain_tier_policy remove_exact_domain_tier_policy_records_by_height_in_txn
  "table_wf exact_tier_place" "\<lambda>domain c. strncmp_eq 64 (edt_domain c) domain" activation_height
  unfolding add_exact_domain_tier_policy_record_in_txn_def [abs_def] get_exact_domain_tier_policy_def [abs_def]
    remove_exact_domain_tier_policy_records_by_height_in_txn_def [abs_def]
  by (rule policy_table_intro) (rule place_act(7))

section \<open>Table: pending domain policies\<close>

text \<open>
  Unique string keys, compared by \<^verbatim>\<open>compare_string\<close>: the key is the domain up to and including its
  NUL, so that the order is the lexicographic one of the C strings.
\<close>

record pending_domain_policy_record =
  pd_domain :: bytes
  pd_proposal_id :: hash32
  pd_voting_end_height :: u64
  pd_action :: u8
  pd_enable :: bool
  pd_tier :: u8
  pd_submission_height :: u64

definition pending_place :: "pending_domain_policy_record \<Rightarrow> bytes" where
  "pending_place r = c_str (pd_domain r)"

definition add_pending_domain_policy_record ::
  "pending_domain_policy_record \<Rightarrow> pending_domain_policy_record list \<Rightarrow>
   pending_domain_policy_record list option" where
  "add_pending_domain_policy_record rec t = cursor_put_new pending_place rec t"

definition get_pending_domain_policy ::
  "string \<Rightarrow> pending_domain_policy_record list \<Rightarrow> pending_domain_policy_record option" where
  "get_pending_domain_policy domain t = find (\<lambda>r. pending_place r = c_str domain) t"

definition get_pending_domain_policy_by_proposal ::
  "hash32 \<Rightarrow> pending_domain_policy_record list \<Rightarrow> pending_domain_policy_record option" where
  "get_pending_domain_policy_by_proposal pid t = find (\<lambda>r. pd_proposal_id r = pid) t"

definition remove_pending_domain_policy_by_domain ::
  "string \<Rightarrow> pending_domain_policy_record list \<Rightarrow> pending_domain_policy_record list" where
  "remove_pending_domain_policy_by_domain domain t =
     cursor_del_where (\<lambda>r. pending_place r = c_str domain) t"

definition remove_pending_domain_policy_by_proposal ::
  "hash32 \<Rightarrow> pending_domain_policy_record list \<Rightarrow> pending_domain_policy_record list" where
  "remove_pending_domain_policy_by_proposal pid t = cursor_del_where (\<lambda>r. pd_proposal_id r = pid) t"

definition for_all_pending_domain_policy_records ::
  "(pending_domain_policy_record \<Rightarrow> 's \<Rightarrow> bool \<times> 's) \<Rightarrow> pending_domain_policy_record list \<Rightarrow> 's \<Rightarrow> 's" where
  "for_all_pending_domain_policy_records f t s = cursor_for_all f t s"

text \<open>The table answers as a finite map from domain names to pending records.\<close>

definition pending_map ::
  "pending_domain_policy_record list \<Rightarrow> string \<rightharpoonup> pending_domain_policy_record" where
  "pending_map t = map_of (map (\<lambda>r. (pending_place r, r)) t)"

lemma get_pending_map: "get_pending_domain_policy domain t = pending_map t (c_str domain)"
  by (induction t) (auto simp: get_pending_domain_policy_def pending_map_def)

lemma pending_map_eq_Some:
  "table_wf pending_place t \<Longrightarrow> pending_map t d = Some r \<longleftrightarrow> r \<in> set t \<and> pending_place r = d"
  by (auto simp: pending_map_def table_wf_def comp_def)

lemma pending_map_eqI:
  assumes "table_wf pending_place t"
    and "\<And>d r. m d = Some r \<longleftrightarrow> r \<in> set t \<and> pending_place r = d"
  shows "pending_map t = m"
proof
  fix d
  have "pending_map t d = Some r \<longleftrightarrow> m d = Some r" for r
    using assms by (simp add: pending_map_eq_Some)
  then show "pending_map t d = m d" by (metis not_Some_eq)
qed

lemma pending_put_map:
  assumes "table_wf pending_place t" "add_pending_domain_policy_record rec t = Some t'"
  shows "pending_map t' = (pending_map t)(pending_place rec \<mapsto> rec)"
proof (rule pending_map_eqI)
  show wf': "table_wf pending_place t'"
    using assms cursor_put_new_wf by (auto simp: add_pending_domain_policy_record_def)
  have set': "set t' = insert rec (set t)"
    using assms(2) by (auto simp: add_pending_domain_policy_record_def dest: cursor_put_new_set)
  have "pending_place rec \<notin> pending_place ` set t"
    using assms(2) by (auto simp: add_pending_domain_policy_record_def cursor_put_new_def split: if_splits)
  then show "((pending_map t)(pending_place rec \<mapsto> rec)) d = Some r \<longleftrightarrow> r \<in> set t' \<and> pending_place r = d" for d r
    using set' by (auto simp: pending_map_eq_Some [OF assms(1)] image_iff)
qed

lemma table_wf_del_where [simp]: "table_wf place t \<Longrightarrow> table_wf place (cursor_del_where p t)"
  by (simp add: cursor_del_where_def)

lemma pending_remove_map:
  assumes "table_wf pending_place t"
  shows "pending_map (remove_pending_domain_policy_by_domain d t) = (pending_map t)(c_str d := None)"
    and "pending_map (remove_pending_domain_policy_by_proposal pid t) k = Some r \<longleftrightarrow>
      pending_map t k = Some r \<and> pd_proposal_id r \<noteq> pid"
  by (auto intro!: pending_map_eqI
      simp: remove_pending_domain_policy_by_domain_def remove_pending_domain_policy_by_proposal_def
        cursor_del_where_set pending_map_eq_Some assms split: if_splits)

section \<open>Properties\<close>

text \<open>
  C26: the table of pending domain policies implements a finite map from names to records. On a
  well-formed table a lookup by name is the map's lookup; adding a record throws exactly when its
  name is taken and otherwise updates the map at that name; removing by name clears that name, and
  removing by proposal drops exactly the records of the proposal. Every operation keeps the table
  well-formed.
\<close>
theorem pending_table_refines_map:
  assumes "table_wf pending_place t"
  shows "get_pending_domain_policy d t = pending_map t (c_str d)
    \<and> (add_pending_domain_policy_record rec t = None \<longleftrightarrow> pending_map t (pending_place rec) \<noteq> None)
    \<and> (\<forall>t'. add_pending_domain_policy_record rec t = Some t' \<longrightarrow>
          table_wf pending_place t' \<and> pending_map t' = (pending_map t)(pending_place rec \<mapsto> rec))
    \<and> table_wf pending_place (remove_pending_domain_policy_by_domain d t)
    \<and> pending_map (remove_pending_domain_policy_by_domain d t) = (pending_map t)(c_str d := None)
    \<and> table_wf pending_place (remove_pending_domain_policy_by_proposal pid t)
    \<and> (\<forall>k r. pending_map (remove_pending_domain_policy_by_proposal pid t) k = Some r \<longleftrightarrow>
          pending_map t k = Some r \<and> pd_proposal_id r \<noteq> pid)"
proof (intro conjI allI impI)
  show "get_pending_domain_policy d t = pending_map t (c_str d)" by (rule get_pending_map)
  have "(\<exists>x \<in> set t. pending_place x = k) \<longleftrightarrow> pending_map t k \<noteq> None" for k
    using pending_map_eq_Some [OF assms] by (metis not_None_eq)
  then show "add_pending_domain_policy_record rec t = None \<longleftrightarrow> pending_map t (pending_place rec) \<noteq> None"
    by (simp only: add_pending_domain_policy_record_def cursor_put_new_None)
  fix t'
  assume add: "add_pending_domain_policy_record rec t = Some t'"
  then show "table_wf pending_place t'"
    using assms cursor_put_new_wf by (auto simp: add_pending_domain_policy_record_def)
  from add show "pending_map t' = (pending_map t)(pending_place rec \<mapsto> rec)"
    by (rule pending_put_map [OF assms])
next
  show "table_wf pending_place (remove_pending_domain_policy_by_domain d t)"
    "table_wf pending_place (remove_pending_domain_policy_by_proposal pid t)"
    using assms by (simp_all add: remove_pending_domain_policy_by_domain_def
        remove_pending_domain_policy_by_proposal_def)
qed (simp_all add: pending_remove_map assms)

definition ex_pending :: pending_domain_policy_record where
  "ex_pending = \<lparr>pd_domain = char_array 64 ''ab..com'', pd_proposal_id = replicate 32 NUL,
     pd_voting_end_height = 5000, pd_action = 1, pd_enable = True, pd_tier = 0,
     pd_submission_height = 10\<rparr>"

theorem pending_table_refines_map_witness:
  "get_pending_domain_policy ''ab..com'' [ex_pending] = pending_map [ex_pending] ''ab..com''
   \<and> pending_map (remove_pending_domain_policy_by_domain ''ab..com'' [ex_pending]) =
     (pending_map [ex_pending])(''ab..com'' := None)"
proof -
  have "table_wf pending_place [ex_pending]" by (simp add: table_wf_def)
  from pending_table_refines_map [OF this, of "''ab..com''" ex_pending "[]"] show ?thesis by simp
qed

end
