(* ===== verification/VNS_DB.thy ===== *)
theory VNS_DB
  imports Policy_Tables
begin

text \<open>
  The database of the governance system and the name registry as one state record, with the
  operations of \<^verbatim>\<open>src/src/blockchain_db/lmdb/db_lmdb.cpp\<close> on it: proposals, proposal data,
  outcomes, vote nullifiers, execution records, the two height queues, the treasury, the domain
  records, and the policy tables of \<open>Policy_Tables\<close>.

  The tables with unique keys are opened without \<^verbatim>\<open>MDB_DUPSORT\<close>. There LMDB's \<^verbatim>\<open>MDB_NODUPDATA\<close>
  has no effect and a put replaces the value, so that the code's \<^verbatim>\<open>MDB_KEYEXIST\<close> branches on them
  are never taken. Such a table is a finite map; the proposals, which are iterated over, are the
  list of key and value in cursor order (\<^verbatim>\<open>compare_hash32\<close> reads a hash as a little-endian number).
  \<open>None\<close> is a thrown \<^verbatim>\<open>DB_ERROR\<close>.
\<close>

section \<open>Records\<close>

abbreviation (input) PROPOSAL_STATUS_ACTIVE :: u8 where "PROPOSAL_STATUS_ACTIVE \<equiv> 0"
abbreviation (input) PROPOSAL_STATUS_PASSED :: u8 where "PROPOSAL_STATUS_PASSED \<equiv> 1"
abbreviation (input) PROPOSAL_STATUS_REJECTED :: u8 where "PROPOSAL_STATUS_REJECTED \<equiv> 2"
abbreviation (input) PROPOSAL_STATUS_EXECUTED :: u8 where "PROPOSAL_STATUS_EXECUTED \<equiv> 3"
abbreviation (input) PROPOSAL_STATUS_FAILED_EXECUTION :: u8 where "PROPOSAL_STATUS_FAILED_EXECUTION \<equiv> 4"
abbreviation (input) PROPOSAL_STATUS_EXPIRED :: u8 where "PROPOSAL_STATUS_EXPIRED \<equiv> 5"

abbreviation (input) null_hash :: hash32 where "null_hash \<equiv> replicate 32 NUL"

record proposal_record =
  pr_proposal_id :: hash32
  pr_type :: u8
  pr_title :: bytes
  pr_description :: bytes
  pr_recipient :: bytes
  pr_amount :: u64
  pr_voting_period_days :: u8
  pr_submission_height :: u64
  pr_voting_end_height :: u64
  pr_tally_key_id :: hash32
  pr_submission_tx_hash :: hash32
  pr_executed :: bool
  pr_status :: u8
  pr_status_height :: u64
  pr_recipient_view_public_key :: bytes
  pr_is_subaddress :: bool

record proposal_execution_record =
  per_proposal_id :: hash32
  per_execution_height :: u64
  per_execution_tx_hash :: hash32
  per_pre_execution_status_height :: u64

record outcome =
  out_yes_weight :: u64
  out_no_weight :: u64
  out_yes_balance :: u64
  out_no_balance :: u64

record treasury_output =
  to_output_id :: u64
  to_amount :: u64
  to_height :: u64
  to_spent :: bool

record vns_domain_record =
  dr_fee_tier :: u64
  dr_fee_burned :: u64
  dr_registrant_key :: bytes
  dr_genesis_fingerprint :: hash32
  dr_last_heartbeat_block :: u64
  dr_health_score :: u16
  dr_status :: u8
  dr_registered_height :: u64
  dr_heartbeat_count :: u64
  dr_relays :: "bytes list"
  dr_heartbeat_history :: "u64 list"
  dr_heartbeat_history_count :: u8
  dr_registration_tx_hash :: hash32

record vns_domain_heartbeat_event_record =
  hb_domain :: bytes
  hb_event_id :: hash32
  hb_observed_height :: u64
  hb_event_timestamp :: u64
  hb_event_sequence :: u64
  hb_had_previous_proof :: bool
  hb_previous_proof :: hash32
  hb_previous_heartbeat_count :: u64
  hb_previous_last_heartbeat_block :: u64
  hb_previous_health_score :: u16
  hb_previous_status :: u8
  hb_new_heartbeat_count :: u64
  hb_new_last_heartbeat_block :: u64
  hb_new_health_score :: u16
  hb_new_status :: u8

record vns_db =
  db_proposals :: "(hash32 \<times> proposal_record) list"
  db_proposal_data :: "hash32 \<rightharpoonup> bytes"
  db_executions :: "hash32 \<rightharpoonup> proposal_execution_record"
  db_outcomes :: "hash32 \<rightharpoonup> outcome"
  db_nullifiers :: "(hash32 \<times> hash32) set"
  db_votes :: "(hash32 \<times> bytes) set"
  db_pending_executions :: "(u64 \<times> hash32) list"
  db_voting_end_queue :: "(u64 \<times> hash32) list"
  db_treasury_balance :: "u64 option"
  db_burned_fees :: "u64 option"
  db_treasury_counter :: "u64 option"
  db_treasury_outputs :: "(u64 \<times> treasury_output) list"
  db_governance_params :: "bytes option"
  db_parameters :: "parameter_record list"
  db_extension_policy :: "extension_policy_record list"
  db_premium_label_policy :: "premium_label_policy_record list"
  db_banned_label_policy :: "banned_label_policy_record list"
  db_banned_extension_policy :: "banned_extension_policy_record list"
  db_exact_ban_policy :: "exact_domain_ban_policy_record list"
  db_exact_tier_policy :: "exact_domain_tier_policy_record list"
  db_pending_domain :: "pending_domain_policy_record list"
  db_domains :: "string \<rightharpoonup> vns_domain_record"
  db_heartbeat_proofs :: "string \<rightharpoonup> hash32"
  db_heartbeat_events :: "vns_domain_heartbeat_event_record list"

section \<open>Proposals\<close>

definition hash_place :: "hash32 \<times> 'v \<Rightarrow> nat" where
  "hash_place e = le_val (fst e)"

definition add_proposal_record :: "hash32 \<Rightarrow> proposal_record \<Rightarrow> vns_db \<Rightarrow> vns_db" where
  "add_proposal_record pid rec db =
     db\<lparr>db_proposals :=
        insort_key hash_place (pid, rec) (filter (\<lambda>e. fst e \<noteq> pid) (db_proposals db))\<rparr>"

definition get_proposal_record :: "hash32 \<Rightarrow> vns_db \<Rightarrow> proposal_record option" where
  "get_proposal_record pid db = map_of (db_proposals db) pid"

definition get_proposal_record_in_txn :: "hash32 \<Rightarrow> vns_db \<Rightarrow> proposal_record option" where
  "get_proposal_record_in_txn pid db = map_of (db_proposals db) pid"

definition remove_proposal_record :: "hash32 \<Rightarrow> vns_db \<Rightarrow> vns_db" where
  "remove_proposal_record pid db =
     db\<lparr>db_proposals := filter (\<lambda>e. fst e \<noteq> pid) (db_proposals db)\<rparr>"

definition for_all_proposal_records ::
  "(hash32 \<times> proposal_record \<Rightarrow> 's \<Rightarrow> bool \<times> 's) \<Rightarrow> vns_db \<Rightarrow> 's \<Rightarrow> 's" where
  "for_all_proposal_records f db s = cursor_for_all f (db_proposals db) s"

definition set_proposal_data :: "hash32 \<Rightarrow> bytes \<Rightarrow> vns_db \<Rightarrow> vns_db" where
  "set_proposal_data pid blob db = db\<lparr>db_proposal_data := (db_proposal_data db)(pid \<mapsto> blob)\<rparr>"

definition get_proposal_data :: "hash32 \<Rightarrow> vns_db \<Rightarrow> bytes option" where
  "get_proposal_data pid db = db_proposal_data db pid"

definition set_proposal_outcome :: "hash32 \<Rightarrow> outcome \<Rightarrow> vns_db \<Rightarrow> vns_db" where
  "set_proposal_outcome pid out db = db\<lparr>db_outcomes := (db_outcomes db)(pid \<mapsto> out)\<rparr>"

definition get_proposal_outcome :: "hash32 \<Rightarrow> vns_db \<Rightarrow> outcome option" where
  "get_proposal_outcome pid db = db_outcomes db pid"

definition remove_proposal_outcome :: "hash32 \<Rightarrow> vns_db \<Rightarrow> vns_db" where
  "remove_proposal_outcome pid db = db\<lparr>db_outcomes := (db_outcomes db)(pid := None)\<rparr>"

definition add_proposal_execution_record :: "proposal_execution_record \<Rightarrow> vns_db \<Rightarrow> vns_db" where
  "add_proposal_execution_record rec db =
     db\<lparr>db_executions := (db_executions db)(per_proposal_id rec \<mapsto> rec)\<rparr>"

definition get_proposal_execution_record :: "hash32 \<Rightarrow> vns_db \<Rightarrow> proposal_execution_record option" where
  "get_proposal_execution_record pid db = db_executions db pid"

definition get_proposal_execution_record_in_txn ::
  "hash32 \<Rightarrow> vns_db \<Rightarrow> proposal_execution_record option" where
  "get_proposal_execution_record_in_txn pid db = db_executions db pid"

definition remove_proposal_execution_record :: "hash32 \<Rightarrow> vns_db \<Rightarrow> vns_db" where
  "remove_proposal_execution_record pid db = db\<lparr>db_executions := (db_executions db)(pid := None)\<rparr>"

section \<open>Height queues\<close>

definition queue_place :: "u64 \<times> hash32 \<Rightarrow> u64 \<times> bytes" where
  "queue_place e = e"

definition add_pending_execution :: "u64 \<Rightarrow> hash32 \<Rightarrow> vns_db \<Rightarrow> vns_db option" where
  "add_pending_execution h pid db =
     map_option (\<lambda>t. db\<lparr>db_pending_executions := t\<rparr>)
       (cursor_put_new queue_place (h, pid) (db_pending_executions db))"

text \<open>The loop from \<^verbatim>\<open>MDB_FIRST\<close> that stops at the first key above \<open>max_height\<close>.\<close>

definition get_pending_executions :: "u64 \<Rightarrow> vns_db \<Rightarrow> (u64 \<times> hash32) list" where
  "get_pending_executions max_height db =
     takeWhile (\<lambda>e. fst e \<le> max_height) (db_pending_executions db)"

definition remove_pending_execution :: "u64 \<Rightarrow> hash32 \<Rightarrow> vns_db \<Rightarrow> vns_db" where
  "remove_pending_execution h pid db =
     db\<lparr>db_pending_executions := filter (\<lambda>e. e \<noteq> (h, pid)) (db_pending_executions db)\<rparr>"

definition add_voting_end_entry :: "u64 \<Rightarrow> hash32 \<Rightarrow> vns_db \<Rightarrow> vns_db option" where
  "add_voting_end_entry h pid db =
     map_option (\<lambda>t. db\<lparr>db_voting_end_queue := t\<rparr>)
       (cursor_put_new queue_place (h, pid) (db_voting_end_queue db))"

definition get_voting_end_entries :: "u64 \<Rightarrow> vns_db \<Rightarrow> hash32 list" where
  "get_voting_end_entries h db = map snd (cursor_dups fst h (db_voting_end_queue db))"

definition remove_voting_end_entry :: "u64 \<Rightarrow> hash32 \<Rightarrow> vns_db \<Rightarrow> vns_db" where
  "remove_voting_end_entry h pid db =
     db\<lparr>db_voting_end_queue := filter (\<lambda>e. e \<noteq> (h, pid)) (db_voting_end_queue db)\<rparr>"

section \<open>Votes\<close>

text \<open>The \<^verbatim>\<open>MDB_KEYEXIST\<close> branch that throws is unreachable: the table has no \<^verbatim>\<open>MDB_DUPSORT\<close>.\<close>

definition add_vote_nullifier :: "hash32 \<Rightarrow> hash32 \<Rightarrow> vns_db \<Rightarrow> vns_db" where
  "add_vote_nullifier pid nf db = db\<lparr>db_nullifiers := insert (pid, nf) (db_nullifiers db)\<rparr>"

definition has_vote_nullifier :: "hash32 \<Rightarrow> hash32 \<Rightarrow> vns_db \<Rightarrow> bool" where
  "has_vote_nullifier pid nf db = ((pid, nf) \<in> db_nullifiers db)"

definition remove_vote_nullifier :: "hash32 \<Rightarrow> hash32 \<Rightarrow> vns_db \<Rightarrow> vns_db" where
  "remove_vote_nullifier pid nf db = db\<lparr>db_nullifiers := db_nullifiers db - {(pid, nf)}\<rparr>"

definition remove_vote_record :: "hash32 \<Rightarrow> bytes \<Rightarrow> vns_db \<Rightarrow> vns_db" where
  "remove_vote_record pid ki db = db\<lparr>db_votes := db_votes db - {(pid, ki)}\<rparr>"

section \<open>Treasury\<close>

definition get_treasury_balance :: "vns_db \<Rightarrow> u64" where
  "get_treasury_balance db = (case db_treasury_balance db of None \<Rightarrow> 0 | Some b \<Rightarrow> b)"

definition get_treasury_balance_in_txn :: "vns_db \<Rightarrow> u64" where
  "get_treasury_balance_in_txn db = (case db_treasury_balance db of None \<Rightarrow> 0 | Some b \<Rightarrow> b)"

definition set_treasury_balance :: "u64 \<Rightarrow> vns_db \<Rightarrow> vns_db" where
  "set_treasury_balance amount db = db\<lparr>db_treasury_balance := Some amount\<rparr>"

definition set_treasury_balance_in_txn :: "u64 \<Rightarrow> vns_db \<Rightarrow> vns_db" where
  "set_treasury_balance_in_txn amount db = db\<lparr>db_treasury_balance := Some amount\<rparr>"

definition get_total_burned_fees :: "vns_db \<Rightarrow> u64" where
  "get_total_burned_fees db = (case db_burned_fees db of None \<Rightarrow> 0 | Some b \<Rightarrow> b)"

definition get_total_burned_fees_in_txn :: "vns_db \<Rightarrow> u64" where
  "get_total_burned_fees_in_txn db = (case db_burned_fees db of None \<Rightarrow> 0 | Some b \<Rightarrow> b)"

definition add_burned_fees :: "u64 \<Rightarrow> vns_db \<Rightarrow> vns_db" where
  "add_burned_fees amount db =
     (let current = (case db_burned_fees db of None \<Rightarrow> 0 | Some b \<Rightarrow> b) in
      db\<lparr>db_burned_fees := Some (current + amount)\<rparr>)"

text \<open>
  The table of treasury outputs has no comparator of its own: its keys, the ids, are in the order of
  their bytes. The counter is an entry of the same table under a textual key.
\<close>

definition id_place :: "u64 \<times> 'v \<Rightarrow> nat" where
  "id_place e = le_val (rev (put_u64 (fst e)))"

definition put_treasury_output :: "u64 \<Rightarrow> treasury_output \<Rightarrow> vns_db \<Rightarrow> vns_db" where
  "put_treasury_output oid out db =
     db\<lparr>db_treasury_outputs :=
        insort_key id_place (oid, out) (filter (\<lambda>e. fst e \<noteq> oid) (db_treasury_outputs db))\<rparr>"

definition add_treasury_output :: "u64 \<Rightarrow> u64 \<Rightarrow> vns_db \<Rightarrow> u64 \<times> vns_db" where
  "add_treasury_output amount height db =
     (let counter = (case db_treasury_counter db of None \<Rightarrow> 0 | Some c \<Rightarrow> c);
          next_id = counter + 1 in
      (next_id,
       put_treasury_output next_id
         \<lparr>to_output_id = next_id, to_amount = amount, to_height = height, to_spent = False\<rparr>
         (db\<lparr>db_treasury_counter := Some next_id\<rparr>)))"

definition get_treasury_output :: "u64 \<Rightarrow> vns_db \<Rightarrow> treasury_output option" where
  "get_treasury_output oid db = map_of (db_treasury_outputs db) oid"

definition remove_treasury_output :: "u64 \<Rightarrow> vns_db \<Rightarrow> vns_db" where
  "remove_treasury_output oid db =
     db\<lparr>db_treasury_outputs := filter (\<lambda>e. fst e \<noteq> oid) (db_treasury_outputs db)\<rparr>"

text \<open>
  The loop also visits the counter entry and reads a height past the end of its 8 bytes:
  \<open>stray\<close> is what it finds there.
\<close>

definition remove_treasury_outputs_by_height :: "u64 \<Rightarrow> u64 \<Rightarrow> vns_db \<Rightarrow> vns_db" where
  "remove_treasury_outputs_by_height stray height db =
     db\<lparr>db_treasury_outputs := filter (\<lambda>e. to_height (snd e) \<noteq> height) (db_treasury_outputs db),
        db_treasury_counter := (if stray = height then None else db_treasury_counter db)\<rparr>"

definition mark_treasury_output_spent :: "u64 \<Rightarrow> bool \<Rightarrow> vns_db \<Rightarrow> vns_db" where
  "mark_treasury_output_spent oid spent db =
     (case get_treasury_output oid db of
        None \<Rightarrow> db
      | Some out \<Rightarrow> put_treasury_output oid (out\<lparr>to_spent := spent\<rparr>) db)"

definition get_unspent_treasury_outputs :: "vns_db \<Rightarrow> treasury_output list" where
  "get_unspent_treasury_outputs db =
     filter (\<lambda>out. \<not> to_spent out) (map snd (db_treasury_outputs db))"

section \<open>Governance parameters\<close>

definition set_governance_params :: "governance_params \<Rightarrow> vns_db \<Rightarrow> vns_db" where
  "set_governance_params gp db = db\<lparr>db_governance_params := Some (serialize gp)\<rparr>"

definition get_governance_params :: "governance_params \<Rightarrow> vns_db \<Rightarrow> governance_params option" where
  "get_governance_params out db =
     (case db_governance_params db of None \<Rightarrow> None | Some blob \<Rightarrow> deserialize blob out)"

section \<open>Domain records and heartbeats\<close>

definition add_vns_domain_record :: "string \<Rightarrow> vns_domain_record \<Rightarrow> vns_db \<Rightarrow> vns_db" where
  "add_vns_domain_record name rec db = db\<lparr>db_domains := (db_domains db)(c_str name \<mapsto> rec)\<rparr>"

definition get_vns_domain_record :: "string \<Rightarrow> vns_db \<Rightarrow> vns_domain_record option" where
  "get_vns_domain_record name db = db_domains db (c_str name)"

definition remove_vns_domain_record :: "string \<Rightarrow> vns_db \<Rightarrow> vns_db" where
  "remove_vns_domain_record name db = db\<lparr>db_domains := (db_domains db)(c_str name := None)\<rparr>"

definition get_vns_heartbeat_proof :: "string \<Rightarrow> vns_db \<Rightarrow> hash32 option" where
  "get_vns_heartbeat_proof name db = db_heartbeat_proofs db (c_str name)"

definition set_vns_heartbeat_proof :: "string \<Rightarrow> hash32 \<Rightarrow> vns_db \<Rightarrow> vns_db" where
  "set_vns_heartbeat_proof name proof db =
     db\<lparr>db_heartbeat_proofs := (db_heartbeat_proofs db)(c_str name \<mapsto> proof)\<rparr>"

definition remove_vns_heartbeat_proof :: "string \<Rightarrow> vns_db \<Rightarrow> vns_db" where
  "remove_vns_heartbeat_proof name db =
     db\<lparr>db_heartbeat_proofs := (db_heartbeat_proofs db)(c_str name := None)\<rparr>"

text \<open>
  The events are kept by the height at which they were observed, in the byte order of the structure, whose
  padding is zero. Adding an event that is there already throws.
\<close>

definition event_bytes :: "vns_domain_heartbeat_event_record \<Rightarrow> bytes" where
  "event_bytes e =
     hb_domain e @ hb_event_id e @ put_u64 (hb_observed_height e) @ put_u64 (hb_event_timestamp e)
     @ put_u64 (hb_event_sequence e) @ [if hb_had_previous_proof e then CHR 0x01 else NUL] @ hb_previous_proof e
     @ replicate 7 NUL @ put_u64 (hb_previous_heartbeat_count e) @ put_u64 (hb_previous_last_heartbeat_block e)
     @ put_u16 (hb_previous_health_score e) @ put_u8 (hb_previous_status e) @ replicate 5 NUL
     @ put_u64 (hb_new_heartbeat_count e) @ put_u64 (hb_new_last_heartbeat_block e)
     @ put_u16 (hb_new_health_score e) @ put_u8 (hb_new_status e) @ replicate 5 NUL"

definition event_place :: "vns_domain_heartbeat_event_record \<Rightarrow> u64 \<times> bytes" where
  "event_place e = (hb_observed_height e, event_bytes e)"

definition add_vns_domain_heartbeat_event :: "vns_domain_heartbeat_event_record \<Rightarrow> vns_db \<Rightarrow> vns_db option" where
  "add_vns_domain_heartbeat_event e db =
     map_option (\<lambda>t. db\<lparr>db_heartbeat_events := t\<rparr>) (cursor_put_new event_place e (db_heartbeat_events db))"

definition get_vns_domain_heartbeat_events_by_height :: "u64 \<Rightarrow> vns_db \<Rightarrow> vns_domain_heartbeat_event_record list" where
  "get_vns_domain_heartbeat_events_by_height h db = cursor_dups hb_observed_height h (db_heartbeat_events db)"

definition remove_vns_domain_heartbeat_events_by_height :: "u64 \<Rightarrow> vns_db \<Rightarrow> vns_db" where
  "remove_vns_domain_heartbeat_events_by_height h db =
     db\<lparr>db_heartbeat_events := cursor_del_dups hb_observed_height h (db_heartbeat_events db)\<rparr>"

definition remove_vns_domain_heartbeat_events_by_domain :: "string \<Rightarrow> vns_db \<Rightarrow> vns_db" where
  "remove_vns_domain_heartbeat_events_by_domain name db =
     db\<lparr>db_heartbeat_events := cursor_del_where (\<lambda>e. strncmp_eq 64 (hb_domain e) name) (db_heartbeat_events db)\<rparr>"

section \<open>Invariant\<close>

text \<open>Every table is in cursor order, with one entry per place.\<close>

definition tables_wf :: "vns_db \<Rightarrow> bool" where
  "tables_wf db \<longleftrightarrow>
     table_wf parameter_place (db_parameters db)
     \<and> table_wf extension_place (db_extension_policy db)
     \<and> table_wf premium_label_place (db_premium_label_policy db)
     \<and> table_wf banned_label_place (db_banned_label_policy db)
     \<and> table_wf banned_extension_place (db_banned_extension_policy db)
     \<and> table_wf exact_ban_place (db_exact_ban_policy db)
     \<and> table_wf exact_tier_place (db_exact_tier_policy db)
     \<and> table_wf pending_place (db_pending_domain db)
     \<and> table_wf queue_place (db_pending_executions db)
     \<and> table_wf queue_place (db_voting_end_queue db)
     \<and> table_wf hash_place (db_proposals db) \<and> (\<forall>e \<in> set (db_proposals db). length (fst e) = 32)"

lemma tables_wfD:
  assumes "tables_wf db"
  shows "table_wf parameter_place (db_parameters db)"
    "table_wf extension_place (db_extension_policy db)"
    "table_wf premium_label_place (db_premium_label_policy db)"
    "table_wf banned_label_place (db_banned_label_policy db)"
    "table_wf banned_extension_place (db_banned_extension_policy db)"
    "table_wf exact_ban_place (db_exact_ban_policy db)"
    "table_wf exact_tier_place (db_exact_tier_policy db)"
    "table_wf pending_place (db_pending_domain db)"
    "table_wf queue_place (db_pending_executions db)"
    "table_wf queue_place (db_voting_end_queue db)"
    "table_wf hash_place (db_proposals db)" "\<forall>e \<in> set (db_proposals db). length (fst e) = 32"
  using assms by (simp_all add: tables_wf_def)

definition empty_db :: vns_db where
  "empty_db = \<lparr>db_proposals = [], db_proposal_data = (\<lambda>_. None), db_executions = (\<lambda>_. None),
     db_outcomes = (\<lambda>_. None), db_nullifiers = {}, db_votes = {}, db_pending_executions = [],
     db_voting_end_queue = [], db_treasury_balance = None, db_burned_fees = None,
     db_treasury_counter = None, db_treasury_outputs = [], db_governance_params = None,
     db_parameters = [], db_extension_policy = [], db_premium_label_policy = [],
     db_banned_label_policy = [], db_banned_extension_policy = [], db_exact_ban_policy = [],
     db_exact_tier_policy = [], db_pending_domain = [], db_domains = (\<lambda>_. None),
     db_heartbeat_proofs = (\<lambda>_. None), db_heartbeat_events = []\<rparr>"

lemma tables_wf_empty [simp]: "tables_wf empty_db"
  by (simp add: tables_wf_def empty_db_def)

section \<open>The proposal table is a map\<close>

lemma map_of_insort_key:
  assumes "fst e \<notin> fst ` set t"
  shows "map_of (insort_key f e t) = (map_of t)(fst e \<mapsto> snd e)"
  using assms by (induction t) (auto simp: fun_eq_iff)

lemma map_of_filter_key: "map_of (filter (\<lambda>e. fst e \<noteq> k) t) = (map_of t)(k := None)"
  by (induction t) (auto simp: fun_eq_iff)

lemma get_add_proposal [simp]:
  "get_proposal_record k (add_proposal_record k' rec db) =
     (if k = k' then Some rec else get_proposal_record k db)"
proof -
  let ?t = "filter (\<lambda>e. fst e \<noteq> k') (db_proposals db)"
  have "map_of (insort_key hash_place (k', rec) ?t) = (map_of ?t)(k' \<mapsto> rec)"
    using map_of_insort_key [of "(k', rec)" ?t] by auto
  then show ?thesis
    by (simp add: get_proposal_record_def add_proposal_record_def map_of_filter_key)
qed

lemma get_remove_proposal [simp]:
  "get_proposal_record k (remove_proposal_record k' db) =
     (if k = k' then None else get_proposal_record k db)"
  by (simp add: get_proposal_record_def remove_proposal_record_def map_of_filter_key)

lemma get_proposal_record_in_txn_eq [simp]: "get_proposal_record_in_txn = get_proposal_record"
  by (simp add: fun_eq_iff get_proposal_record_def get_proposal_record_in_txn_def)

lemma set_add_proposal:
  "set (db_proposals (add_proposal_record k rec db)) =
     insert (k, rec) {e \<in> set (db_proposals db). fst e \<noteq> k}"
  by (simp add: add_proposal_record_def set_insort_key)

lemma le_val_inject: "length a = length b \<Longrightarrow> le_val a = le_val b \<Longrightarrow> a = b"
proof (induction a b rule: list_induct2)
  case Nil
  then show ?case by simp
next
  case (Cons c a d b)
  have "byte_val x mod 256 = byte_val x" for x by simp
  with Cons.prems have "byte_val c = byte_val d"
    by (metis le_val.simps(2) mod_mult_self2)
  with Cons show ?case by simp
qed

lemma wf_distinct_keys: "table_wf hash_place t \<Longrightarrow> distinct (map fst t)"
  by (auto simp: table_wf_def hash_place_def distinct_map inj_on_def)

lemma wf_add_proposal:
  assumes "table_wf hash_place (db_proposals db)" "\<forall>e \<in> set (db_proposals db). length (fst e) = 32"
    and "length k = 32"
  shows "table_wf hash_place (db_proposals (add_proposal_record k rec db))"
proof -
  let ?t = "filter (\<lambda>e. fst e \<noteq> k) (db_proposals db)"
  have "hash_place (k, rec) \<noteq> hash_place e" if "e \<in> set ?t" for e
    using that assms(2,3) le_val_inject [of k "fst e"] by (auto simp: hash_place_def)
  then have "hash_place (k, rec) \<notin> set (map hash_place ?t)" by auto
  moreover have "table_wf hash_place ?t" using assms(1) by simp
  moreover have "db_proposals (add_proposal_record k rec db) = insort_key hash_place (k, rec) ?t"
    by (simp add: add_proposal_record_def)
  ultimately show ?thesis
    by (simp only: table_wf_def sorted_insort_key distinct_insort_place) simp
qed

lemma get_proposal_in:
  "tables_wf db \<Longrightarrow> get_proposal_record k db = Some rec \<longleftrightarrow> (k, rec) \<in> set (db_proposals db)"
  using wf_distinct_keys [OF tables_wfD(11)] by (simp add: get_proposal_record_def)

text \<open>Writing a proposal back as it was restores the table.\<close>

lemma add_proposal_restore:
  assumes "tables_wf db" "get_proposal_record k db = Some rec"
  shows "db_proposals (add_proposal_record k rec (add_proposal_record k rec' db)) = db_proposals db"
proof (rule table_wf_ext [of hash_place])
  have k: "(k, rec) \<in> set (db_proposals db)" using assms get_proposal_in by blast
  then have len: "length k = 32" using tables_wfD(12) [OF assms(1)] by auto
  let ?d = "add_proposal_record k rec' db"
  have wf: "table_wf hash_place (db_proposals ?d)"
    by (rule wf_add_proposal [OF tables_wfD(11,12) [OF assms(1)] len])
  have "\<forall>e \<in> set (db_proposals ?d). length (fst e) = 32"
    using tables_wfD(12) [OF assms(1)] len by (simp add: set_add_proposal)
  then show "table_wf hash_place (db_proposals (add_proposal_record k rec ?d))"
    by (intro wf_add_proposal wf len)
  show "table_wf hash_place (db_proposals db)" by (rule tables_wfD(11) [OF assms(1)])
  have uniq: "e \<in> set (db_proposals db) \<Longrightarrow> fst e = k \<Longrightarrow> snd e = rec" for e
    using get_proposal_in [OF assms(1), of k "snd e"] assms(2) by (cases e) auto
  have "set (db_proposals (add_proposal_record k rec ?d)) =
      insert (k, rec) {e \<in> set (db_proposals db). fst e \<noteq> k}"
    by (auto simp: set_add_proposal)
  moreover have "insert (k, rec) {e \<in> set (db_proposals db). fst e \<noteq> k} = set (db_proposals db)"
  proof (rule set_eqI)
    fix e
    show "e \<in> insert (k, rec) {e \<in> set (db_proposals db). fst e \<noteq> k} \<longleftrightarrow> e \<in> set (db_proposals db)"
      using k uniq [of e] by (auto simp: prod_eq_iff)
  qed
  ultimately show "set (db_proposals (add_proposal_record k rec ?d)) = set (db_proposals db)"
    by (rule trans)
qed

end
