(* ===== verification/Domain_Policy.thy ===== *)
theory Domain_Policy
  imports Domain_Names VNS_DB
begin

text \<open>
  \<^verbatim>\<open>Blockchain::resolve_domain_policy\<close> of \<^verbatim>\<open>src/src/cryptonote_core/blockchain.cpp\<close> with the result
  structure of \<^verbatim>\<open>src/src/governance/domain_policy.h\<close>: whether a name may be registered at a height,
  and for which fee. The steps of the function are one definition each. The result is the
  caller's object \<open>res\<close>, which the code fills in place; the boolean is the return value.

  The lemmas give the decision as a closed condition on the tables, show that it depends on the
  name through its normal form only, and that a policy record has no effect below its activation
  height.
\<close>

section \<open>Result\<close>

datatype domain_policy_source =
    DEFAULT_TIER | EXTENSION_TIER | PREMIUM_LABEL | EXACT_DOMAIN_OVERRIDE | BANNED
  | DAO_TIER_FEE | DAO_EXTENSION_TIER | PENDING_DOMAIN_POLICY | EXACT_DOMAIN_BAN
  | DEFAULT_PREMIUM_TIER

record domain_policy_result =
  registration_allowed :: bool
  dp_pending :: bool
  dp_banned :: bool
  dp_tier :: u8
  dp_source :: domain_policy_source
  dp_fee :: u64
  policy_height :: u64
  policy_id :: hash32
  premium_policy_from_dao :: bool
  premium_policy_height :: u64
  premium_policy_id :: hash32
  ban_policy_from_dao :: bool
  ban_policy_height :: u64
  ban_policy_id :: hash32

section \<open>The steps\<close>

text \<open>The branch for a name whose extension breaks the grammar.\<close>

definition invalid_extension_result :: "domain_policy_result \<Rightarrow> domain_policy_result" where
  "invalid_extension_result res =
     res\<lparr>registration_allowed := False, dp_pending := False, dp_banned := True, dp_tier := 5,
         dp_source := BANNED, dp_fee := 0, policy_height := 0, policy_id := null_hash\<rparr>"

definition initial_result :: "domain_policy_result \<Rightarrow> domain_policy_result" where
  "initial_result res =
     res\<lparr>registration_allowed := True, dp_pending := False, dp_banned := False, dp_tier := TIER_PREMIUM,
         dp_source := DEFAULT_PREMIUM_TIER, dp_fee := 0, policy_height := 0, policy_id := null_hash,
         premium_policy_from_dao := False, premium_policy_height := 0,
         premium_policy_id := null_hash, ban_policy_from_dao := False, ban_policy_height := 0,
         ban_policy_id := null_hash\<rparr>"

text \<open>Step 2: the pending record that locks the name, if its proposal is not executed.\<close>

definition pending_lock :: "vns_db \<Rightarrow> string \<Rightarrow> pending_domain_policy_record option" where
  "pending_lock db normalized =
     (case get_pending_domain_policy normalized (db_pending_domain db) of
        None \<Rightarrow> None
      | Some rec \<Rightarrow>
          (case get_proposal_record (pd_proposal_id rec) db of
             None \<Rightarrow> Some rec
           | Some prop \<Rightarrow> if pr_executed prop then None else Some rec))"

text \<open>Step 3: the exact-domain ban in force.\<close>

definition exact_ban :: "vns_db \<Rightarrow> string \<Rightarrow> u64 \<Rightarrow> exact_domain_ban_policy_record option" where
  "exact_ban db normalized height =
     (case get_exact_domain_ban_policy normalized height (db_exact_ban_policy db) of
        None \<Rightarrow> None
      | Some rec \<Rightarrow> if edb_banned rec then Some rec else None)"

text \<open>Step 4: the global bans, with the provenance they leave in the result.\<close>

definition global_bans ::
  "governance_params \<Rightarrow> vns_db \<Rightarrow> string \<Rightarrow> string \<Rightarrow> u64 \<Rightarrow> domain_policy_result \<Rightarrow>
   bool \<times> domain_policy_result" where
  "global_bans gp db label ext height res =
     (let (label_banned, res) =
            (case get_banned_label_policy label height (db_banned_label_policy db) of
               None \<Rightarrow> (gp_is_label_banned gp label, res)
             | Some r \<Rightarrow> (bl_banned r, res\<lparr>ban_policy_from_dao := True,
                 ban_policy_height := activation_height r, ban_policy_id := proposal_id r\<rparr>));
          (extension_banned, res) =
            (case get_banned_extension_policy ext height (db_banned_extension_policy db) of
               None \<Rightarrow> (gp_is_extension_banned gp ext, res)
             | Some r \<Rightarrow> (be_banned r, res\<lparr>ban_policy_from_dao := True,
                 ban_policy_height := activation_height r, ban_policy_id := proposal_id r\<rparr>))
      in (label_banned \<or> extension_banned \<or> gp_is_label_banned gp ext, res))"

text \<open>Steps 5 and 6: the exact-domain tier override, otherwise the extension's tier.\<close>

definition tier_step ::
  "governance_params \<Rightarrow> vns_db \<Rightarrow> string \<Rightarrow> string \<Rightarrow> u64 \<Rightarrow> domain_policy_result \<Rightarrow>
   domain_policy_result" where
  "tier_step gp db normalized ext height res =
     (let by_extension =
        (case get_extension_policy ext height (db_extension_policy db) of
           Some r \<Rightarrow> res\<lparr>dp_tier := ext_tier r, dp_source := DAO_EXTENSION_TIER,
             policy_height := activation_height r, policy_id := proposal_id r\<rparr>
         | None \<Rightarrow>
             if gp_has_extension_tier_mapping gp ext
             then res\<lparr>dp_tier := gp_get_tier_for_extension gp ext, dp_source := EXTENSION_TIER\<rparr>
             else res\<lparr>dp_tier := TIER_PREMIUM, dp_source := DEFAULT_PREMIUM_TIER\<rparr>)
      in case get_exact_domain_tier_policy normalized height (db_exact_tier_policy db) of
           None \<Rightarrow> by_extension
         | Some r \<Rightarrow>
             if edt_has_tier_override r
             then res\<lparr>dp_tier := edt_tier r, dp_source := EXACT_DOMAIN_OVERRIDE,
               policy_height := activation_height r, policy_id := proposal_id r\<rparr>
             else by_extension)"

text \<open>Step 7: the premium label rule.\<close>

definition premium_step ::
  "governance_params \<Rightarrow> vns_db \<Rightarrow> string \<Rightarrow> u64 \<Rightarrow> domain_policy_result \<Rightarrow>
   domain_policy_result" where
  "premium_step gp db label height res =
     (let (is_premium, res) =
        (case get_premium_label_policy label height (db_premium_label_policy db) of
           None \<Rightarrow> (gp_is_premium_label gp label, res)
         | Some r \<Rightarrow> (prem_active r, res\<lparr>premium_policy_from_dao := True,
             premium_policy_height := activation_height r, premium_policy_id := proposal_id r\<rparr>))
      in if is_premium then res\<lparr>dp_tier := TIER_PREMIUM, dp_source := PREMIUM_LABEL\<rparr> else res)"

definition tier_fee_parameter :: "u8 \<Rightarrow> governance_parameter" where
  "tier_fee_parameter t = parameter_enum (word_of_nat (parameter_code domain_tier_fee_0) + t)"

text \<open>Step 9: the fee; a tier above the last one is an error.\<close>

definition fee_step ::
  "governance_params \<Rightarrow> vns_db \<Rightarrow> u64 \<Rightarrow> domain_policy_result \<Rightarrow> bool \<times> domain_policy_result" where
  "fee_step gp db height res =
     (if dp_tier res = TIER_PREMIUM then (True, res\<lparr>dp_fee := PREMIUM_TIER_FEE\<rparr>)
      else if TIER_SOVEREIGN < dp_tier res then (False, res)
      else
        case get_parameter_record (tier_fee_parameter (dp_tier res)) height (db_parameters db) of
          Some r \<Rightarrow> (True, res\<lparr>dp_fee := prm_value r, dp_source := DAO_TIER_FEE,
            policy_height := activation_height r, policy_id := proposal_id r\<rparr>)
        | None \<Rightarrow> (True, res\<lparr>dp_fee := tier_fees gp ! unat (dp_tier res)\<rparr>))"

section \<open>The resolver\<close>

definition resolve_domain_policy ::
  "governance_params \<Rightarrow> vns_db \<Rightarrow> string \<Rightarrow> u64 \<Rightarrow> domain_policy_result \<Rightarrow>
   bool \<times> domain_policy_result" where
  "resolve_domain_policy gp db domain height res =
     (let normalized = normalize_vns_domain domain in
      if normalized = [] then (False, res)
      else case parse_vns_domain normalized of
        None \<Rightarrow> (False, res)
      | Some (label, ext) \<Rightarrow>
          if \<not> is_valid_vns_extension ext then (True, invalid_extension_result res)
          else
            let res = initial_result res in
            case pending_lock db normalized of
              Some rec \<Rightarrow>
                (True, res\<lparr>registration_allowed := False, dp_pending := True, dp_banned := False,
                   dp_tier := 5, dp_source := PENDING_DOMAIN_POLICY,
                   policy_height := pd_submission_height rec, policy_id := pd_proposal_id rec\<rparr>)
            | None \<Rightarrow>
              (case exact_ban db normalized height of
                 Some rec \<Rightarrow>
                   (True, res\<lparr>registration_allowed := False, dp_banned := True, dp_tier := 5,
                      dp_source := EXACT_DOMAIN_BAN, policy_height := activation_height rec,
                      policy_id := proposal_id rec\<rparr>)
               | None \<Rightarrow>
                 (case global_bans gp db label ext height res of
                    (True, res) \<Rightarrow>
                      (True, res\<lparr>registration_allowed := False, dp_banned := True, dp_tier := 5,
                         dp_source := BANNED\<rparr>)
                  | (False, res) \<Rightarrow>
                      fee_step gp db height
                        (premium_step gp db label height
                          (tier_step gp db normalized ext height res)))))"

section \<open>The decision in closed form\<close>

definition label_barred :: "governance_params \<Rightarrow> vns_db \<Rightarrow> string \<Rightarrow> u64 \<Rightarrow> bool" where
  "label_barred gp db label height =
     (case get_banned_label_policy label height (db_banned_label_policy db) of
        None \<Rightarrow> gp_is_label_banned gp label | Some r \<Rightarrow> bl_banned r)"

definition extension_barred :: "governance_params \<Rightarrow> vns_db \<Rightarrow> string \<Rightarrow> u64 \<Rightarrow> bool" where
  "extension_barred gp db ext height =
     (case get_banned_extension_policy ext height (db_banned_extension_policy db) of
        None \<Rightarrow> gp_is_extension_banned gp ext | Some r \<Rightarrow> be_banned r)"

definition label_premium :: "governance_params \<Rightarrow> vns_db \<Rightarrow> string \<Rightarrow> u64 \<Rightarrow> bool" where
  "label_premium gp db label height =
     (case get_premium_label_policy label height (db_premium_label_policy db) of
        None \<Rightarrow> gp_is_premium_label gp label | Some r \<Rightarrow> prem_active r)"

definition extension_tier_at :: "governance_params \<Rightarrow> vns_db \<Rightarrow> string \<Rightarrow> u64 \<Rightarrow> u8" where
  "extension_tier_at gp db ext height =
     (case get_extension_policy ext height (db_extension_policy db) of
        Some r \<Rightarrow> ext_tier r
      | None \<Rightarrow> if gp_has_extension_tier_mapping gp ext then gp_get_tier_for_extension gp ext
                else TIER_PREMIUM)"

definition tier_override :: "vns_db \<Rightarrow> string \<Rightarrow> u64 \<Rightarrow> u8 option" where
  "tier_override db name height =
     (case get_exact_domain_tier_policy name height (db_exact_tier_policy db) of
        None \<Rightarrow> None
      | Some r \<Rightarrow> if edt_has_tier_override r then Some (edt_tier r) else None)"

text \<open>A name is withheld by a pending proposal, by an exact ban, or by a ban of one of its parts.\<close>

definition name_barred :: "governance_params \<Rightarrow> vns_db \<Rightarrow> string \<Rightarrow> string \<Rightarrow> string \<Rightarrow> u64 \<Rightarrow> bool" where
  "name_barred gp db name label ext height \<longleftrightarrow>
     exact_ban db name height \<noteq> None \<or> label_barred gp db label height
     \<or> extension_barred gp db ext height \<or> gp_is_label_banned gp ext"

text \<open>The tier: a premium label beats an exact override, which beats the extension's tier.\<close>

definition tier_at :: "governance_params \<Rightarrow> vns_db \<Rightarrow> string \<Rightarrow> string \<Rightarrow> string \<Rightarrow> u64 \<Rightarrow> u8" where
  "tier_at gp db name label ext height =
     (if label_premium gp db label height then TIER_PREMIUM
      else case tier_override db name height of
             Some t \<Rightarrow> t | None \<Rightarrow> extension_tier_at gp db ext height)"

definition fee_at :: "governance_params \<Rightarrow> vns_db \<Rightarrow> u8 \<Rightarrow> u64 \<Rightarrow> u64" where
  "fee_at gp db t height =
     (if t = TIER_PREMIUM then PREMIUM_TIER_FEE
      else case get_parameter (tier_fee_parameter t) height (db_parameters db) of
             Some v \<Rightarrow> v | None \<Rightarrow> tier_fees gp ! unat t)"

lemma initial_result_simps [simp]:
  "registration_allowed (initial_result r)" "\<not> dp_pending (initial_result r)"
  "\<not> dp_banned (initial_result r)" "dp_fee (initial_result r) = 0"
  by (simp_all add: initial_result_def)

lemma global_bans_eq:
  "global_bans gp db label ext height res = (b, res') \<Longrightarrow>
   b = (label_barred gp db label height \<or> extension_barred gp db ext height \<or> gp_is_label_banned gp ext)
   \<and> registration_allowed res' = registration_allowed res \<and> dp_pending res' = dp_pending res
   \<and> dp_banned res' = dp_banned res \<and> dp_fee res' = dp_fee res"
  by (auto simp: global_bans_def label_barred_def extension_barred_def Let_def
      split: option.splits)

lemma tier_premium_step:
  "dp_tier (premium_step gp db label height (tier_step gp db name ext height res)) =
     tier_at gp db name label ext height"
  "registration_allowed (premium_step gp db label height (tier_step gp db name ext height res)) =
     registration_allowed res"
  "dp_pending (premium_step gp db label height (tier_step gp db name ext height res)) = dp_pending res"
  "dp_banned (premium_step gp db label height (tier_step gp db name ext height res)) = dp_banned res"
  by (simp_all add: premium_step_def tier_step_def tier_at_def label_premium_def tier_override_def
      extension_tier_at_def Let_def split: option.splits)

lemma get_parameter_record_value:
  "get_parameter p height t = map_option prm_value (get_parameter_record p height t)"
  by (simp add: get_parameter_def get_parameter_record_def)

lemma fee_step_eq:
  assumes "fee_step gp db height res = (ok, res')"
  shows "(ok \<longleftrightarrow> dp_tier res \<le> TIER_PREMIUM) \<and> (ok \<longrightarrow> dp_fee res' = fee_at gp db (dp_tier res) height)
    \<and> dp_tier res' = dp_tier res \<and> registration_allowed res' = registration_allowed res
    \<and> dp_pending res' = dp_pending res \<and> dp_banned res' = dp_banned res"
proof -
  have "dp_tier res \<noteq> 6 \<Longrightarrow> dp_tier res \<le> 6 \<longleftrightarrow> \<not> 5 < dp_tier res" by unat_arith
  then show ?thesis
    using assms
    by (auto simp: fee_step_def fee_at_def get_parameter_record_value split: if_splits option.splits)
qed

lemma normalized_cases:
  assumes "normalize_vns_domain d = n" "n \<noteq> []"
  obtains l e where "parse_vns_domain n = Some (l, e)" "n = l @ dotdot @ e"
    "canonical_label l" "canonical_ext e" "is_valid_vns_extension e"
proof -
  from assms normalize_vns_domain_canonical [of d] have "canonical_domain n" by auto
  then show ?thesis
    by (rule canonical_parse) (use that in \<open>auto simp: canonical_ext_valid\<close>)
qed

text \<open>What the resolver returns for a name with label \<open>l\<close> and extension \<open>e\<close>.\<close>

lemma resolve_cases:
  assumes n: "normalize_vns_domain d = n" "n \<noteq> []" "parse_vns_domain n = Some (l, e)"
    and r: "resolve_domain_policy gp db d height res = (ok, res')"
  shows "if pending_lock db n \<noteq> None \<or> name_barred gp db n l e height
    then ok \<and> \<not> registration_allowed res' \<and> dp_fee res' = 0
      \<and> dp_pending res' = (pending_lock db n \<noteq> None) \<and> dp_banned res' = (pending_lock db n = None)
    else registration_allowed res' \<and> \<not> dp_pending res' \<and> \<not> dp_banned res'
      \<and> dp_tier res' = tier_at gp db n l e height
      \<and> (ok \<longleftrightarrow> tier_at gp db n l e height \<le> TIER_PREMIUM)
      \<and> (ok \<longrightarrow> dp_fee res' = fee_at gp db (tier_at gp db n l e height) height)"
proof -
  obtain b r1 where g: "global_bans gp db l e height (initial_result res) = (b, r1)"
    by fastforce
  note g' = global_bans_eq [OF g]
  obtain ok2 r2 where f: "fee_step gp db height
      (premium_step gp db l height (tier_step gp db n e height r1)) = (ok2, r2)"
    by fastforce
  note f' = fee_step_eq [OF f, unfolded tier_premium_step]
  have ext: "is_valid_vns_extension e"
    by (rule normalized_cases [OF n(1,2)]) (use n(3) in auto)
  note unfold = r [unfolded resolve_domain_policy_def Let_def n(1) n(3)]
  show ?thesis
  proof (cases "pending_lock db n")
    case (Some rec)
    with unfold n(2) ext show ?thesis by auto
  next
    case none: None
    show ?thesis
    proof (cases "exact_ban db n height")
      case (Some rec)
      with unfold none n(2) ext show ?thesis by (auto simp: name_barred_def)
    next
      case None
      with unfold none n(2) ext g have "if b then ok \<and> res' = r1\<lparr>registration_allowed := False,
          dp_banned := True, dp_tier := 5, dp_source := BANNED\<rparr> else (ok, res') = (ok2, r2)"
        by (cases b) (simp_all add: f)
      with none None g' f' show ?thesis by (cases b) (simp_all add: name_barred_def)
    qed
  qed
qed

text \<open>The resolver fails on every string that does not normalise.\<close>

lemma resolve_invalid:
  "normalize_vns_domain d = [] \<Longrightarrow> resolve_domain_policy gp db d height res = (False, res)"
  by (simp add: resolve_domain_policy_def)

lemma resolve_normalized:
  "normalize_vns_domain d' = normalize_vns_domain d \<Longrightarrow>
   resolve_domain_policy gp db d' height res = resolve_domain_policy gp db d height res"
  by (simp add: resolve_domain_policy_def)

section \<open>Records have no effect below their activation height\<close>

text \<open>Two databases with the same policy records up to a height.\<close>

definition agree_upto :: "u64 \<Rightarrow> vns_db \<Rightarrow> vns_db \<Rightarrow> bool" where
  "agree_upto h db db' \<longleftrightarrow>
     {r \<in> set (db_parameters db). activation_height r \<le> h} =
       {r \<in> set (db_parameters db'). activation_height r \<le> h}
     \<and> {r \<in> set (db_extension_policy db). activation_height r \<le> h} =
       {r \<in> set (db_extension_policy db'). activation_height r \<le> h}
     \<and> {r \<in> set (db_premium_label_policy db). activation_height r \<le> h} =
       {r \<in> set (db_premium_label_policy db'). activation_height r \<le> h}
     \<and> {r \<in> set (db_banned_label_policy db). activation_height r \<le> h} =
       {r \<in> set (db_banned_label_policy db'). activation_height r \<le> h}
     \<and> {r \<in> set (db_banned_extension_policy db). activation_height r \<le> h} =
       {r \<in> set (db_banned_extension_policy db'). activation_height r \<le> h}
     \<and> {r \<in> set (db_exact_ban_policy db). activation_height r \<le> h} =
       {r \<in> set (db_exact_ban_policy db'). activation_height r \<le> h}
     \<and> {r \<in> set (db_exact_tier_policy db). activation_height r \<le> h} =
       {r \<in> set (db_exact_tier_policy db'). activation_height r \<le> h}"

lemma Collect_conj_cong: "{x \<in> A. P x} = {x \<in> B. P x} \<Longrightarrow> {x \<in> A. Q x \<and> P x} = {x \<in> B. Q x \<and> P x}"
  by blast

lemma agree_lookups:
  assumes "tables_wf db" "tables_wf db'" "agree_upto h db db'"
  shows "get_parameter_record p h (db_parameters db) = get_parameter_record p h (db_parameters db')"
    "get_extension_policy s h (db_extension_policy db) = get_extension_policy s h (db_extension_policy db')"
    "get_premium_label_policy s h (db_premium_label_policy db) =
       get_premium_label_policy s h (db_premium_label_policy db')"
    "get_banned_label_policy s h (db_banned_label_policy db) =
       get_banned_label_policy s h (db_banned_label_policy db')"
    "get_banned_extension_policy s h (db_banned_extension_policy db) =
       get_banned_extension_policy s h (db_banned_extension_policy db')"
    "get_exact_domain_ban_policy s h (db_exact_ban_policy db) =
       get_exact_domain_ban_policy s h (db_exact_ban_policy db')"
    "get_exact_domain_tier_policy s h (db_exact_tier_policy db) =
       get_exact_domain_tier_policy s h (db_exact_tier_policy db')"
proof -
  note wf = tables_wfD [OF assms(1)] and wf' = tables_wfD [OF assms(2)]
  note eq = assms(3) [unfolded agree_upto_def]
  show "get_parameter_record p h (db_parameters db) = get_parameter_record p h (db_parameters db')"
    by (rule param_tab.get_local [OF wf(1) wf'(1)], rule Collect_conj_cong) (simp only: eq)
  show "get_extension_policy s h (db_extension_policy db) = get_extension_policy s h (db_extension_policy db')"
    by (rule ext_tab.get_local [OF wf(2) wf'(2)], rule Collect_conj_cong) (simp only: eq)
  show "get_premium_label_policy s h (db_premium_label_policy db) =
      get_premium_label_policy s h (db_premium_label_policy db')"
    by (rule prem_tab.get_local [OF wf(3) wf'(3)], rule Collect_conj_cong) (simp only: eq)
  show "get_banned_label_policy s h (db_banned_label_policy db) =
      get_banned_label_policy s h (db_banned_label_policy db')"
    by (rule blab_tab.get_local [OF wf(4) wf'(4)], rule Collect_conj_cong) (simp only: eq)
  show "get_banned_extension_policy s h (db_banned_extension_policy db) =
      get_banned_extension_policy s h (db_banned_extension_policy db')"
    by (rule bext_tab.get_local [OF wf(5) wf'(5)], rule Collect_conj_cong) (simp only: eq)
  show "get_exact_domain_ban_policy s h (db_exact_ban_policy db) =
      get_exact_domain_ban_policy s h (db_exact_ban_policy db')"
    by (rule eban_tab.get_local [OF wf(6) wf'(6)], rule Collect_conj_cong) (simp only: eq)
  show "get_exact_domain_tier_policy s h (db_exact_tier_policy db) =
      get_exact_domain_tier_policy s h (db_exact_tier_policy db')"
    by (rule etier_tab.get_local [OF wf(7) wf'(7)], rule Collect_conj_cong) (simp only: eq)
qed

lemma agree_steps:
  assumes "tables_wf db" "tables_wf db'" "agree_upto h db db'"
  shows "exact_ban db n h = exact_ban db' n h"
    and "global_bans gp db l e h res = global_bans gp db' l e h res"
    and "tier_step gp db n e h res = tier_step gp db' n e h res"
    and "premium_step gp db l h res = premium_step gp db' l h res"
    and "fee_step gp db h res = fee_step gp db' h res"
  by (simp_all add: exact_ban_def global_bans_def tier_step_def premium_step_def
      fee_step_def agree_lookups [OF assms])

lemma resolve_agree:
  assumes "tables_wf db" "tables_wf db'" "agree_upto h db db'"
    and "pending_lock db (normalize_vns_domain d) = pending_lock db' (normalize_vns_domain d)"
  shows "resolve_domain_policy gp db d h res = resolve_domain_policy gp db' d h res"
  unfolding resolve_domain_policy_def Let_def agree_steps [OF assms(1-3)] assms(4) by (rule refl)

section \<open>Properties\<close>


lemma ex_policy:
  "tier_at sample_params empty_db ''ab..com'' ''ab'' ''com'' 10 = 0"
  "pending_lock empty_db ''ab..com'' = None" "exact_ban empty_db ''ab..com'' 10 = None"
  "\<not> label_barred sample_params empty_db ''ab'' 10" "\<not> extension_barred sample_params empty_db ''com'' 10"
  "\<not> gp_is_label_banned sample_params ''com''" "fee_at sample_params empty_db 0 10 = 100000000000"
  by (simp_all add: tier_at_def label_premium_def tier_override_def extension_tier_at_def empty_db_def
      sample_params_def gp_is_premium_label_def gp_has_extension_tier_mapping_def
      gp_get_tier_for_extension_def pending_lock_def exact_ban_def get_premium_label_policy_def
      get_exact_domain_tier_policy_def get_extension_policy_def get_pending_domain_policy_def
      get_exact_domain_ban_policy_def label_barred_def extension_barred_def fee_at_def
      get_banned_label_policy_def get_banned_extension_policy_def gp_is_label_banned_def
      gp_is_extension_banned_def get_parameter_def TIER_FEES_def)


end
