(* ===== verification/Binary_Archive.thy ===== *)
theory Binary_Archive
  imports Domain_Policy
begin

text \<open>
  The binary archive of \<^verbatim>\<open>src/src/serialization\<close> (\<^verbatim>\<open>binary_archive.h\<close>, \<^verbatim>\<open>container.h\<close>,
  \<^verbatim>\<open>string.h\<close>) on the types the governance payloads use, and the varints of
  \<^verbatim>\<open>src/src/common/varint.h\<close>. A reader takes the remaining bytes and returns the value with
  what is left; \<open>None\<close> is an archive that is no longer good, on which every caller returns false.
  \<^verbatim>\<open>read_varint\<close> does not fail when the input ends inside a varint: it returns the bits read so
  far, and so does the model.
\<close>

section \<open>Varints\<close>

fun write_varint :: "nat \<Rightarrow> bytes" where
  "write_varint i =
     (if 128 \<le> i then byte_of (i mod 128 + 128) # write_varint (i div 128) else [byte_of i])"

declare write_varint.simps [simp del]

text \<open>
  The loop of \<^verbatim>\<open>read_varint<bits>\<close>. The bits of \<open>acc\<close> below \<open>shift\<close> and of the new byte are disjoint,
  so that \<^verbatim>\<open>|=\<close> is addition. \<open>None\<close> stands for \<^verbatim>\<open>EVARINT_OVERFLOW\<close> and \<^verbatim>\<open>EVARINT_REPRESENT\<close>.
\<close>

fun read_varint_loop :: "nat \<Rightarrow> nat \<Rightarrow> nat \<Rightarrow> bytes \<Rightarrow> (nat \<times> bytes) option" where
  "read_varint_loop bits shift acc [] = Some (acc, [])"
| "read_varint_loop bits shift acc (c # bs) =
     (let byte = byte_val c in
      if bits \<le> shift + 7 \<and> 2 ^ (bits - shift) \<le> byte then None
      else if byte = 0 \<and> shift \<noteq> 0 then None
      else
        let acc = acc + byte mod 128 * 2 ^ shift in
        if byte < 128 then Some (acc, bs) else read_varint_loop bits (shift + 7) acc bs)"

definition read_varint :: "nat \<Rightarrow> bytes \<Rightarrow> (nat \<times> bytes) option" where
  "read_varint bits bs = read_varint_loop bits 0 0 bs"

lemma read_varint_loop_write:
  assumes "v < 2 ^ (bits - shift)" "v \<noteq> 0 \<or> shift = 0" "shift \<le> bits"
  shows "read_varint_loop bits shift acc (write_varint v @ r) = Some (acc + v * 2 ^ shift, r)"
  using assms
proof (induction v arbitrary: shift acc rule: write_varint.induct)
  case (1 v)
  show ?case
  proof (cases "128 \<le> v")
    case True
    have fits: "\<not> bits \<le> shift + 7"
    proof
      assume "bits \<le> shift + 7"
      then have "(2::nat) ^ (bits - shift) \<le> 2 ^ 7" by (intro power_increasing) auto
      with "1.prems"(1) True show False by simp
    qed
    have "v < 2 ^ 7 * 2 ^ (bits - (shift + 7))"
      using "1.prems"(1) fits by (simp only: power_add [symmetric]) (simp add: algebra_simps)
    then have "v div 128 < 2 ^ (bits - (shift + 7))"
      by (simp add: less_mult_imp_div_less mult.commute)
    moreover have "v div 128 \<noteq> 0" using True by (simp add: div_eq_0_iff)
    ultimately have "read_varint_loop bits (shift + 7) (acc + v mod 128 * 2 ^ shift)
        (write_varint (v div 128) @ r) =
        Some (acc + v mod 128 * 2 ^ shift + v div 128 * 2 ^ (shift + 7), r)"
      using fits True by (intro "1.IH") auto
    moreover have "v mod 128 * 2 ^ shift + v div 128 * 2 ^ (shift + 7) = v * 2 ^ shift"
    proof -
      have "v * 2 ^ shift = (v div 128 * 128 + v mod 128) * 2 ^ shift" by simp
      then show ?thesis by (simp only: power_add distrib_right) simp
    qed
    ultimately show ?thesis
      using True fits
      by (subst write_varint.simps) (simp add: Let_def add.assoc)
  next
    case False
    then show ?thesis
      using "1.prems" by (subst write_varint.simps) (auto simp: Let_def)
  qed
qed

text \<open>A varint that is not cut off by the end of the input is the one the writer produces.\<close>

lemma read_varint_loop_canonical:
  assumes "read_varint_loop bits shift acc bs = Some (n, r)"
  shows "(\<exists>v. bs = write_varint v @ r \<and> n = acc + v * 2 ^ shift \<and> (v \<noteq> 0 \<or> shift = 0 \<or> bs = []))
    \<or> r = [] \<and> (\<forall>c \<in> set bs. 128 \<le> byte_val c)"
  using assms
proof (induction bits shift acc bs rule: read_varint_loop.induct)
  case (1 bits shift acc)
  then show ?case by simp
next
  case (2 bits shift acc c bs)
  let ?acc = "acc + byte_val c mod 128 * 2 ^ shift"
  show ?case
  proof (cases "byte_val c < 128")
    case True
    with "2.prems" have "bs = r" "n = acc + byte_val c * 2 ^ shift" "byte_val c \<noteq> 0 \<or> shift = 0"
      by (auto simp: Let_def split: if_splits)
    with True show ?thesis
      by (intro disjI1 exI [of _ "byte_val c"]) (simp add: write_varint.simps)
  next
    case False
    with "2.prems" have "read_varint_loop bits (shift + 7) ?acc bs = Some (n, r)"
      by (auto simp: Let_def split: if_splits)
    moreover have "byte_val c \<noteq> 0" using False by simp
    ultimately consider (w) v where "bs = write_varint v @ r" "n = ?acc + v * 2 ^ (shift + 7)"
        "v \<noteq> 0" | (t) "r = []" "\<forall>d \<in> set bs. 128 \<le> byte_val d"
      using "2.IH" [OF refl _ _ refl] "2.prems" False
      by (auto simp: Let_def split: if_splits)
    then show ?thesis
    proof cases
      case w
      let ?v = "byte_val c mod 128 + 128 * v"
      have "128 \<le> ?v" using w(3) by simp
      moreover have "?v div 128 = v" by simp
      moreover have "?v mod 128 + 128 = byte_val c"
      proof -
        have "byte_val c - 128 < 128" using byte_val_less [of c] by linarith
        then have "byte_val c mod 128 = byte_val c - 128" using False by (simp add: le_mod_geq)
        moreover have "?v mod 128 = byte_val c mod 128" by simp
        ultimately show ?thesis using False by linarith
      qed
      ultimately have "c # bs = write_varint ?v @ r"
        using w(1) by (subst write_varint.simps) simp
      moreover have "n = acc + ?v * 2 ^ shift"
        using w(2) by (simp add: power_add algebra_simps)
      ultimately show ?thesis using w(3) by (intro disjI1 exI [of _ ?v]) simp
    next
      case t
      with False show ?thesis by auto
    qed
  qed
qed

text \<open>\<^verbatim>\<open>VARINT_FIELD\<close> of a \<^verbatim>\<open>uint8_t\<close> (or an enumeration over it) and of a \<^verbatim>\<open>uint64_t\<close>.\<close>

definition put_varint8 :: "u8 \<Rightarrow> bytes" where
  "put_varint8 w = write_varint (unat w)"

definition get_varint8 :: "bytes \<Rightarrow> (u8 \<times> bytes) option" where
  "get_varint8 bs = map_option (\<lambda>(n, r). (word_of_nat n, r)) (read_varint 8 bs)"

definition put_varint64 :: "u64 \<Rightarrow> bytes" where
  "put_varint64 w = write_varint (unat w)"

definition get_varint64 :: "bytes \<Rightarrow> (u64 \<times> bytes) option" where
  "get_varint64 bs = map_option (\<lambda>(n, r). (word_of_nat n, r)) (read_varint 64 bs)"

interpretation varint: byte_codec write_varint "read_varint bits" "\<lambda>n. n < 2 ^ bits" for bits
  by unfold_locales (simp add: read_varint_def read_varint_loop_write)

interpretation varint8: byte_codec put_varint8 get_varint8 "\<lambda>_. True"
proof
  fix x :: u8 and r
  have "unat x < 2 ^ 8" using unat_bounds(1) [of x] by simp
  then show "get_varint8 (put_varint8 x @ r) = Some (x, r)"
    by (simp add: get_varint8_def put_varint8_def varint.dec_enc)
qed

interpretation varint64: byte_codec put_varint64 get_varint64 "\<lambda>_. True"
proof
  fix x :: u64 and r
  have "unat x < 2 ^ 64" using unat_bounds(3) [of x] by simp
  then show "get_varint64 (put_varint64 x @ r) = Some (x, r)"
    by (simp add: get_varint64_def put_varint64_def varint.dec_enc)
qed

section \<open>Fields\<close>

text \<open>
  A \<^verbatim>\<open>bool\<close> is a blob of one byte. The standard leaves a \<^verbatim>\<open>bool\<close> whose byte is neither 0 nor 1 without
  meaning; the model takes every other byte as true.
\<close>

definition get_bool :: "bytes \<Rightarrow> (bool \<times> bytes) option" where
  "get_bool bs = (case bs of [] \<Rightarrow> None | c # r \<Rightarrow> Some (byte_val c \<noteq> 0, r))"

text \<open>\<^verbatim>\<open>size_t\<close> has 64 bits; a length above what is left makes the archive fail.\<close>

definition put_string :: "string \<Rightarrow> bytes" where
  "put_string s = write_varint (length s) @ s"

definition get_string :: "bytes \<Rightarrow> (string \<times> bytes) option" where
  "get_string bs =
     (case read_varint 64 bs of
        None \<Rightarrow> None
      | Some (sz, r) \<Rightarrow> if length r < sz then None else Some (take sz r, drop sz r))"

definition put_vector :: "('a \<Rightarrow> bytes) \<Rightarrow> 'a list \<Rightarrow> bytes" where
  "put_vector enc xs = write_varint (length xs) @ concat (map enc xs)"

definition get_vector :: "(bytes \<Rightarrow> ('a \<times> bytes) option) \<Rightarrow> bytes \<Rightarrow> ('a list \<times> bytes) option" where
  "get_vector dec bs =
     (case read_varint 64 bs of
        None \<Rightarrow> None
      | Some (cnt, r) \<Rightarrow> if length r < cnt then None else get_n dec cnt r)"

interpretation bool8: byte_codec put_bool get_bool "\<lambda>_. True"
  by unfold_locales (simp add: put_bool_def get_bool_def)

interpretation str: byte_codec put_string get_string "\<lambda>s. length s < 2 ^ 64"
proof
  fix x :: string and r
  assume "length x < 2 ^ 64"
  then show "get_string (put_string x @ r) = Some (x, r)"
    using varint.dec_enc [of "length x" 64 "x @ r"] by (simp add: get_string_def put_string_def)
qed

lemma length_concat_ge:
  "\<forall>x \<in> set xs. enc x \<noteq> [] \<Longrightarrow> length xs \<le> length (concat (map enc xs))"
proof (induction xs)
  case Nil
  then show ?case by simp
next
  case (Cons x xs)
  then show ?case by (cases "enc x") auto
qed

lemma get_vector_put:
  assumes "byte_codec enc dec ok" "\<forall>x \<in> set xs. ok x \<and> enc x \<noteq> []" "length xs < 2 ^ 64"
  shows "get_vector dec (put_vector enc xs @ r) = Some (xs, r)"
proof -
  have "get_n dec (length xs) (concat (map enc xs) @ r) = Some (xs, r)"
    using byte_codec.dec_list_enc [OF assms(1)] assms(2) by blast
  moreover have "length xs \<le> length (concat (map enc xs))"
    using assms(2) by (intro length_concat_ge) auto
  ultimately show ?thesis
    using varint.dec_enc [OF assms(3)] by (simp add: get_vector_def put_vector_def)
qed

text \<open>\<^verbatim>\<open>serialization::serialize\<close> into an object: the whole input must be consumed.\<close>

definition parse_all :: "(bytes \<Rightarrow> ('a \<times> bytes) option) \<Rightarrow> bytes \<Rightarrow> 'a option" where
  "parse_all dec bs = (case dec bs of Some (x, []) \<Rightarrow> Some x | _ \<Rightarrow> None)"

context byte_codec
begin

lemma parse_all_enc: "ok x \<Longrightarrow> parse_all dec (enc x) = Some x"
  using dec_enc [of x "[]"] by (simp add: parse_all_def)

end

end
