(* ===== verification/Governance_Payloads.thy ===== *)
theory Governance_Payloads
  imports Binary_Archive
begin

text \<open>
  The structures that governance transactions carry, with the binary form their
  \<^verbatim>\<open>BEGIN_SERIALIZE\<close> blocks define: the update payloads of
  \<^verbatim>\<open>src/src/governance/parameter_update.h\<close>, the envelope of \<^verbatim>\<open>governance_payload.h\<close>, the
  proposal of \<^verbatim>\<open>proposal.h\<close> and the vote of \<^verbatim>\<open>vote_proof.h\<close>. A serialisation block is a writer
  (\<open>put_\<close>) and a reader (\<open>get_\<close>). Each pair is an interpretation of \<open>byte_codec\<close>, so that every
  payload is read back as it was written, and no payload is a prefix of another.
\<close>

section \<open>Update payloads\<close>

text \<open>A parameter is kept as the byte that was read, which need not name an enumerator.\<close>

record parameter_update_entry =
  pue_parameter :: u8
  pue_value :: u64

record parameter_update_payload =
  pup_version :: u8
  pup_entries :: "parameter_update_entry list"

record extension_update_payload =
  eup_version :: u8
  eup_extension :: string
  eup_tier :: u8

record label_policy_update_payload =
  lpu_version :: u8
  lpu_term :: string
  lpu_enable :: bool

record exact_domain_tier_update_payload =
  edtu_version :: u8
  edtu_domain :: string
  edtu_enable :: bool
  edtu_tier :: u8

record exact_domain_ban_update_payload =
  edbu_version :: u8
  edbu_domain :: string
  edbu_enable :: bool

record parameter_execution_payload =
  pex_version :: u8
  pex_proposal_id :: hash32

definition put_update_entry :: "parameter_update_entry \<Rightarrow> bytes" where
  "put_update_entry e = put_varint8 (pue_parameter e) @ put_varint64 (pue_value e)"

definition get_update_entry :: "bytes \<Rightarrow> (parameter_update_entry \<times> bytes) option" where
  "get_update_entry bs = do {
     (param, bs) \<leftarrow> get_varint8 bs;
     (val, bs) \<leftarrow> get_varint64 bs;
     Some (\<lparr>pue_parameter = param, pue_value = val\<rparr>, bs)
   }"

definition put_parameter_update :: "parameter_update_payload \<Rightarrow> bytes" where
  "put_parameter_update p = put_varint8 (pup_version p) @ put_vector put_update_entry (pup_entries p)"

definition get_parameter_update :: "bytes \<Rightarrow> (parameter_update_payload \<times> bytes) option" where
  "get_parameter_update bs = do {
     (ver, bs) \<leftarrow> get_varint8 bs;
     (es, bs) \<leftarrow> get_vector get_update_entry bs;
     Some (\<lparr>pup_version = ver, pup_entries = es\<rparr>, bs)
   }"

definition put_extension_update :: "extension_update_payload \<Rightarrow> bytes" where
  "put_extension_update p =
     put_varint8 (eup_version p) @ put_string (eup_extension p) @ put_varint8 (eup_tier p)"

definition get_extension_update :: "bytes \<Rightarrow> (extension_update_payload \<times> bytes) option" where
  "get_extension_update bs = do {
     (ver, bs) \<leftarrow> get_varint8 bs;
     (ext, bs) \<leftarrow> get_string bs;
     (tr, bs) \<leftarrow> get_varint8 bs;
     Some (\<lparr>eup_version = ver, eup_extension = ext, eup_tier = tr\<rparr>, bs)
   }"

definition put_label_update :: "label_policy_update_payload \<Rightarrow> bytes" where
  "put_label_update p =
     put_varint8 (lpu_version p) @ put_string (lpu_term p) @ put_bool (lpu_enable p)"

definition get_label_update :: "bytes \<Rightarrow> (label_policy_update_payload \<times> bytes) option" where
  "get_label_update bs = do {
     (ver, bs) \<leftarrow> get_varint8 bs;
     (term, bs) \<leftarrow> get_string bs;
     (en, bs) \<leftarrow> get_bool bs;
     Some (\<lparr>lpu_version = ver, lpu_term = term, lpu_enable = en\<rparr>, bs)
   }"

definition put_domain_tier_update :: "exact_domain_tier_update_payload \<Rightarrow> bytes" where
  "put_domain_tier_update p =
     put_varint8 (edtu_version p) @ put_string (edtu_domain p) @ put_bool (edtu_enable p)
     @ put_varint8 (edtu_tier p)"

definition get_domain_tier_update :: "bytes \<Rightarrow> (exact_domain_tier_update_payload \<times> bytes) option" where
  "get_domain_tier_update bs = do {
     (ver, bs) \<leftarrow> get_varint8 bs;
     (dom, bs) \<leftarrow> get_string bs;
     (en, bs) \<leftarrow> get_bool bs;
     (tr, bs) \<leftarrow> get_varint8 bs;
     Some (\<lparr>edtu_version = ver, edtu_domain = dom, edtu_enable = en, edtu_tier = tr\<rparr>, bs)
   }"

definition put_domain_ban_update :: "exact_domain_ban_update_payload \<Rightarrow> bytes" where
  "put_domain_ban_update p =
     put_varint8 (edbu_version p) @ put_string (edbu_domain p) @ put_bool (edbu_enable p)"

definition get_domain_ban_update :: "bytes \<Rightarrow> (exact_domain_ban_update_payload \<times> bytes) option" where
  "get_domain_ban_update bs = do {
     (ver, bs) \<leftarrow> get_varint8 bs;
     (dom, bs) \<leftarrow> get_string bs;
     (en, bs) \<leftarrow> get_bool bs;
     Some (\<lparr>edbu_version = ver, edbu_domain = dom, edbu_enable = en\<rparr>, bs)
   }"

definition put_execution_payload :: "parameter_execution_payload \<Rightarrow> bytes" where
  "put_execution_payload p = put_varint8 (pex_version p) @ pex_proposal_id p"

definition get_execution_payload :: "bytes \<Rightarrow> (parameter_execution_payload \<times> bytes) option" where
  "get_execution_payload bs = do {
     (ver, bs) \<leftarrow> get_varint8 bs;
     (pid, bs) \<leftarrow> get_raw 32 bs;
     Some (\<lparr>pex_version = ver, pex_proposal_id = pid\<rparr>, bs)
   }"

section \<open>The envelope, proposals and votes\<close>

text \<open>The values of \<^verbatim>\<open>enum class governance_object\<close>; the type is kept as the byte that was read.\<close>

abbreviation (input) GO_proposal :: u8 where "GO_proposal \<equiv> 0"
abbreviation (input) GO_vote :: u8 where "GO_vote \<equiv> 1"
abbreviation (input) GO_execution :: u8 where "GO_execution \<equiv> 2"
abbreviation (input) GO_vote_v2 :: u8 where "GO_vote_v2 \<equiv> 3"

record governance_payload =
  gpl_type :: u8
  gpl_data :: bytes

definition put_governance_payload :: "governance_payload \<Rightarrow> bytes" where
  "put_governance_payload p = put_varint8 (gpl_type p) @ put_string (gpl_data p)"

definition get_governance_payload :: "bytes \<Rightarrow> (governance_payload \<times> bytes) option" where
  "get_governance_payload bs = do {
     (ty, bs) \<leftarrow> get_varint8 bs;
     (d, bs) \<leftarrow> get_string bs;
     Some (\<lparr>gpl_type = ty, gpl_data = d\<rparr>, bs)
   }"

abbreviation (input) ACTION_treasury_payment :: u8 where "ACTION_treasury_payment \<equiv> 0"
abbreviation (input) ACTION_parameter_change :: u8 where "ACTION_parameter_change \<equiv> 1"

record proposal =
  p_version :: u8
  p_metadata_hash :: hash32
  p_action :: u8
  p_amount :: u64
  p_spend_public_key :: bytes
  p_view_public_key :: bytes
  p_recipient_view_public_key :: bytes
  p_is_subaddress :: bool
  p_voting_start_height :: u64
  p_voting_end_height :: u64
  p_voting_period_days :: u8
  p_title :: bytes
  p_description :: bytes

definition put_proposal :: "proposal \<Rightarrow> bytes" where
  "put_proposal p =
     put_u8 (p_version p) @ p_metadata_hash p @ put_varint8 (p_action p) @ put_varint64 (p_amount p)
     @ p_spend_public_key p @ p_view_public_key p @ p_recipient_view_public_key p
     @ put_bool (p_is_subaddress p) @ put_varint64 (p_voting_start_height p)
     @ put_varint64 (p_voting_end_height p) @ put_varint8 (p_voting_period_days p)
     @ put_string (p_title p) @ put_string (p_description p)"

definition get_proposal :: "bytes \<Rightarrow> (proposal \<times> bytes) option" where
  "get_proposal bs = do {
     (ver, bs) \<leftarrow> get_u8 bs;
     (mh, bs) \<leftarrow> get_raw 32 bs;
     (act, bs) \<leftarrow> get_varint8 bs;
     (amt, bs) \<leftarrow> get_varint64 bs;
     (spk, bs) \<leftarrow> get_raw 32 bs;
     (vpk, bs) \<leftarrow> get_raw 32 bs;
     (rvk, bs) \<leftarrow> get_raw 32 bs;
     (sub, bs) \<leftarrow> get_bool bs;
     (vs, bs) \<leftarrow> get_varint64 bs;
     (ve, bs) \<leftarrow> get_varint64 bs;
     (days, bs) \<leftarrow> get_varint8 bs;
     (tl, bs) \<leftarrow> get_string bs;
     (ds, bs) \<leftarrow> get_string bs;
     Some (\<lparr>p_version = ver, p_metadata_hash = mh, p_action = act, p_amount = amt,
       p_spend_public_key = spk, p_view_public_key = vpk, p_recipient_view_public_key = rvk,
       p_is_subaddress = sub, p_voting_start_height = vs, p_voting_end_height = ve,
       p_voting_period_days = days, p_title = tl, p_description = ds\<rparr>, bs)
   }"

record vote_proof =
  vp_version :: u8
  vp_proposal_id :: hash32
  vp_direction_yes :: bool
  vp_snapshot_height :: u64
  vp_participation_balance :: u64
  vp_voting_weight :: u64
  vp_voting_nullifiers :: "hash32 list"
  vp_output_heights :: "u64 list"
  vp_balance_commitment :: bytes
  vp_weight_commitment :: bytes
  vp_aggregate_proof :: bytes

definition put_vote_proof :: "vote_proof \<Rightarrow> bytes" where
  "put_vote_proof v =
     put_u8 (vp_version v) @ vp_proposal_id v @ put_bool (vp_direction_yes v)
     @ put_varint64 (vp_snapshot_height v) @ put_varint64 (vp_participation_balance v)
     @ put_varint64 (vp_voting_weight v) @ put_vector (\<lambda>h. h) (vp_voting_nullifiers v)
     @ put_vector put_varint64 (vp_output_heights v) @ vp_balance_commitment v
     @ vp_weight_commitment v @ put_string (vp_aggregate_proof v)"

definition get_vote_proof :: "bytes \<Rightarrow> (vote_proof \<times> bytes) option" where
  "get_vote_proof bs = do {
     (ver, bs) \<leftarrow> get_u8 bs;
     (pid, bs) \<leftarrow> get_raw 32 bs;
     (yes, bs) \<leftarrow> get_bool bs;
     (snap, bs) \<leftarrow> get_varint64 bs;
     (bal, bs) \<leftarrow> get_varint64 bs;
     (wt, bs) \<leftarrow> get_varint64 bs;
     (nfs, bs) \<leftarrow> get_vector (get_raw 32) bs;
     (ohs, bs) \<leftarrow> get_vector get_varint64 bs;
     (bc, bs) \<leftarrow> get_raw 32 bs;
     (wc, bs) \<leftarrow> get_raw 32 bs;
     (ap, bs) \<leftarrow> get_string bs;
     Some (\<lparr>vp_version = ver, vp_proposal_id = pid, vp_direction_yes = yes,
       vp_snapshot_height = snap, vp_participation_balance = bal, vp_voting_weight = wt,
       vp_voting_nullifiers = nfs, vp_output_heights = ohs, vp_balance_commitment = bc,
       vp_weight_commitment = wc, vp_aggregate_proof = ap\<rparr>, bs)
   }"

section \<open>Round trips\<close>

abbreviation (input) fits64 :: "'a list \<Rightarrow> bool" where "fits64 s \<equiv> length s < 2 ^ 64"

lemmas field_dec = varint8.dec_enc varint64.dec_enc bool8.dec_enc str.dec_enc u8.dec_enc raw.dec_enc

interpretation update_entry: byte_codec put_update_entry get_update_entry "\<lambda>_. True"
  by unfold_locales (simp add: put_update_entry_def get_update_entry_def field_dec)

lemma put_update_entry_nonempty [simp]: "put_update_entry e \<noteq> []"
  by (simp add: put_update_entry_def put_varint8_def write_varint.simps)

interpretation parameter_update:
  byte_codec put_parameter_update get_parameter_update "\<lambda>p. fits64 (pup_entries p)"
  by unfold_locales
    (simp add: put_parameter_update_def get_parameter_update_def field_dec
      get_vector_put [OF update_entry.byte_codec_axioms])

interpretation extension_update:
  byte_codec put_extension_update get_extension_update "\<lambda>p. fits64 (eup_extension p)"
  by unfold_locales (simp add: put_extension_update_def get_extension_update_def field_dec)

interpretation label_update:
  byte_codec put_label_update get_label_update "\<lambda>p. fits64 (lpu_term p)"
  by unfold_locales (simp add: put_label_update_def get_label_update_def field_dec)

interpretation domain_tier_update:
  byte_codec put_domain_tier_update get_domain_tier_update "\<lambda>p. fits64 (edtu_domain p)"
  by unfold_locales (simp add: put_domain_tier_update_def get_domain_tier_update_def field_dec)

interpretation domain_ban_update:
  byte_codec put_domain_ban_update get_domain_ban_update "\<lambda>p. fits64 (edbu_domain p)"
  by unfold_locales (simp add: put_domain_ban_update_def get_domain_ban_update_def field_dec)

interpretation execution_payload:
  byte_codec put_execution_payload get_execution_payload "\<lambda>p. length (pex_proposal_id p) = 32"
  by unfold_locales (simp add: put_execution_payload_def get_execution_payload_def field_dec)

interpretation envelope:
  byte_codec put_governance_payload get_governance_payload "\<lambda>p. fits64 (gpl_data p)"
  by unfold_locales (simp add: put_governance_payload_def get_governance_payload_def field_dec)

definition proposal_fits :: "proposal \<Rightarrow> bool" where
  "proposal_fits p \<longleftrightarrow>
     length (p_metadata_hash p) = 32 \<and> length (p_spend_public_key p) = 32
     \<and> length (p_view_public_key p) = 32 \<and> length (p_recipient_view_public_key p) = 32
     \<and> fits64 (p_title p) \<and> fits64 (p_description p)"

interpretation prop_codec: byte_codec put_proposal get_proposal proposal_fits
  by unfold_locales (simp add: put_proposal_def get_proposal_def proposal_fits_def field_dec)

definition vote_fits :: "vote_proof \<Rightarrow> bool" where
  "vote_fits v \<longleftrightarrow>
     length (vp_proposal_id v) = 32 \<and> length (vp_balance_commitment v) = 32
     \<and> length (vp_weight_commitment v) = 32 \<and> fits64 (vp_aggregate_proof v)
     \<and> fits64 (vp_voting_nullifiers v) \<and> (\<forall>h \<in> set (vp_voting_nullifiers v). length h = 32)
     \<and> fits64 (vp_output_heights v)"

lemma get_vector_hashes:
  "fits64 hs \<Longrightarrow> \<forall>h \<in> set hs. length h = 32 \<Longrightarrow>
   get_vector (get_raw 32) (put_vector (\<lambda>h. h) hs @ r) = Some (hs, r)"
  by (rule get_vector_put [OF raw.byte_codec_axioms]) auto

lemma get_vector_varints:
  "fits64 ws \<Longrightarrow> get_vector get_varint64 (put_vector put_varint64 ws @ r) = Some (ws, r)"
  by (rule get_vector_put [OF varint64.byte_codec_axioms])
    (simp_all add: put_varint64_def write_varint.simps)

interpretation vote_codec: byte_codec put_vote_proof get_vote_proof vote_fits
  by unfold_locales
    (simp add: put_vote_proof_def get_vote_proof_def vote_fits_def field_dec get_vector_hashes
      get_vector_varints)

end
