(* ===== verification/Tx_Extra.thy ===== *)
theory Tx_Extra
  imports Governance_Payloads
begin

text \<open>
  Transactions as the name system and the governance see them (\<^verbatim>\<open>cryptonote_basic.h\<close>), and the
  parser of the extra field, \<^verbatim>\<open>parse_tx_extra\<close> of \<^verbatim>\<open>cryptonote_format_utils.cpp\<close> over the field
  types of \<^verbatim>\<open>tx_extra.h\<close>. The lemmas show that the parser terminates and reads back what is
  written, field by field.
\<close>

section \<open>Transactions\<close>

datatype txout_target =
    txout_to_script "bytes list" bytes | txout_to_scripthash hash32 | txout_to_key bytes
  | txout_to_tagged_key bytes byte | txout_treasury u8 | txout_to_burn

datatype txin =
    txin_gen nat
  | txin_to_script hash32 nat bytes
  | txin_to_scripthash hash32 nat "bytes list" bytes bytes
  | txin_to_key u64 "u64 list" bytes
  | txin_vns_vote u64 "u64 list" (vote_k_image: bytes) bytes
  | txin_vns_eligible u64 "u64 list" bytes bytes bytes
  | txin_treasury hash32 u64

record transaction =
  tx_version :: nat
  tx_vin :: "txin list"
  tx_vout :: "(u64 \<times> txout_target) list"
  tx_extra :: bytes

section \<open>Fields\<close>

record grant_payout_info =
  gpi_proposal_id :: hash32
  gpi_spend_public_key :: bytes
  gpi_view_public_key :: bytes
  gpi_amount :: u64

datatype tx_extra_field =
    tx_extra_padding nat
  | tx_extra_pub_key bytes
  | tx_extra_nonce bytes
  | tx_extra_merge_mining_tag nat hash32
  | tx_extra_additional_pub_keys "bytes list"
  | tx_extra_mysterious_minergate bytes
  | tx_extra_fingerprint hash32
  | tx_extra_grant_payouts "grant_payout_info list"
  | tx_extra_dao_vote vote_proof
  | tx_extra_governance_payload governance_payload

text \<open>
  The reader of a padding field: \<open>sz\<close> counts the zero bytes, the tag included, up to 255; the
  loop ends well only at the end of the input.
\<close>

fun get_padding :: "nat \<Rightarrow> bytes \<Rightarrow> (tx_extra_field \<times> bytes) option" where
  "get_padding sz [] = (if sz \<le> 255 then Some (tx_extra_padding sz, []) else None)"
| "get_padding sz (c # bs) =
     (if 255 < sz \<or> byte_val c \<noteq> 0 then None else get_padding (Suc sz) bs)"

definition get_nonce :: "bytes \<Rightarrow> (tx_extra_field \<times> bytes) option" where
  "get_nonce bs = do {
     (nonce, bs) \<leftarrow> get_string bs;
     if 255 < length nonce then None else Some (tx_extra_nonce nonce, bs)
   }"

definition get_mm_helper :: "bytes \<Rightarrow> ((nat \<times> hash32) \<times> bytes) option" where
  "get_mm_helper bs = do {
     (depth, bs) \<leftarrow> read_varint 64 bs;
     (root, bs) \<leftarrow> get_raw 32 bs;
     Some ((depth, root), bs)
   }"

definition get_merge_mining_tag :: "bytes \<Rightarrow> (tx_extra_field \<times> bytes) option" where
  "get_merge_mining_tag bs = do {
     (field, bs) \<leftarrow> get_string bs;
     (depth, root) \<leftarrow> parse_all get_mm_helper field;
     Some (tx_extra_merge_mining_tag depth root, bs)
   }"

definition get_grant_payout :: "bytes \<Rightarrow> (grant_payout_info \<times> bytes) option" where
  "get_grant_payout bs = do {
     (pid, bs) \<leftarrow> get_raw 32 bs;
     (spk, bs) \<leftarrow> get_raw 32 bs;
     (vpk, bs) \<leftarrow> get_raw 32 bs;
     (amt, bs) \<leftarrow> get_varint64 bs;
     Some (\<lparr>gpi_proposal_id = pid, gpi_spend_public_key = spk, gpi_view_public_key = vpk,
       gpi_amount = amt\<rparr>, bs)
   }"

text \<open>The variant reader: the tag selects the alternative, an unknown tag fails.\<close>

definition get_tx_extra_field :: "bytes \<Rightarrow> (tx_extra_field \<times> bytes) option" where
  "get_tx_extra_field bs =
     (case bs of
        [] \<Rightarrow> None
      | t # bs \<Rightarrow>
          (let tag = byte_val t in
           if tag = 0 then get_padding 1 bs
           else if tag = 1 then do {(k, bs) \<leftarrow> get_raw 32 bs; Some (tx_extra_pub_key k, bs)}
           else if tag = 2 then get_nonce bs
           else if tag = 3 then get_merge_mining_tag bs
           else if tag = 4 then do {
             (ks, bs) \<leftarrow> get_vector (get_raw 32) bs; Some (tx_extra_additional_pub_keys ks, bs)}
           else if tag = 222 then do {
             (d, bs) \<leftarrow> get_string bs; Some (tx_extra_mysterious_minergate d, bs)}
           else if tag = 7 then do {(h, bs) \<leftarrow> get_raw 32 bs; Some (tx_extra_fingerprint h, bs)}
           else if tag = 8 then do {
             (ps, bs) \<leftarrow> get_vector get_grant_payout bs; Some (tx_extra_grant_payouts ps, bs)}
           else if tag = 9 then do {(v, bs) \<leftarrow> get_vote_proof bs; Some (tx_extra_dao_vote v, bs)}
           else if tag = 64 then do {
             (p, bs) \<leftarrow> get_governance_payload bs; Some (tx_extra_governance_payload p, bs)}
           else None))"

section \<open>Readers do not lengthen the input\<close>

definition shrinks :: "(bytes \<Rightarrow> ('a \<times> bytes) option) \<Rightarrow> bool" where
  "shrinks dec \<longleftrightarrow> (\<forall>bs x r. dec bs = Some (x, r) \<longrightarrow> length r \<le> length bs)"

lemma shrinksD: "shrinks dec \<Longrightarrow> dec bs = Some (x, r) \<Longrightarrow> length r \<le> length bs"
  by (simp add: shrinks_def)

lemma shrinks_bind:
  assumes "shrinks dec" "\<And>x. shrinks (\<lambda>bs. f x bs)"
  shows "shrinks (\<lambda>bs. dec bs \<bind> (\<lambda>(x, r). f x r))"
  unfolding shrinks_def
proof (intro allI impI)
  fix bs y r
  assume "dec bs \<bind> (\<lambda>(x, r). f x r) = Some (y, r)"
  then obtain x r' where "dec bs = Some (x, r')" "f x r' = Some (y, r)"
    by (auto simp: bind_eq_Some_conv)
  then show "length r \<le> length bs"
    by (meson order_trans shrinksD [OF assms(1)] shrinksD [OF assms(2)])
qed

lemma shrinks_bind_const:
  assumes "\<And>x. shrinks (\<lambda>bs. f x bs)"
  shows "shrinks (\<lambda>bs. m \<bind> (\<lambda>x. f x bs))"
  using assms by (cases m) (simp_all add: shrinks_def)

lemma shrinks_case_prod:
  "(\<And>a b. shrinks (\<lambda>bs. f a b bs)) \<Longrightarrow> shrinks (\<lambda>bs. case p of (a, b) \<Rightarrow> f a b bs)"
  by (cases p) simp

lemma shrinks_ret [intro!]: "shrinks (\<lambda>bs. Some (x, bs))"
  by (simp add: shrinks_def)

lemma shrinks_if: "shrinks f \<Longrightarrow> shrinks g \<Longrightarrow> shrinks (\<lambda>bs. if c then f bs else g bs)"
  by (simp add: shrinks_def)

lemma shrinks_None: "shrinks (\<lambda>_. None)"
  by (simp add: shrinks_def)

lemma read_varint_loop_shrinks:
  "read_varint_loop bits shift acc bs = Some (x, r) \<Longrightarrow> length r \<le> length bs"
  by (induction bs arbitrary: shift acc) (auto simp: Let_def le_SucI split: if_splits)

lemma get_padding_shrinks: "get_padding sz bs = Some (x, r) \<Longrightarrow> length r \<le> length bs"
  by (induction sz bs rule: get_padding.induct) (auto split: if_splits)

lemma get_n_shrinks: "shrinks dec \<Longrightarrow> shrinks (get_n dec n)"
proof (induction n)
  case 0
  then show ?case by (simp add: shrinks_def)
next
  case (Suc n)
  show ?case
    unfolding shrinks_def
  proof (intro allI impI)
    fix bs x r
    assume "get_n dec (Suc n) bs = Some (x, r)"
    then obtain y bs' ys where "dec bs = Some (y, bs')" "get_n dec n bs' = Some (ys, r)"
      by (auto split: option.splits)
    with Suc show "length r \<le> length bs" by (meson order_trans shrinksD)
  qed
qed

lemma shrinks_basic:
  "shrinks (read_varint bits)" "shrinks get_u8" "shrinks (get_raw n)" "shrinks get_varint8"
  "shrinks get_varint64" "shrinks get_bool" "shrinks get_string" "shrinks (get_padding sz)"
proof -
  show v: "shrinks (read_varint b)" for b
    by (simp add: shrinks_def read_varint_def read_varint_loop_shrinks)
  show "shrinks get_u8" by (auto simp: shrinks_def elim: get_u8.elims)
  show "shrinks (get_raw n)" by (auto simp: shrinks_def get_raw_def split: if_splits)
  show "shrinks get_varint8" "shrinks get_varint64"
    using v by (auto simp: shrinks_def get_varint8_def get_varint64_def)
  show "shrinks get_bool" by (auto simp: shrinks_def get_bool_def split: list.splits)
  show "shrinks get_string"
    by (auto simp: shrinks_def get_string_def split: option.splits if_splits
        dest!: shrinksD [OF v] intro: le_diff_conv2)
  show "shrinks (get_padding sz)" by (simp add: shrinks_def get_padding_shrinks)
qed

lemma get_vector_shrinks:
  assumes "shrinks dec"
  shows "shrinks (get_vector dec)"
  unfolding shrinks_def
proof (intro allI impI)
  fix bs x r
  assume "get_vector dec bs = Some (x, r)"
  then obtain n r' where "read_varint 64 bs = Some (n, r')" "get_n dec n r' = Some (x, r)"
    by (auto simp: get_vector_def split: option.splits if_splits)
  with shrinks_basic(1) get_n_shrinks [OF assms] show "length r \<le> length bs"
    by (meson order_trans shrinksD)
qed

lemmas shrinks_rules = shrinks_basic get_vector_shrinks shrinks_bind shrinks_bind_const
  shrinks_case_prod shrinks_ret shrinks_if shrinks_None

lemma shrinks_fields:
  "shrinks get_nonce" "shrinks get_merge_mining_tag" "shrinks get_grant_payout"
  "shrinks get_vote_proof" "shrinks get_governance_payload"
  unfolding get_nonce_def [abs_def] get_merge_mining_tag_def [abs_def]
    get_grant_payout_def [abs_def] get_vote_proof_def [abs_def] get_governance_payload_def [abs_def]
  by (intro shrinks_rules)+

lemma get_tx_extra_field_shrinks:
  assumes "get_tx_extra_field bs = Some (f, r)"
  shows "length r < length bs"
proof (cases bs)
  case Nil
  with assms show ?thesis by (simp add: get_tx_extra_field_def)
next
  case (Cons t bs')
  have "shrinks (\<lambda>bs. get_tx_extra_field (t # bs))"
    unfolding get_tx_extra_field_def list.case Let_def
    by (intro shrinks_rules shrinks_fields)
  with assms Cons show ?thesis by (auto dest: shrinksD)
qed

section \<open>The parser\<close>

function parse_tx_extra :: "bytes \<Rightarrow> tx_extra_field list option" where
  "parse_tx_extra bs =
     (if bs = [] then Some []
      else case get_tx_extra_field bs of
        None \<Rightarrow> None
      | Some (f, r) \<Rightarrow> map_option (\<lambda>fs. f # fs) (parse_tx_extra r))"
  by pat_completeness auto
termination
  by (relation "measure length") (auto dest: get_tx_extra_field_shrinks)

declare parse_tx_extra.simps [simp del]

text \<open>The first governance field, which the managers look for.\<close>

definition governance_payloads :: "tx_extra_field list \<Rightarrow> governance_payload list" where
  "governance_payloads fs =
     concat (map (\<lambda>f. case f of tx_extra_governance_payload p \<Rightarrow> [p] | _ \<Rightarrow> []) fs)"

definition first_governance_payload :: "bytes \<Rightarrow> governance_payload option" where
  "first_governance_payload extra =
     (case parse_tx_extra extra of
        None \<Rightarrow> None
      | Some fs \<Rightarrow> (case governance_payloads fs of [] \<Rightarrow> None | p # _ \<Rightarrow> Some p))"

section \<open>Round trip\<close>

definition put_mm_helper :: "nat \<times> hash32 \<Rightarrow> bytes" where
  "put_mm_helper m = write_varint (fst m) @ snd m"

definition put_grant_payout :: "grant_payout_info \<Rightarrow> bytes" where
  "put_grant_payout g =
     gpi_proposal_id g @ gpi_spend_public_key g @ gpi_view_public_key g @ put_varint64 (gpi_amount g)"

text \<open>The writers of the variants, tag first.\<close>

fun put_tx_extra_field :: "tx_extra_field \<Rightarrow> bytes" where
  "put_tx_extra_field (tx_extra_padding n) = replicate n (byte_of 0)"
| "put_tx_extra_field (tx_extra_pub_key k) = byte_of 1 # k"
| "put_tx_extra_field (tx_extra_nonce s) = byte_of 2 # put_string s"
| "put_tx_extra_field (tx_extra_merge_mining_tag d h) = byte_of 3 # put_string (put_mm_helper (d, h))"
| "put_tx_extra_field (tx_extra_additional_pub_keys ks) = byte_of 4 # put_vector (\<lambda>k. k) ks"
| "put_tx_extra_field (tx_extra_mysterious_minergate s) = byte_of 222 # put_string s"
| "put_tx_extra_field (tx_extra_fingerprint h) = byte_of 7 # h"
| "put_tx_extra_field (tx_extra_grant_payouts ps) = byte_of 8 # put_vector put_grant_payout ps"
| "put_tx_extra_field (tx_extra_dao_vote v) = byte_of 9 # put_vote_proof v"
| "put_tx_extra_field (tx_extra_governance_payload p) = byte_of 64 # put_governance_payload p"

definition grant_fits :: "grant_payout_info \<Rightarrow> bool" where
  "grant_fits g \<longleftrightarrow> length (gpi_proposal_id g) = 32 \<and> length (gpi_spend_public_key g) = 32
     \<and> length (gpi_view_public_key g) = 32"

text \<open>A field that can stand anywhere; padding can only be the last one.\<close>

fun field_fits :: "tx_extra_field \<Rightarrow> bool" where
  "field_fits (tx_extra_padding n) = False"
| "field_fits (tx_extra_pub_key k) = (length k = 32)"
| "field_fits (tx_extra_nonce s) = (length s \<le> 255)"
| "field_fits (tx_extra_merge_mining_tag d h) = (d < 2 ^ 64 \<and> length h = 32)"
| "field_fits (tx_extra_additional_pub_keys ks) = (fits64 ks \<and> (\<forall>k \<in> set ks. length k = 32))"
| "field_fits (tx_extra_mysterious_minergate s) = fits64 s"
| "field_fits (tx_extra_fingerprint h) = (length h = 32)"
| "field_fits (tx_extra_grant_payouts ps) = (fits64 ps \<and> (\<forall>p \<in> set ps. grant_fits p))"
| "field_fits (tx_extra_dao_vote v) = vote_fits v"
| "field_fits (tx_extra_governance_payload p) = fits64 (gpl_data p)"

interpretation mm_helper: byte_codec put_mm_helper get_mm_helper "\<lambda>m. fst m < 2 ^ 64 \<and> length (snd m) = 32"
  by unfold_locales (auto simp: put_mm_helper_def get_mm_helper_def varint.dec_enc raw.dec_enc)

interpretation grant: byte_codec put_grant_payout get_grant_payout grant_fits
  by unfold_locales
    (auto simp: put_grant_payout_def get_grant_payout_def grant_fits_def raw.dec_enc varint64.dec_enc)

lemma write_varint_length: "v < 128 ^ Suc k \<Longrightarrow> length (write_varint v) \<le> Suc k"
proof (induction k arbitrary: v)
  case 0
  then show ?case by (simp add: write_varint.simps)
next
  case (Suc k)
  then have "v div 128 < 128 ^ Suc k" by (simp add: less_mult_imp_div_less mult.commute)
  from Suc.IH [OF this] show ?case by (subst write_varint.simps) simp
qed

interpretation extra_field: byte_codec put_tx_extra_field get_tx_extra_field field_fits
proof
  fix f r
  assume ok: "field_fits f"
  show "get_tx_extra_field (put_tx_extra_field f @ r) = Some (f, r)"
  proof (cases f)
    case (tx_extra_merge_mining_tag d h)
    have "length (write_varint d) \<le> Suc 9"
      using tx_extra_merge_mining_tag ok by (intro write_varint_length) simp
    with tx_extra_merge_mining_tag ok show ?thesis
      by (simp add: get_tx_extra_field_def get_merge_mining_tag_def str.dec_enc put_mm_helper_def
          mm_helper.parse_all_enc [unfolded put_mm_helper_def, of "(d, h)", simplified])
  next
    case (tx_extra_grant_payouts ps)
    have "put_grant_payout p \<noteq> []" for p
      by (simp add: put_grant_payout_def put_varint64_def write_varint.simps)
    with tx_extra_grant_payouts ok show ?thesis
      by (simp add: get_tx_extra_field_def get_vector_put [OF grant.byte_codec_axioms])
  qed (use ok in \<open>auto simp: get_tx_extra_field_def get_nonce_def str.dec_enc raw.dec_enc
      get_vector_hashes vote_codec.dec_enc envelope.dec_enc\<close>)
qed

lemma parse_put_fields:
  "\<forall>f \<in> set fs. field_fits f \<Longrightarrow> parse_tx_extra (concat (map put_tx_extra_field fs)) = Some fs"
proof (induction fs)
  case Nil
  then show ?case by (simp add: parse_tx_extra.simps)
next
  case (Cons f fs)
  then have "field_fits f" by simp
  then have "put_tx_extra_field f \<noteq> []" by (cases f) simp_all
  with Cons show ?case
    by (subst parse_tx_extra.simps) (simp add: extra_field.dec_enc)
qed

end
