(* ===== verification/Domain_Objects.thy ===== *)
theory Domain_Objects
  imports Tx_Extra Domain_Names "HOL-Library.Sublist"
begin

text \<open>
  The messages of the name registry inside a transaction's extra field: registrations, updates and transfers of
  a name. The writers are those of \<^verbatim>\<open>src/src/common/domain_utils.h\<close>; the readers are the search through the extra
  field and the three field loops of \<^verbatim>\<open>Blockchain::process_domain_registration\<close>. The lemmas show that the search
  ends on every input and that what is written is found and read back.
\<close>

datatype domain_registration_result =
    DR_success | DR_already_registered | DR_invalid_format | DR_invalid_fee_tier | DR_invalid_key
  | DR_invalid_fingerprint | DR_internal_error | DR_domain_not_found | DR_domain_expired
  | DR_signature_invalid | DR_update_failed

section \<open>Writers\<close>

definition append_tlv :: "nat \<Rightarrow> bytes \<Rightarrow> bytes" where
  "append_tlv ty data = byte_of ty # byte_of (length data) # data"

text \<open>The nonce field around a payload; \<open>[]\<close> is the empty vector that the writers return on failure.\<close>

definition wrap_nonce :: "bytes \<Rightarrow> bytes" where
  "wrap_nonce payload =
     (let n = length payload in
      if 255 < n then []
      else byte_of 2 # (if n < 128 then [byte_of n] else [byte_of (n mod 128 + 128), byte_of (n div 128)]) @ payload)"

definition build_registration_extra ::
  "string \<Rightarrow> u8 \<Rightarrow> bytes \<Rightarrow> hash32 \<Rightarrow> string list \<Rightarrow> bytes" where
  "build_registration_extra domain_name fee_tier registrant_key genesis_fingerprint relay_urls =
     (if list_ex (\<lambda>url. 255 < length url) relay_urls then []
      else wrap_nonce (''DOMAIN_REG'' @ append_tlv 1 domain_name @ append_tlv 2 (put_u8 fee_tier)
        @ append_tlv 3 registrant_key @ append_tlv 4 genesis_fingerprint
        @ concat (map (\<lambda>(i, url). if url = [] then [] else append_tlv i url) (zip [6, 7, 8] relay_urls))
        @ [NUL]))"

definition build_update_extra ::
  "string \<Rightarrow> bytes option \<Rightarrow> string list option \<Rightarrow> bytes \<Rightarrow> bytes" where
  "build_update_extra domain_name new_owner_key new_relay_set signature =
     (let urls = (case new_relay_set of None \<Rightarrow> [] | Some relays \<Rightarrow> filter (\<lambda>url. url \<noteq> []) relays) in
      if list_ex (\<lambda>url. 255 < length url) urls then []
      else wrap_nonce (''DOMAIN_UPDATE'' @ append_tlv 1 domain_name
        @ (case new_owner_key of None \<Rightarrow> [] | Some key \<Rightarrow> append_tlv 2 key)
        @ (if urls = [] then []
           else append_tlv 16 (byte_of (length urls) # concat (map (\<lambda>url. byte_of (length url) # url) urls)))
        @ append_tlv 4 signature @ [NUL]))"

definition build_transfer_extra :: "string \<Rightarrow> bytes \<Rightarrow> bytes \<Rightarrow> bytes" where
  "build_transfer_extra domain_name new_owner_key signature =
     wrap_nonce (''DOMAIN_XFER'' @ append_tlv 1 domain_name @ append_tlv 5 new_owner_key
       @ append_tlv 4 signature @ [NUL])"

section \<open>Search\<close>

datatype object_kind = DOMAIN_REG | DOMAIN_UPDATE | DOMAIN_XFER

text \<open>
  The length of a nonce field, at most two bytes of seven bits each: the length, the number of bytes read
  and the position behind them. The bits are disjoint, so that adding is the same as the code's bitwise or.
\<close>

function nonce_length :: "bytes \<Rightarrow> nat \<Rightarrow> nat \<Rightarrow> nat \<Rightarrow> nat \<times> nat \<times> nat" where
  "nonce_length extra p len len_bytes =
     (if p < length extra \<and> len_bytes < 2 then
        let b = byte_val (extra ! p);
            len = len + b mod 128 * 128 ^ len_bytes in
        if b < 128 then (len, len_bytes + 1, p + 1)
        else nonce_length extra (p + 1) len (len_bytes + 1)
      else (len, len_bytes, p))"
  by pat_completeness auto
termination by (relation "measure (\<lambda>(_, _, _, len_bytes). 2 - len_bytes)") auto

declare nonce_length.simps [simp del]

text \<open>
  The outer loop, which leaves at the first message. The bytes of the magic words are compared without a look
  at the length of the field, beyond the first ten, so that the comparison may run into the memory
  behind the extra field, \<open>beyond\<close>. What is returned is the payload behind the magic word.
\<close>

partial_function (option) scan_extra ::
  "bytes \<Rightarrow> bytes \<Rightarrow> nat \<Rightarrow> (object_kind \<times> bytes) option option" where
  [code]: "scan_extra beyond extra i =
     (if length extra \<le> i then Some None
      else if byte_val (extra ! i) = 1 then scan_extra beyond extra (i + 1 + 32)
      else if byte_val (extra ! i) = 2 then
        (if length extra \<le> i + 2 then Some None
         else (case nonce_length extra (i + 1) 0 0 of
           (len, len_bytes, p) \<Rightarrow>
             if len_bytes = 0 \<or> len < 10 \<or> length extra < p + len then scan_extra beyond extra (p + len)
             else if starts_with ''DOMAIN_REG'' (drop p extra @ beyond)
               then Some (Some (DOMAIN_REG, drop 10 (take len (drop p extra))))
             else if starts_with ''DOMAIN_UPDATE'' (drop p extra @ beyond)
               then Some (Some (DOMAIN_UPDATE, drop 13 (take len (drop p extra))))
             else if starts_with ''DOMAIN_XFER'' (drop p extra @ beyond)
               then Some (Some (DOMAIN_XFER, drop 11 (take len (drop p extra))))
             else scan_extra beyond extra (i + 2 + len)))
      else scan_extra beyond extra (i + 1))"

section \<open>Readers\<close>

text \<open>
  The loop over the fields of a payload, with the switch as the argument. Where the payload ends behind a type, the code
  either is at the end of the extra field or reads a length behind the payload; it fails in both cases.
\<close>

fun read_tlvs ::
  "(nat \<Rightarrow> bytes \<Rightarrow> 'a \<Rightarrow> domain_registration_result + 'a) \<Rightarrow> bytes \<Rightarrow> 'a \<Rightarrow> domain_registration_result + 'a" where
  "read_tlvs f [] a = Inr a"
| "read_tlvs f [t] a = (if byte_val t = 0 then Inr a else Inl DR_invalid_format)"
| "read_tlvs f (t # l # bs) a =
     (if byte_val t = 0 then Inr a
      else if length bs < byte_val l then Inl DR_invalid_format
      else case f (byte_val t) (take (byte_val l) bs) a of
        Inl e \<Rightarrow> Inl e
      | Inr a \<Rightarrow> read_tlvs f (drop (byte_val l) bs) a)"

record registration =
  rg_name :: string
  rg_tier :: u64
  rg_key :: bytes
  rg_fingerprint :: hash32
  rg_relays :: "string list"

definition registration_field ::
  "(bytes \<Rightarrow> bool) \<Rightarrow> nat \<Rightarrow> bytes \<Rightarrow> registration \<Rightarrow> domain_registration_result + registration" where
  "registration_field valid_key ty data r =
     (if ty = 1 then Inr (r\<lparr>rg_name := data\<rparr>)
      else if ty = 2 then
        (if length data < 1 \<or> 8 < length data then Inl DR_invalid_fee_tier
         else Inr (r\<lparr>rg_tier := word_of_nat (le_val data)\<rparr>))
      else if ty = 3 then
        (if length data \<noteq> 33 \<or> \<not> valid_key data then Inl DR_invalid_key else Inr (r\<lparr>rg_key := data\<rparr>))
      else if ty = 4 then
        (if length data \<noteq> 32 then Inl DR_invalid_fingerprint else Inr (r\<lparr>rg_fingerprint := data\<rparr>))
      else if ty = 6 then Inr (r\<lparr>rg_relays := (rg_relays r)[0 := data]\<rparr>)
      else if ty = 7 then Inr (r\<lparr>rg_relays := (rg_relays r)[1 := data]\<rparr>)
      else if ty = 8 then Inr (r\<lparr>rg_relays := (rg_relays r)[2 := data]\<rparr>)
      else Inl DR_invalid_format)"

text \<open>The key and the fingerprint are not initialised before the loop.\<close>

definition read_registration ::
  "(bytes \<Rightarrow> bool) \<Rightarrow> bytes \<Rightarrow> hash32 \<Rightarrow> bytes \<Rightarrow> domain_registration_result + registration" where
  "read_registration valid_key junk_key junk_hash payload =
     read_tlvs (registration_field valid_key) payload
       \<lparr>rg_name = [], rg_tier = 0, rg_key = junk_key, rg_fingerprint = junk_hash, rg_relays = [[], [], []]\<rparr>"

record domain_update =
  up_name :: string
  up_owner :: "bytes option"
  up_relays :: "string list option"
  up_signature :: "bytes option"

fun read_relay_urls :: "nat \<Rightarrow> bytes \<Rightarrow> string list option" where
  "read_relay_urls 0 data = Some []"
| "read_relay_urls (Suc n) [] = None"
| "read_relay_urls (Suc n) (l # data) =
     (if byte_val l = 0 \<or> length data < byte_val l then None
      else map_option (Cons (take (byte_val l) data)) (read_relay_urls n (drop (byte_val l) data)))"

definition read_relay_set :: "bytes \<Rightarrow> string list option" where
  "read_relay_set data =
     (case data of
        [] \<Rightarrow> None
      | c # data \<Rightarrow>
          if byte_val c = 0 \<or> 3 < byte_val c then None
          else map_option (\<lambda>urls. urls @ replicate (3 - length urls) []) (read_relay_urls (byte_val c) data))"

definition update_field ::
  "(bytes \<Rightarrow> bool) \<Rightarrow> nat \<Rightarrow> bytes \<Rightarrow> domain_update \<Rightarrow> domain_registration_result + domain_update" where
  "update_field valid_key ty data u =
     (if ty = 1 then Inr (u\<lparr>up_name := data\<rparr>)
      else if ty = 2 then
        (if length data \<noteq> 33 \<or> \<not> valid_key data then Inl DR_invalid_key else Inr (u\<lparr>up_owner := Some data\<rparr>))
      else if ty = 3 then
        (if data = [] then Inl DR_invalid_format else Inr (u\<lparr>up_relays := Some [data, [], []]\<rparr>))
      else if ty = 16 then
        (case read_relay_set data of
           None \<Rightarrow> Inl DR_invalid_format
         | Some relays \<Rightarrow> Inr (u\<lparr>up_relays := Some relays\<rparr>))
      else if ty = 4 then
        (if length data \<noteq> 64 then Inl DR_invalid_format else Inr (u\<lparr>up_signature := Some data\<rparr>))
      else Inl DR_invalid_format)"

definition read_update :: "(bytes \<Rightarrow> bool) \<Rightarrow> bytes \<Rightarrow> domain_registration_result + domain_update" where
  "read_update valid_key payload =
     read_tlvs (update_field valid_key) payload
       \<lparr>up_name = [], up_owner = None, up_relays = None, up_signature = None\<rparr>"

record domain_transfer =
  xf_name :: string
  xf_key :: "bytes option"
  xf_signature :: "bytes option"

definition transfer_field ::
  "nat \<Rightarrow> bytes \<Rightarrow> domain_transfer \<Rightarrow> domain_registration_result + domain_transfer" where
  "transfer_field ty data x =
     (if ty = 1 then Inr (x\<lparr>xf_name := data\<rparr>)
      else if ty = 5 then
        (if length data \<noteq> 32 then Inl DR_invalid_key else Inr (x\<lparr>xf_key := Some data\<rparr>))
      else if ty = 4 then
        (if length data \<noteq> 64 then Inl DR_invalid_format else Inr (x\<lparr>xf_signature := Some data\<rparr>))
      else Inl DR_invalid_format)"

definition read_transfer :: "bytes \<Rightarrow> domain_registration_result + domain_transfer" where
  "read_transfer payload =
     read_tlvs transfer_field payload \<lparr>xf_name = [], xf_key = None, xf_signature = None\<rparr>"

section \<open>The search ends\<close>

lemma nonce_length_progress:
  "nonce_length extra p len n = (len', n', p') \<Longrightarrow> p \<le> p' \<and> p' + n = p + n'"
proof (induction extra p len n rule: nonce_length.induct)
  case (1 extra p len n)
  show ?case
  proof (cases "p < length extra \<and> n < 2 \<and> \<not> byte_val (extra ! p) < 128")
    case True
    with 1(2) have "nonce_length extra (p + 1) (len + byte_val (extra ! p) mod 128 * 128 ^ n) (n + 1) = (len', n', p')"
      by (subst (asm) nonce_length.simps) (simp add: Let_def)
    from 1(1) [OF _ refl refl _ this] True show ?thesis by simp
  next
    case False
    with 1(2) show ?thesis by (subst (asm) nonce_length.simps) (auto simp: Let_def split: if_splits)
  qed
qed

lemma nonce_length_bound:
  "nonce_length extra p len n = (len', n', p') \<Longrightarrow> len < 128 ^ n \<Longrightarrow> n \<le> 2 \<Longrightarrow> len' < 128 ^ n' \<and> n' \<le> 2"
proof (induction extra p len n rule: nonce_length.induct)
  case (1 extra p len n)
  let ?b = "byte_val (extra ! p)"
  have b: "len + ?b mod 128 * 128 ^ n < 128 ^ (n + 1)"
  proof -
    have "len + ?b mod 128 * 128 ^ n < (?b mod 128 + 1) * 128 ^ n" using 1(3) by (simp add: distrib_right)
    also have "\<dots> \<le> 128 * 128 ^ n" by (rule mult_le_mono1) (simp add: Suc_leI)
    finally show ?thesis by simp
  qed
  show ?case
  proof (cases "p < length extra \<and> n < 2 \<and> \<not> ?b < 128")
    case True
    with 1(2) have "nonce_length extra (p + 1) (len + ?b mod 128 * 128 ^ n) (n + 1) = (len', n', p')"
      by (subst (asm) nonce_length.simps) (simp add: Let_def)
    from 1(1) [OF _ refl refl _ this b] True show ?thesis by simp
  next
    case False
    with 1(2-4) b show ?thesis by (subst (asm) nonce_length.simps) (auto simp: Let_def split: if_splits)
  qed
qed

text \<open>A message that the search may return: a part of the extra field, of bounded length.\<close>

definition part_of :: "bytes \<Rightarrow> (object_kind \<times> bytes) option \<Rightarrow> bool" where
  "part_of extra r \<longleftrightarrow> (\<forall>k body. r = Some (k, body) \<longrightarrow> sublist body extra \<and> length body < 16384)"

lemma part_of_payload: "len < 16384 \<Longrightarrow> part_of extra (Some (k, drop m (take len (drop p extra))))"
  by (auto simp: part_of_def intro!: sublist_order.order.trans [OF sublist_drop] sublist_order.order.trans [OF sublist_take])

lemma scan_extra_returns: "\<exists>r. scan_extra beyond extra i = Some r \<and> part_of extra r"
proof (induction "length extra - i" arbitrary: i rule: less_induct)
  case less
  have IH: "\<exists>r. scan_extra beyond extra j = Some r \<and> part_of extra r" if "i < length extra" "i < j" for j
    using less [of j] that by simp
  obtain len n p where l: "nonce_length extra (Suc i) 0 0 = (len, n, p)" by (metis prod_cases3)
  have "i < p" using nonce_length_progress [OF l] by simp
  moreover have "len < 16384"
  proof -
    have "len < 128 ^ n" "n \<le> 2" using nonce_length_bound [OF l] by simp_all
    then show ?thesis using power_increasing [of n 2 "128::nat"] by simp
  qed
  moreover have "part_of extra None" by (simp add: part_of_def)
  ultimately show ?case
    by (subst scan_extra.simps) (auto simp: l part_of_payload intro!: IH)
qed

section \<open>What is written is found\<close>

text \<open>The search passes over transaction keys and stops at the nonce field.\<close>

lemma scan_pub_keys:
  assumes "\<forall>k \<in> set ks. length k = 32"
  shows "scan_extra beyond (pre @ concat (map (\<lambda>k. byte_of 1 # k) ks) @ r) (length pre) =
    scan_extra beyond ((pre @ concat (map (\<lambda>k. byte_of 1 # k) ks)) @ r) (length (pre @ concat (map (\<lambda>k. byte_of 1 # k) ks)))"
  using assms
proof (induction ks arbitrary: pre)
  case (Cons k ks)
  have "scan_extra beyond (pre @ concat (map (\<lambda>k. byte_of 1 # k) (k # ks)) @ r) (length pre) =
    scan_extra beyond ((pre @ byte_of 1 # k) @ concat (map (\<lambda>k. byte_of 1 # k) ks) @ r) (length (pre @ byte_of 1 # k))"
    using Cons.prems by (subst scan_extra.simps) (simp add: nth_append add.commute)
  also have "\<dots> = scan_extra beyond ((pre @ byte_of 1 # k) @ concat (map (\<lambda>k. byte_of 1 # k) ks) @ r)
      (length ((pre @ byte_of 1 # k) @ concat (map (\<lambda>k. byte_of 1 # k) ks)))"
    using Cons.IH [of "pre @ byte_of 1 # k"] Cons.prems by simp
  finally show ?case by simp
qed simp

lemma nonce_length_wrap:
  assumes "length payload \<le> 255" "extra = pre @ wrap_nonce payload @ r" "i = length pre"
  obtains p n where "nonce_length extra (i + 1) 0 0 = (length payload, n, p)" "0 < n"
    "drop p extra = payload @ r" "p + length payload \<le> length extra"
proof (cases "length payload < 128")
  case True
  then have e: "extra = pre @ byte_of 2 # byte_of (length payload) # payload @ r"
    using assms by (simp add: wrap_nonce_def)
  have "extra ! (i + 1) = byte_of (length payload)" "i + 1 < length extra"
    using nth_append_length_plus [of pre _ 1] by (simp_all add: e assms(3))
  then have "nonce_length extra (i + 1) 0 0 = (length payload, 1, i + 2)"
    using True by (subst nonce_length.simps) (simp add: Let_def)
  then show thesis by (rule that) (simp_all add: e assms(3))
next
  case False
  let ?n = "length payload"
  have e: "extra = pre @ byte_of 2 # byte_of (?n mod 128 + 128) # byte_of (?n div 128) # payload @ r"
    using False assms by (simp add: wrap_nonce_def Let_def)
  have small: "?n div 128 < 128" "?n mod 128 + 128 < 256" using assms(1) by simp_all
  have at: "extra ! (i + 1) = byte_of (?n mod 128 + 128)" "extra ! (i + 1 + 1) = byte_of (?n div 128)" "i + 1 + 1 < length extra"
    using nth_append_length_plus [of pre _ 1] nth_append_length_plus [of pre _ 2] by (simp_all add: e assms(3) numeral_2_eq_2)
  have "nonce_length extra (i + 1) 0 0 = nonce_length extra (i + 1 + 1) (?n mod 128) 1"
    using small at by (subst nonce_length.simps) (simp add: Let_def)
  also have "\<dots> = (?n, 2, i + 3)"
    using small at by (subst nonce_length.simps) (simp add: Let_def)
  finally show thesis by (rule that) (simp_all add: e assms(3))
qed

fun object_magic :: "object_kind \<Rightarrow> string" where
  "object_magic DOMAIN_REG = ''DOMAIN_REG''"
| "object_magic DOMAIN_UPDATE = ''DOMAIN_UPDATE''"
| "object_magic DOMAIN_XFER = ''DOMAIN_XFER''"

lemma starts_with_magic: "starts_with (object_magic k') (object_magic k @ s) \<longleftrightarrow> k' = k"
  by (cases k; cases k') (simp_all add: starts_with_def)

lemma scan_at_nonce:
  assumes "byte_val (x ! i) = 2" "i + 2 < length x" "nonce_length x (Suc i) 0 0 = (length (object_magic k @ body), n, p)" "0 < n"
    and d: "drop p x = object_magic k @ body @ r" and "p + length (object_magic k @ body) \<le> length x"
  shows "scan_extra beyond x i = Some (Some (k, body))"
proof -
  have m: "starts_with ''DOMAIN_REG'' (drop p x @ beyond) \<longleftrightarrow> k = DOMAIN_REG"
    "starts_with ''DOMAIN_UPDATE'' (drop p x @ beyond) \<longleftrightarrow> k = DOMAIN_UPDATE"
    "starts_with ''DOMAIN_XFER'' (drop p x @ beyond) \<longleftrightarrow> k = DOMAIN_XFER"
    using starts_with_magic [of DOMAIN_REG k] starts_with_magic [of DOMAIN_UPDATE k] starts_with_magic [of DOMAIN_XFER k]
    by (auto simp: d)
  have "\<not> length (object_magic k @ body) < 10" by (cases k) simp_all
  moreover have "take (length (object_magic k @ body)) (drop p x) = object_magic k @ body" by (simp add: d)
  ultimately have "scan_extra beyond x i = Some (Some (k, drop (length (object_magic k)) (object_magic k @ body)))"
    using assms(1-4,6) by (subst scan_extra.simps, cases k) (simp_all add: m del: length_append)
  then show ?thesis by simp
qed

lemma scan_wrap:
  assumes "length (object_magic k @ body) \<le> 255"
  shows "scan_extra beyond (pre @ wrap_nonce (object_magic k @ body) @ r) (length pre) = Some (Some (k, body))"
proof (rule nonce_length_wrap [OF assms refl refl])
  fix p n
  assume "nonce_length (pre @ wrap_nonce (object_magic k @ body) @ r) (length pre + 1) 0 0 = (length (object_magic k @ body), n, p)"
    "0 < n" "drop p (pre @ wrap_nonce (object_magic k @ body) @ r) = (object_magic k @ body) @ r"
    "p + length (object_magic k @ body) \<le> length (pre @ wrap_nonce (object_magic k @ body) @ r)"
  moreover have "3 \<le> length (wrap_nonce (object_magic k @ body))" "wrap_nonce (object_magic k @ body) ! 0 = byte_of 2"
    "wrap_nonce (object_magic k @ body) \<noteq> []"
    using assms by (cases k; simp add: wrap_nonce_def Let_def)+
  ultimately show ?thesis
    by (intro scan_at_nonce [where n = n and p = p and r = r]) (simp_all add: nth_append)
qed

lemma scan_finds:
  assumes "\<forall>k \<in> set ks. length k = 32" "length (object_magic k @ body) \<le> 255"
  shows "scan_extra beyond (concat (map (\<lambda>k. byte_of 1 # k) ks) @ wrap_nonce (object_magic k @ body) @ r) 0 = Some (Some (k, body))"
  using scan_pub_keys [OF assms(1), of beyond "[]" "wrap_nonce (object_magic k @ body) @ r"]
    scan_wrap [OF assms(2), of beyond "concat (map (\<lambda>k. byte_of 1 # k) ks)" r] by simp

section \<open>What is written is read back\<close>

lemma read_tlvs_append [simp]:
  "length data \<le> 255 \<Longrightarrow> 0 < ty \<Longrightarrow> ty \<le> 255 \<Longrightarrow>
   read_tlvs f (append_tlv ty data @ bs) a = (case f ty data a of Inl e \<Rightarrow> Inl e | Inr a \<Rightarrow> read_tlvs f bs a)"
  by (simp add: append_tlv_def split: sum.split)

lemma length_append_tlv [simp]: "length (append_tlv ty data) = length data + 2"
  by (simp add: append_tlv_def)

lemma wrap_nonce_nonempty: "wrap_nonce payload \<noteq> [] \<longleftrightarrow> length payload \<le> 255"
  by (simp add: wrap_nonce_def Let_def)

lemma read_relay_urls_put:
  "\<forall>u \<in> set urls. u \<noteq> [] \<and> length u \<le> 255 \<Longrightarrow>
   read_relay_urls (length urls) (concat (map (\<lambda>u. byte_of (length u) # u) urls)) = Some urls"
  by (induction urls) auto

lemma read_built_registration:
  assumes "length key = 33" "valid_key key" "length fp = 32" "length urls = 3" "length name \<le> 255" "\<forall>u \<in> set urls. length u \<le> 255"
  shows "read_registration valid_key junk_key junk_hash
    (append_tlv 1 name @ append_tlv 2 (put_u8 tier) @ append_tlv 3 key @ append_tlv 4 fp
      @ concat (map (\<lambda>(i, url). if url = [] then [] else append_tlv i url) (zip [6, 7, 8] urls)) @ [NUL]) =
    Inr \<lparr>rg_name = name, rg_tier = ucast tier, rg_key = key, rg_fingerprint = fp, rg_relays = urls\<rparr>"
proof -
  obtain a b c where u: "urls = [a, b, c]" using assms(4) by (auto simp: length_Suc_conv numeral_3_eq_3)
  have t: "(word_of_nat (le_val (put_u8 tier)) :: u64) = ucast tier"
  proof -
    have "unat tier < 256" using unsigned_less [of tier] by simp
    then show ?thesis by (simp add: put_u8_def)
  qed
  show ?thesis
    using assms by (auto simp: u t read_registration_def registration_field_def byte_val_def)
qed

lemma read_built_update:
  assumes "\<forall>k. owner = Some k \<longrightarrow> length k = 33 \<and> valid_key k" "length sig = 64" "length name \<le> 255"
    and "length urls \<le> 3" "\<forall>u \<in> set urls. u \<noteq> [] \<and> length u \<le> 255" "length (concat (map (\<lambda>url. byte_of (length url) # url) urls)) < 255"
  shows "read_update valid_key
    (append_tlv 1 name @ (case owner of None \<Rightarrow> [] | Some key \<Rightarrow> append_tlv 2 key)
      @ (if urls = [] then [] else append_tlv 16 (byte_of (length urls) # concat (map (\<lambda>url. byte_of (length url) # url) urls)))
      @ append_tlv 4 sig @ [NUL]) =
    Inr \<lparr>up_name = name, up_owner = owner, up_relays = (if urls = [] then None else Some (urls @ replicate (3 - length urls) [])),
      up_signature = Some sig\<rparr>"
proof -
  have "read_relay_set (byte_of (length urls) # concat (map (\<lambda>url. byte_of (length url) # url) urls)) =
    Some (urls @ replicate (3 - length urls) [])" if "urls \<noteq> []"
    using that assms(4,5) by (simp add: read_relay_set_def read_relay_urls_put)
  then show ?thesis
    using assms by (auto simp: read_update_def update_field_def byte_val_def split: option.split)
qed

lemma read_built_transfer:
  assumes "length key = 32" "length sig = 64" "length name \<le> 255"
  shows "read_transfer (append_tlv 1 name @ append_tlv 5 key @ append_tlv 4 sig @ [NUL]) =
    Inr \<lparr>xf_name = name, xf_key = Some key, xf_signature = Some sig\<rparr>"
  using assms by (simp add: read_transfer_def transfer_field_def byte_val_def)

text \<open>The messages as written, with their bounds.\<close>

lemma built_registration:
  assumes "build_registration_extra name tier key fp urls \<noteq> []"
  shows "\<exists>body. body = append_tlv 1 name @ append_tlv 2 (put_u8 tier) @ append_tlv 3 key @ append_tlv 4 fp
      @ concat (map (\<lambda>(i, url). if url = [] then [] else append_tlv i url) (zip [6, 7, 8] urls)) @ [NUL]
    \<and> build_registration_extra name tier key fp urls = wrap_nonce (object_magic DOMAIN_REG @ body)
    \<and> length (object_magic DOMAIN_REG @ body) \<le> 255 \<and> length name \<le> 255 \<and> (\<forall>u \<in> set urls. length u \<le> 255)"
  using assms by (auto simp: build_registration_extra_def wrap_nonce_nonempty list_ex_iff not_less split: if_splits)

definition stored_relays :: "string list option \<Rightarrow> string list" where
  "stored_relays relays = (case relays of None \<Rightarrow> [] | Some us \<Rightarrow> filter (\<lambda>u. u \<noteq> []) us)"

lemma built_update:
  assumes "build_update_extra name owner relays sig \<noteq> []"
  shows "\<exists>body. body = append_tlv 1 name @ (case owner of None \<Rightarrow> [] | Some key \<Rightarrow> append_tlv 2 key)
      @ (if stored_relays relays = [] then []
         else append_tlv 16 (byte_of (length (stored_relays relays)) # concat (map (\<lambda>url. byte_of (length url) # url) (stored_relays relays))))
      @ append_tlv 4 sig @ [NUL]
    \<and> build_update_extra name owner relays sig = wrap_nonce (object_magic DOMAIN_UPDATE @ body)
    \<and> length (object_magic DOMAIN_UPDATE @ body) \<le> 255 \<and> length name \<le> 255
    \<and> (\<forall>u \<in> set (stored_relays relays). u \<noteq> [] \<and> length u \<le> 255)
    \<and> length (concat (map (\<lambda>url. byte_of (length url) # url) (stored_relays relays))) < 255"
proof -
  let ?u = "stored_relays relays"
  have "\<not> list_ex (\<lambda>url. 255 < length url) ?u" and e: "build_update_extra name owner relays sig = wrap_nonce (object_magic DOMAIN_UPDATE
    @ append_tlv 1 name @ (case owner of None \<Rightarrow> [] | Some key \<Rightarrow> append_tlv 2 key)
    @ (if ?u = [] then [] else append_tlv 16 (byte_of (length ?u) # concat (map (\<lambda>url. byte_of (length url) # url) ?u)))
    @ append_tlv 4 sig @ [NUL])"
    using assms by (simp_all add: build_update_extra_def stored_relays_def Let_def split: if_splits)
  moreover have "\<forall>u \<in> set ?u. u \<noteq> []" by (auto simp: stored_relays_def split: option.splits)
  moreover note wrap_nonce_nonempty [THEN iffD1, OF assms [unfolded e]]
  ultimately show ?thesis by (auto simp: e list_ex_iff not_less split: if_splits)
qed

lemma built_transfer:
  assumes "build_transfer_extra name key sig \<noteq> []"
  shows "\<exists>body. body = append_tlv 1 name @ append_tlv 5 key @ append_tlv 4 sig @ [NUL]
    \<and> build_transfer_extra name key sig = wrap_nonce (object_magic DOMAIN_XFER @ body)
    \<and> length (object_magic DOMAIN_XFER @ body) \<le> 255 \<and> length name \<le> 255"
  using assms by (auto simp: build_transfer_extra_def wrap_nonce_nonempty)

text \<open>The relays of an update as the node stores them.\<close>

definition moved_to_front :: "string list \<Rightarrow> string list option" where
  "moved_to_front urls =
     (case filter (\<lambda>u. u \<noteq> []) urls of [] \<Rightarrow> None | us \<Rightarrow> Some (us @ replicate (3 - length us) []))"

lemma registration_found:
  assumes "\<forall>k \<in> set ks. length k = 32" "build_registration_extra name tier key fp urls \<noteq> []"
    and "length key = 33" "valid_key key" "length fp = 32" "length urls = 3"
  shows "\<exists>body. scan_extra beyond (concat (map (\<lambda>k. byte_of 1 # k) ks) @ build_registration_extra name tier key fp urls @ r) 0 =
      Some (Some (DOMAIN_REG, body))
    \<and> read_registration valid_key junk_key junk_hash body =
      Inr \<lparr>rg_name = name, rg_tier = ucast tier, rg_key = key, rg_fingerprint = fp, rg_relays = urls\<rparr>"
  using built_registration [OF assms(2)] scan_finds [OF assms(1), of DOMAIN_REG]
    read_built_registration [of key valid_key fp urls name] assms(3-6) by auto

lemma update_found:
  assumes "\<forall>k \<in> set ks. length k = 32" "build_update_extra name owner relays sig \<noteq> []"
    and "\<forall>k. owner = Some k \<longrightarrow> length k = 33 \<and> valid_key k" "length sig = 64" "\<forall>us. relays = Some us \<longrightarrow> length us = 3"
  shows "\<exists>body. scan_extra beyond (concat (map (\<lambda>k. byte_of 1 # k) ks) @ build_update_extra name owner relays sig @ r) 0 =
      Some (Some (DOMAIN_UPDATE, body))
    \<and> read_update valid_key body =
      Inr \<lparr>up_name = name, up_owner = owner, up_relays = Option.bind relays moved_to_front, up_signature = Some sig\<rparr>"
proof -
  let ?urls = "stored_relays relays"
  have len: "length ?urls \<le> 3"
    using assms(5) by (auto simp: stored_relays_def split: option.split intro: order_trans [OF length_filter_le])
  have eq: "Option.bind relays moved_to_front = (if ?urls = [] then None else Some (?urls @ replicate (3 - length ?urls) []))"
    by (auto simp: stored_relays_def moved_to_front_def split: option.split list.split)
  show ?thesis
    unfolding eq using built_update [OF assms(2)] scan_finds [OF assms(1), of DOMAIN_UPDATE]
      read_built_update [OF assms(3,4) _ len, of name] by auto
qed

lemma transfer_found:
  assumes "\<forall>k \<in> set ks. length k = 32" "build_transfer_extra name key sig \<noteq> []" "length key = 32" "length sig = 64"
  shows "\<exists>body. scan_extra beyond (concat (map (\<lambda>k. byte_of 1 # k) ks) @ build_transfer_extra name key sig @ r) 0 =
      Some (Some (DOMAIN_XFER, body))
    \<and> read_transfer body = Inr \<lparr>xf_name = name, xf_key = Some key, xf_signature = Some sig\<rparr>"
  using built_transfer [OF assms(2)] scan_finds [OF assms(1), of DOMAIN_XFER] read_built_transfer [OF assms(3,4), of name] by auto

section \<open>Properties\<close>

text \<open>
  C22: the search for a message of the registry ends on every extra field, wherever it starts, and what it
  returns lies inside the field: the payload is a contiguous part of it, shorter than \<open>2\<^sup>1\<^sup>4\<close> bytes.
\<close>
theorem domain_scan_ends:
  "\<exists>r. scan_extra beyond extra i = Some r \<and> (\<forall>k body. r = Some (k, body) \<longrightarrow> sublist body extra \<and> length body < 16384)"
  using scan_extra_returns unfolding part_of_def .

text \<open>
  C21: what the wallet writes, the node reads. A registration, update or transfer that was built without an error,
  behind any number of transaction keys and before any other bytes, is the message that the search finds, and
  the field loop reads exactly the written values; only the relays of an update are moved to the front.
\<close>
theorem domain_objects_roundtrip:
  assumes "\<forall>k \<in> set ks. length k = 32" "keys = concat (map (\<lambda>k. byte_of 1 # k) ks)"
  shows "(build_registration_extra name tier key fp urls \<noteq> [] \<and> length key = 33 \<and> valid_key key \<and> length fp = 32 \<and> length urls = 3 \<longrightarrow>
      (\<exists>body. scan_extra beyond (keys @ build_registration_extra name tier key fp urls @ r) 0 = Some (Some (DOMAIN_REG, body))
        \<and> read_registration valid_key junk_key junk_hash body =
          Inr \<lparr>rg_name = name, rg_tier = ucast tier, rg_key = key, rg_fingerprint = fp, rg_relays = urls\<rparr>))
    \<and> (build_update_extra name owner relays sig \<noteq> [] \<and> (\<forall>k. owner = Some k \<longrightarrow> length k = 33 \<and> valid_key k)
        \<and> length sig = 64 \<and> (\<forall>us. relays = Some us \<longrightarrow> length us = 3) \<longrightarrow>
      (\<exists>body. scan_extra beyond (keys @ build_update_extra name owner relays sig @ r) 0 = Some (Some (DOMAIN_UPDATE, body))
        \<and> read_update valid_key body =
          Inr \<lparr>up_name = name, up_owner = owner, up_relays = Option.bind relays moved_to_front, up_signature = Some sig\<rparr>))
    \<and> (build_transfer_extra name xkey sig \<noteq> [] \<and> length xkey = 32 \<and> length sig = 64 \<longrightarrow>
      (\<exists>body. scan_extra beyond (keys @ build_transfer_extra name xkey sig @ r) 0 = Some (Some (DOMAIN_XFER, body))
        \<and> read_transfer body = Inr \<lparr>xf_name = name, xf_key = Some xkey, xf_signature = Some sig\<rparr>))"
  unfolding assms(2)
  by (intro conjI impI; elim conjE; rule registration_found update_found transfer_found; (rule assms(1) | assumption))

section \<open>Witnesses\<close>

definition ex_owner :: bytes where
  "ex_owner = CHR 0x02 # replicate 32 (CHR 0x07)"

definition ex_registration_extra :: bytes where
  "ex_registration_extra = build_registration_extra ''ab..com'' 0 ex_owner (replicate 32 (CHR 0x09)) [''wss://r'', [], []]"

definition ex_transfer_extra :: bytes where
  "ex_transfer_extra = build_transfer_extra ''ab..com'' (replicate 32 (CHR 0x05)) (replicate 64 (CHR 0x06))"

lemma ex_extras: "ex_registration_extra \<noteq> []" "ex_transfer_extra \<noteq> []"
  by (simp_all add: ex_registration_extra_def ex_transfer_extra_def build_registration_extra_def build_transfer_extra_def
      wrap_nonce_nonempty ex_owner_def)

theorem domain_objects_roundtrip_witness:
  "\<exists>body. scan_extra [] ((byte_of 1 # replicate 32 (CHR 0x03)) @ ex_registration_extra) 0 = Some (Some (DOMAIN_REG, body))
    \<and> read_registration (\<lambda>k. k = ex_owner) [] [] body =
      Inr \<lparr>rg_name = ''ab..com'', rg_tier = 0, rg_key = ex_owner, rg_fingerprint = replicate 32 (CHR 0x09),
        rg_relays = [''wss://r'', [], []]\<rparr>"
  using domain_objects_roundtrip [of "[replicate 32 (CHR 0x03)]", OF _ refl, THEN conjunct1, rule_format,
      of "''ab..com''" 0 ex_owner "replicate 32 (CHR 0x09)" "[''wss://r'', [], []]" "\<lambda>k. k = ex_owner" "[]" "[]" "[]" "[]"] ex_extras(1)
  by (simp add: ex_registration_extra_def ex_owner_def)

theorem domain_scan_ends_witness:
  "\<exists>body. scan_extra [] ex_transfer_extra 0 = Some (Some (DOMAIN_XFER, body)) \<and> sublist body ex_transfer_extra"
proof -
  obtain body where "scan_extra [] ex_transfer_extra 0 = Some (Some (DOMAIN_XFER, body))"
    using transfer_found [of "[]" "''ab..com''" "replicate 32 (CHR 0x05)" "replicate 64 (CHR 0x06)" "[]" "[]"] ex_extras(2)
    by (auto simp: ex_transfer_extra_def)
  with domain_scan_ends [of "[]" ex_transfer_extra 0] show ?thesis by auto
qed

end
