(* ===== verification/Parameter_Execution.thy ===== *)
theory Parameter_Execution
  imports Domain_Policy Tx_Extra
begin

text \<open>
  Governance parameters with their defaults (\<^verbatim>\<open>src/src/governance/parameter_manager.cpp\<close>), the
  execution manager (\<^verbatim>\<open>execution.cpp\<close>), and the execution of a passed policy proposal,
  \<^verbatim>\<open>Blockchain::process_parameter_execution\<close>, which turns the seven kinds of update payload into
  policy records at the height of the block.

  The lemmas show when an execution happens and what it leaves behind, that undoing it restores
  the database, and that no execution can set a tier fee below the protocol's floor.
\<close>

section \<open>Parameter manager\<close>

primrec parameter_default :: "governance_parameter \<Rightarrow> u64" where
  "parameter_default proposal_submission_fee_param = 10000000"
| "parameter_default voting_quorum_percent_param = 10"
| "parameter_default treasury_ratio_param = 18"
| "parameter_default execution_delay_param = 720"
| "parameter_default voting_period_days_param = 14"
| "parameter_default domain_tier_fee_0 = 100000000000"
| "parameter_default domain_tier_fee_1 = 1000000000000"
| "parameter_default domain_tier_fee_2 = 10000000000000"
| "parameter_default domain_tier_fee_3 = 100000000000000"
| "parameter_default domain_tier_fee_4 = 1000000000000000"
| "parameter_default domain_tier_fee_5 = 10000000000000000"

definition get_governance_parameter :: "governance_parameter \<Rightarrow> u64 \<Rightarrow> vns_db \<Rightarrow> u64" where
  "get_governance_parameter param height db =
     (case get_parameter param height (db_parameters db) of
        Some v \<Rightarrow> v | None \<Rightarrow> parameter_default param)"

definition parameters_rollback_block :: "u64 \<Rightarrow> vns_db \<Rightarrow> vns_db" where
  "parameters_rollback_block height db =
     db\<lparr>db_parameters := remove_parameter_records_by_height_in_txn height (db_parameters db),
        db_extension_policy :=
          remove_extension_policy_records_by_height_in_txn height (db_extension_policy db),
        db_premium_label_policy :=
          remove_premium_label_policy_records_by_height_in_txn height (db_premium_label_policy db),
        db_banned_label_policy :=
          remove_banned_label_policy_records_by_height_in_txn height (db_banned_label_policy db),
        db_banned_extension_policy :=
          remove_banned_extension_policy_records_by_height_in_txn height (db_banned_extension_policy db),
        db_exact_ban_policy :=
          remove_exact_domain_ban_policy_records_by_height_in_txn height (db_exact_ban_policy db),
        db_exact_tier_policy :=
          remove_exact_domain_tier_policy_records_by_height_in_txn height (db_exact_tier_policy db)\<rparr>"

section \<open>Execution manager\<close>

text \<open>One pass of the loop of \<^verbatim>\<open>execute_due\<close>: only stale queue entries are removed.\<close>

definition execute_due_entry :: "u64 \<times> hash32 \<Rightarrow> vns_db \<Rightarrow> vns_db" where
  "execute_due_entry e db =
     (case e of (exec_height, pid) \<Rightarrow>
        case get_proposal_record pid db of
          None \<Rightarrow> remove_pending_execution exec_height pid db
        | Some rec \<Rightarrow>
            if pr_status rec \<noteq> PROPOSAL_STATUS_PASSED
            then remove_pending_execution exec_height pid db else db)"

definition execute_due :: "u64 \<Rightarrow> vns_db \<Rightarrow> vns_db" where
  "execute_due current_height db =
     fold execute_due_entry (get_pending_executions current_height db) db"

definition execution_rollback :: "hash32 \<Rightarrow> vns_db \<Rightarrow> vns_db" where
  "execution_rollback pid db =
     (case get_proposal_record pid db of
        None \<Rightarrow> db
      | Some rec \<Rightarrow>
          if pr_status rec = PROPOSAL_STATUS_EXECUTED \<or> pr_status rec = PROPOSAL_STATUS_FAILED_EXECUTION
          then
            let exec_record = get_proposal_execution_record pid db;
                previous_status_height =
                  (case exec_record of
                     None \<Rightarrow> pr_status_height rec
                   | Some er \<Rightarrow> if per_pre_execution_status_height er \<noteq> 0
                       then per_pre_execution_status_height er else pr_status_height rec);
                db = add_proposal_record (pr_proposal_id rec)
                  (rec\<lparr>pr_status := PROPOSAL_STATUS_PASSED, pr_executed := False,
                       pr_status_height := previous_status_height\<rparr>) db
            in if exec_record \<noteq> None then remove_proposal_execution_record pid db else db
          else db)"

section \<open>Executing a policy proposal\<close>

abbreviation (input) MIN_DOMAIN_TIER_FEE :: u64 where "MIN_DOMAIN_TIER_FEE \<equiv> 100000000000"
abbreviation (input) MAX_DOMAIN_TIER_FEE :: u64 where "MAX_DOMAIN_TIER_FEE \<equiv> 18446744073709551615"

text \<open>
  Three ways to end: \<open>Threw\<close>, a database error that propagates; \<open>Rejected\<close>, the code returns
  false, which it does before it writes anything; \<open>Applied\<close>, it returns true.
\<close>

datatype exec_result = Threw | Rejected | Applied vns_db

definition written :: "vns_db option \<Rightarrow> exec_result" where
  "written r = (case r of None \<Rightarrow> Threw | Some db \<Rightarrow> Applied db)"

definition policy_stamp_of :: "u64 \<Rightarrow> proposal_record \<Rightarrow> policy_stamp" where
  "policy_stamp_of height rec =
     \<lparr>activation_height = height, proposal_height = pr_submission_height rec,
      proposal_id = pr_proposal_id rec\<rparr>"

text \<open>The check of a fee update: the six tier fees in order, each within bounds.\<close>

definition fee_entries_ok :: "parameter_update_entry list \<Rightarrow> bool" where
  "fee_entries_ok es \<longleftrightarrow>
     length es = 6
     \<and> (\<forall>i < length es.
          pue_parameter (es ! i) = word_of_nat (parameter_code domain_tier_fee_0) + word_of_nat i
          \<and> \<not> pue_value (es ! i) < MIN_DOMAIN_TIER_FEE \<and> \<not> MAX_DOMAIN_TIER_FEE < pue_value (es ! i))"

text \<open>
  The record of one fee entry. The struct is not cleared before its members are assigned: \<open>junk\<close>
  is what its padding holds.
\<close>

definition fee_record :: "u64 \<Rightarrow> proposal_record \<Rightarrow> bytes \<Rightarrow> parameter_update_entry \<Rightarrow> parameter_record" where
  "fee_record height rec junk e =
     policy_stamp.extend (policy_stamp_of height rec)
       (parameter_record.fields (parameter_enum (pue_parameter e)) junk (pue_value e))"

primrec add_parameter_records ::
  "parameter_record list \<Rightarrow> parameter_record list \<Rightarrow> parameter_record list option" where
  "add_parameter_records [] t = Some t"
| "add_parameter_records (r # rs) t = do {
     t \<leftarrow> add_parameter_record_in_txn r t;
     add_parameter_records rs t
   }"

definition execute_fee_update ::
  "u64 \<Rightarrow> proposal_record \<Rightarrow> bytes \<Rightarrow> bytes \<Rightarrow> vns_db \<Rightarrow> exec_result" where
  "execute_fee_update height rec junk blob db =
     (case parse_all get_parameter_update blob of
        None \<Rightarrow> Rejected
      | Some payload \<Rightarrow>
          if pup_version payload \<noteq> 1 \<or> \<not> fee_entries_ok (pup_entries payload) then Rejected
          else written (map_option (\<lambda>t. db\<lparr>db_parameters := t\<rparr>)
            (add_parameter_records (map (fee_record height rec junk) (pup_entries payload))
              (db_parameters db))))"

definition execute_extension_update :: "u64 \<Rightarrow> proposal_record \<Rightarrow> bytes \<Rightarrow> vns_db \<Rightarrow> exec_result" where
  "execute_extension_update height rec blob db =
     (case parse_all get_extension_update blob of
        None \<Rightarrow> Rejected
      | Some payload \<Rightarrow>
          if eup_version payload \<noteq> 2 \<or> 5 < eup_tier payload then Rejected
          else
            let normalized = normalize_vns_extension (eup_extension payload) in
            if normalized = [] then Rejected
            else written (map_option (\<lambda>t. db\<lparr>db_extension_policy := t\<rparr>)
              (add_extension_policy_record_in_txn
                (policy_stamp.extend (policy_stamp_of height rec)
                  (extension_policy_record.fields (char_array 16 normalized) (eup_tier payload)))
                (db_extension_policy db))))"

definition execute_premium_update ::
  "governance_params \<Rightarrow> u64 \<Rightarrow> proposal_record \<Rightarrow> bytes \<Rightarrow> vns_db \<Rightarrow> exec_result" where
  "execute_premium_update gp height rec blob db =
     (case parse_all get_label_update blob of
        None \<Rightarrow> Rejected
      | Some payload \<Rightarrow>
          if lpu_version payload \<noteq> 3 then Rejected
          else
            let normalized = normalize_vns_label (lpu_term payload) in
            if normalized = [] \<or> 64 \<le> length normalized then Rejected
            else
              let current = (case get_premium_label_policy normalized height (db_premium_label_policy db) of
                  None \<Rightarrow> gp_is_premium_label gp normalized | Some r \<Rightarrow> prem_active r) in
              if lpu_enable payload = current then Rejected
              else written (map_option (\<lambda>t. db\<lparr>db_premium_label_policy := t\<rparr>)
                (add_premium_label_policy_record_in_txn
                  (policy_stamp.extend (policy_stamp_of height rec)
                    (premium_label_policy_record.fields (char_array 64 normalized) (lpu_enable payload)))
                  (db_premium_label_policy db))))"

definition execute_label_ban_update ::
  "governance_params \<Rightarrow> u64 \<Rightarrow> proposal_record \<Rightarrow> bytes \<Rightarrow> vns_db \<Rightarrow> exec_result" where
  "execute_label_ban_update gp height rec blob db =
     (case parse_all get_label_update blob of
        None \<Rightarrow> Rejected
      | Some payload \<Rightarrow>
          if lpu_version payload \<noteq> 4 then Rejected
          else
            let normalized = normalize_vns_label (lpu_term payload) in
            if normalized = [] \<or> 64 \<le> length normalized then Rejected
            else
              let current = (case get_banned_label_policy normalized height (db_banned_label_policy db) of
                  None \<Rightarrow> gp_is_label_banned gp normalized | Some r \<Rightarrow> bl_banned r) in
              if lpu_enable payload = current then Rejected
              else written (map_option (\<lambda>t. db\<lparr>db_banned_label_policy := t\<rparr>)
                (add_banned_label_policy_record_in_txn
                  (policy_stamp.extend (policy_stamp_of height rec)
                    (banned_label_policy_record.fields (char_array 64 normalized) (lpu_enable payload)))
                  (db_banned_label_policy db))))"

definition execute_extension_ban_update ::
  "governance_params \<Rightarrow> u64 \<Rightarrow> proposal_record \<Rightarrow> bytes \<Rightarrow> vns_db \<Rightarrow> exec_result" where
  "execute_extension_ban_update gp height rec blob db =
     (case parse_all get_label_update blob of
        None \<Rightarrow> Rejected
      | Some payload \<Rightarrow>
          if lpu_version payload \<noteq> 5 then Rejected
          else
            let normalized = normalize_vns_extension (lpu_term payload) in
            if normalized = [] \<or> 16 \<le> length normalized then Rejected
            else
              let current = (case get_banned_extension_policy normalized height (db_banned_extension_policy db) of
                  None \<Rightarrow> gp_is_extension_banned gp normalized | Some r \<Rightarrow> be_banned r) in
              if lpu_enable payload = current then Rejected
              else written (map_option (\<lambda>t. db\<lparr>db_banned_extension_policy := t\<rparr>)
                (add_banned_extension_policy_record_in_txn
                  (policy_stamp.extend (policy_stamp_of height rec)
                    (banned_extension_policy_record.fields (char_array 16 normalized) (lpu_enable payload)))
                  (db_banned_extension_policy db))))"

definition execute_domain_tier_update :: "u64 \<Rightarrow> proposal_record \<Rightarrow> bytes \<Rightarrow> vns_db \<Rightarrow> exec_result" where
  "execute_domain_tier_update height rec blob db =
     (case parse_all get_domain_tier_update blob of
        None \<Rightarrow> Rejected
      | Some payload \<Rightarrow>
          if edtu_version payload \<noteq> 6 \<or> 5 < edtu_tier payload then Rejected
          else
            let normalized = normalize_vns_domain (edtu_domain payload) in
            if normalized = [] \<or> 64 \<le> length normalized then Rejected
            else
              let (current_has_override, current_tier) =
                (case get_exact_domain_tier_policy normalized height (db_exact_tier_policy db) of
                   None \<Rightarrow> (False, 0) | Some r \<Rightarrow> (edt_has_tier_override r, edt_tier r)) in
              if edtu_enable payload = current_has_override
                 \<and> (\<not> edtu_enable payload \<or> edtu_tier payload = current_tier) then Rejected
              else written (map_option (\<lambda>t. db\<lparr>db_exact_tier_policy := t\<rparr>)
                (add_exact_domain_tier_policy_record_in_txn
                  (policy_stamp.extend (policy_stamp_of height rec)
                    (exact_domain_tier_policy_record.fields (char_array 64 normalized)
                      (edtu_enable payload) (edtu_tier payload)))
                  (db_exact_tier_policy db))))"

definition execute_domain_ban_update :: "u64 \<Rightarrow> proposal_record \<Rightarrow> bytes \<Rightarrow> vns_db \<Rightarrow> exec_result" where
  "execute_domain_ban_update height rec blob db =
     (case parse_all get_domain_ban_update blob of
        None \<Rightarrow> Rejected
      | Some payload \<Rightarrow>
          if edbu_version payload \<noteq> 7 then Rejected
          else
            let normalized = normalize_vns_domain (edbu_domain payload) in
            if normalized = [] \<or> 64 \<le> length normalized then Rejected
            else if get_vns_domain_record normalized db \<noteq> None then Rejected
            else
              let current = (case get_exact_domain_ban_policy normalized height (db_exact_ban_policy db) of
                  None \<Rightarrow> False | Some r \<Rightarrow> edb_banned r) in
              if edbu_enable payload = current then Rejected
              else written (map_option (\<lambda>t. db\<lparr>db_exact_ban_policy := t\<rparr>)
                (add_exact_domain_ban_policy_record_in_txn
                  (policy_stamp.extend (policy_stamp_of height rec)
                    (exact_domain_ban_policy_record.fields (char_array 64 normalized) (edbu_enable payload)))
                  (db_exact_ban_policy db))))"

text \<open>The first byte of the stored data is the payload version and selects the branch.\<close>

definition execute_payload ::
  "governance_params \<Rightarrow> u64 \<Rightarrow> proposal_record \<Rightarrow> bytes \<Rightarrow> bytes \<Rightarrow> vns_db \<Rightarrow> exec_result" where
  "execute_payload gp height rec junk blob db =
     (if blob = [] then Rejected
      else
        let payload_version = byte_val (hd blob) in
        if payload_version = 1 then execute_fee_update height rec junk blob db
        else if payload_version = 2 then execute_extension_update height rec blob db
        else if payload_version = 3 then execute_premium_update gp height rec blob db
        else if payload_version = 4 then execute_label_ban_update gp height rec blob db
        else if payload_version = 5 then execute_extension_ban_update gp height rec blob db
        else if payload_version = 6 then execute_domain_tier_update height rec blob db
        else if payload_version = 7 then execute_domain_ban_update height rec blob db
        else Rejected)"

text \<open>The records that mark the proposal as executed.\<close>

definition mark_executed :: "u64 \<Rightarrow> proposal_record \<Rightarrow> vns_db \<Rightarrow> vns_db" where
  "mark_executed height rec db =
     add_proposal_record (pr_proposal_id rec)
       (rec\<lparr>pr_status := PROPOSAL_STATUS_EXECUTED, pr_executed := True, pr_status_height := height\<rparr>)
       (add_proposal_execution_record
         \<lparr>per_proposal_id = pr_proposal_id rec, per_execution_height = height,
          per_execution_tx_hash = null_hash,
          per_pre_execution_status_height = pr_status_height rec\<rparr> db)"

definition process_parameter_execution ::
  "governance_params \<Rightarrow> u64 \<Rightarrow> hash32 \<Rightarrow> bytes \<Rightarrow> vns_db \<Rightarrow> exec_result" where
  "process_parameter_execution gp height pid junk db =
     (case get_proposal_record_in_txn pid db of
        None \<Rightarrow> Rejected
      | Some rec \<Rightarrow>
          if pr_type rec \<noteq> 1 \<or> pr_status rec \<noteq> PROPOSAL_STATUS_PASSED \<or> pr_executed rec then Rejected
          else
            let exec_delay = get_governance_parameter execution_delay_param height db in
            if height < pr_voting_end_height rec + exec_delay then Rejected
            else
              case get_proposal_data pid db of
                None \<Rightarrow> Rejected
              | Some blob \<Rightarrow>
                  (case execute_payload gp height rec junk blob db of
                     Threw \<Rightarrow> Threw
                   | Rejected \<Rightarrow> Rejected
                   | Applied db \<Rightarrow> Applied (mark_executed height rec db)))"

text \<open>The recogniser of execution transactions.\<close>

definition is_parameter_execution_tx :: "transaction \<Rightarrow> hash32 option" where
  "is_parameter_execution_tx tx =
     (if tx_vin tx \<noteq> [] \<or> tx_vout tx \<noteq> [] then None
      else
        case first_governance_payload (tx_extra tx) of
          None \<Rightarrow> None
        | Some p \<Rightarrow>
            if gpl_type p \<noteq> GO_execution then None
            else map_option pex_proposal_id (parse_all get_execution_payload (gpl_data p)))"

section \<open>What a policy write does to the tables\<close>

definition policy_fresh :: "u64 \<Rightarrow> vns_db \<Rightarrow> bool" where
  "policy_fresh h db \<longleftrightarrow>
     (\<forall>r \<in> set (db_parameters db). activation_height r \<noteq> h)
     \<and> (\<forall>r \<in> set (db_extension_policy db). activation_height r \<noteq> h)
     \<and> (\<forall>r \<in> set (db_premium_label_policy db). activation_height r \<noteq> h)
     \<and> (\<forall>r \<in> set (db_banned_label_policy db). activation_height r \<noteq> h)
     \<and> (\<forall>r \<in> set (db_banned_extension_policy db). activation_height r \<noteq> h)
     \<and> (\<forall>r \<in> set (db_exact_ban_policy db). activation_height r \<noteq> h)
     \<and> (\<forall>r \<in> set (db_exact_tier_policy db). activation_height r \<noteq> h)"

lemma policy_freshD:
  assumes "policy_fresh h db"
  shows "\<forall>r \<in> set (db_parameters db). activation_height r \<noteq> h"
    "\<forall>r \<in> set (db_extension_policy db). activation_height r \<noteq> h"
    "\<forall>r \<in> set (db_premium_label_policy db). activation_height r \<noteq> h"
    "\<forall>r \<in> set (db_banned_label_policy db). activation_height r \<noteq> h"
    "\<forall>r \<in> set (db_banned_extension_policy db). activation_height r \<noteq> h"
    "\<forall>r \<in> set (db_exact_ban_policy db). activation_height r \<noteq> h"
    "\<forall>r \<in> set (db_exact_tier_policy db). activation_height r \<noteq> h"
  using assms by (simp_all add: policy_fresh_def)

text \<open>A write at height \<open>h\<close>: well-formed, invisible below \<open>h\<close>, undone by the rollback of \<open>h\<close>.\<close>

definition policy_write :: "u64 \<Rightarrow> vns_db \<Rightarrow> vns_db \<Rightarrow> bool" where
  "policy_write h db db' \<longleftrightarrow>
     tables_wf db' \<and> parameters_rollback_block h db' = db \<and> (\<forall>h' < h. agree_upto h' db db')"

lemma rollback_simps [simp]:
  "db_proposals (parameters_rollback_block h db) = db_proposals db"
  "db_executions (parameters_rollback_block h db) = db_executions db"
  "db_pending_domain (parameters_rollback_block h db) = db_pending_domain db"
  by (simp_all add: parameters_rollback_block_def)

lemma rollback_updates:
  "parameters_rollback_block h (db\<lparr>db_parameters := t1\<rparr>) =
     (parameters_rollback_block h db)\<lparr>db_parameters := remove_parameter_records_by_height_in_txn h t1\<rparr>"
  "parameters_rollback_block h (db\<lparr>db_extension_policy := t2\<rparr>) =
     (parameters_rollback_block h db)\<lparr>db_extension_policy :=
       remove_extension_policy_records_by_height_in_txn h t2\<rparr>"
  "parameters_rollback_block h (db\<lparr>db_premium_label_policy := t3\<rparr>) =
     (parameters_rollback_block h db)\<lparr>db_premium_label_policy :=
       remove_premium_label_policy_records_by_height_in_txn h t3\<rparr>"
  "parameters_rollback_block h (db\<lparr>db_banned_label_policy := t4\<rparr>) =
     (parameters_rollback_block h db)\<lparr>db_banned_label_policy :=
       remove_banned_label_policy_records_by_height_in_txn h t4\<rparr>"
  "parameters_rollback_block h (db\<lparr>db_banned_extension_policy := t5\<rparr>) =
     (parameters_rollback_block h db)\<lparr>db_banned_extension_policy :=
       remove_banned_extension_policy_records_by_height_in_txn h t5\<rparr>"
  "parameters_rollback_block h (db\<lparr>db_exact_ban_policy := t6\<rparr>) =
     (parameters_rollback_block h db)\<lparr>db_exact_ban_policy :=
       remove_exact_domain_ban_policy_records_by_height_in_txn h t6\<rparr>"
  "parameters_rollback_block h (db\<lparr>db_exact_tier_policy := t7\<rparr>) =
     (parameters_rollback_block h db)\<lparr>db_exact_tier_policy :=
       remove_exact_domain_tier_policy_records_by_height_in_txn h t7\<rparr>"
  by (simp_all add: parameters_rollback_block_def)

lemma rollback_fresh:
  assumes "tables_wf db" "policy_fresh h db"
  shows "parameters_rollback_block h db = db"
  using param_tab.del_fresh [OF tables_wfD(1) [OF assms(1)] policy_freshD(1) [OF assms(2)]]
    ext_tab.del_fresh [OF tables_wfD(2) [OF assms(1)] policy_freshD(2) [OF assms(2)]]
    prem_tab.del_fresh [OF tables_wfD(3) [OF assms(1)] policy_freshD(3) [OF assms(2)]]
    blab_tab.del_fresh [OF tables_wfD(4) [OF assms(1)] policy_freshD(4) [OF assms(2)]]
    bext_tab.del_fresh [OF tables_wfD(5) [OF assms(1)] policy_freshD(5) [OF assms(2)]]
    eban_tab.del_fresh [OF tables_wfD(6) [OF assms(1)] policy_freshD(6) [OF assms(2)]]
    etier_tab.del_fresh [OF tables_wfD(7) [OF assms(1)] policy_freshD(7) [OF assms(2)]]
  by (simp add: parameters_rollback_block_def)

text \<open>One lemma per table: a put of a record of height \<open>h\<close> is a policy write.\<close>

lemma policy_write_put:
  assumes wf: "tables_wf db" and fresh: "policy_fresh h db"
  shows
    "add_extension_policy_record_in_txn r2 (db_extension_policy db) = Some t2 \<Longrightarrow>
       activation_height r2 = h \<Longrightarrow> policy_write h db (db\<lparr>db_extension_policy := t2\<rparr>)"
    "add_premium_label_policy_record_in_txn r3 (db_premium_label_policy db) = Some t3 \<Longrightarrow>
       activation_height r3 = h \<Longrightarrow> policy_write h db (db\<lparr>db_premium_label_policy := t3\<rparr>)"
    "add_banned_label_policy_record_in_txn r4 (db_banned_label_policy db) = Some t4 \<Longrightarrow>
       activation_height r4 = h \<Longrightarrow> policy_write h db (db\<lparr>db_banned_label_policy := t4\<rparr>)"
    "add_banned_extension_policy_record_in_txn r5 (db_banned_extension_policy db) = Some t5 \<Longrightarrow>
       activation_height r5 = h \<Longrightarrow> policy_write h db (db\<lparr>db_banned_extension_policy := t5\<rparr>)"
    "add_exact_domain_ban_policy_record_in_txn r6 (db_exact_ban_policy db) = Some t6 \<Longrightarrow>
       activation_height r6 = h \<Longrightarrow> policy_write h db (db\<lparr>db_exact_ban_policy := t6\<rparr>)"
    "add_exact_domain_tier_policy_record_in_txn r7 (db_exact_tier_policy db) = Some t7 \<Longrightarrow>
       activation_height r7 = h \<Longrightarrow> policy_write h db (db\<lparr>db_exact_tier_policy := t7\<rparr>)"
proof -
  note D = tables_wfD [OF wf] and F = policy_freshD [OF fresh]
  note R = rollback_updates rollback_fresh [OF wf fresh]
  show "policy_write h db (db\<lparr>db_extension_policy := t2\<rparr>)"
    if put: "add_extension_policy_record_in_txn r2 (db_extension_policy db) = Some t2"
      and act: "activation_height r2 = h"
    using D ext_tab.put_wf [OF D(2) put] ext_tab.put_set [OF put] act
      ext_tab.del_put [OF D(2) put] F(2)
    by (auto simp: policy_write_def tables_wf_def agree_upto_def R)
  show "policy_write h db (db\<lparr>db_premium_label_policy := t3\<rparr>)"
    if put: "add_premium_label_policy_record_in_txn r3 (db_premium_label_policy db) = Some t3"
      and act: "activation_height r3 = h"
    using D prem_tab.put_wf [OF D(3) put] prem_tab.put_set [OF put] act
      prem_tab.del_put [OF D(3) put] F(3)
    by (auto simp: policy_write_def tables_wf_def agree_upto_def R)
  show "policy_write h db (db\<lparr>db_banned_label_policy := t4\<rparr>)"
    if put: "add_banned_label_policy_record_in_txn r4 (db_banned_label_policy db) = Some t4"
      and act: "activation_height r4 = h"
    using D blab_tab.put_wf [OF D(4) put] blab_tab.put_set [OF put] act
      blab_tab.del_put [OF D(4) put] F(4)
    by (auto simp: policy_write_def tables_wf_def agree_upto_def R)
  show "policy_write h db (db\<lparr>db_banned_extension_policy := t5\<rparr>)"
    if put: "add_banned_extension_policy_record_in_txn r5 (db_banned_extension_policy db) = Some t5"
      and act: "activation_height r5 = h"
    using D bext_tab.put_wf [OF D(5) put] bext_tab.put_set [OF put] act
      bext_tab.del_put [OF D(5) put] F(5)
    by (auto simp: policy_write_def tables_wf_def agree_upto_def R)
  show "policy_write h db (db\<lparr>db_exact_ban_policy := t6\<rparr>)"
    if put: "add_exact_domain_ban_policy_record_in_txn r6 (db_exact_ban_policy db) = Some t6"
      and act: "activation_height r6 = h"
    using D eban_tab.put_wf [OF D(6) put] eban_tab.put_set [OF put] act
      eban_tab.del_put [OF D(6) put] F(6)
    by (auto simp: policy_write_def tables_wf_def agree_upto_def R)
  show "policy_write h db (db\<lparr>db_exact_tier_policy := t7\<rparr>)"
    if put: "add_exact_domain_tier_policy_record_in_txn r7 (db_exact_tier_policy db) = Some t7"
      and act: "activation_height r7 = h"
    using D etier_tab.put_wf [OF D(7) put] etier_tab.put_set [OF put] act
      etier_tab.del_put [OF D(7) put] F(7)
    by (auto simp: policy_write_def tables_wf_def agree_upto_def R)
qed

lemma add_parameter_records_wf:
  assumes "table_wf parameter_place t" "add_parameter_records rs t = Some t'"
  shows "table_wf parameter_place t'" and "set t' = set rs \<union> set t"
  using assms
proof (induction rs arbitrary: t)
  case (Cons r rs)
  {
    case 1
    then obtain t1 where "add_parameter_record_in_txn r t = Some t1" "add_parameter_records rs t1 = Some t'"
      by (auto simp: bind_eq_Some_conv)
    with Cons.IH(1) 1 show ?case using param_tab.put_wf by blast
  next
    case 2
    then obtain t1 where "add_parameter_record_in_txn r t = Some t1" "add_parameter_records rs t1 = Some t'"
      by (auto simp: bind_eq_Some_conv)
    with Cons.IH(2) 2 show ?case using param_tab.put_wf param_tab.put_set by fastforce
  }
qed simp_all

lemma policy_write_params:
  assumes wf: "tables_wf db" and fresh: "policy_fresh h db"
    and add: "add_parameter_records rs (db_parameters db) = Some t"
    and act: "\<forall>r \<in> set rs. activation_height r = h"
  shows "policy_write h db (db\<lparr>db_parameters := t\<rparr>)"
proof -
  note D = tables_wfD [OF wf] and F = policy_freshD [OF fresh]
  note wt = add_parameter_records_wf [OF D(1) add]
  have "remove_parameter_records_by_height_in_txn h t = db_parameters db"
    by (rule param_tab.wf_ext) (use D(1) wt F(1) act in \<open>auto simp: param_tab.del_wf param_tab.del_set\<close>)
  then show ?thesis
    using D wt act
    by (auto simp: policy_write_def tables_wf_def agree_upto_def rollback_updates
        rollback_fresh [OF wf fresh])
qed

lemma stamp_act [simp]:
  "activation_height (policy_stamp.extend (policy_stamp_of h rec) m) = h"
  by (simp add: policy_stamp_of_def policy_stamp.defs)

lemma written_eq [simp]:
  "written r = Applied db \<longleftrightarrow> r = Some db" "written r \<noteq> Rejected"
  by (auto simp: written_def split: option.splits)

lemma execute_payload_write:
  assumes "tables_wf db" "policy_fresh height db"
    and "execute_payload gp height rec junk blob db = Applied db'"
  shows "policy_write height db db'"
  using assms(3)
  by (auto simp: execute_payload_def execute_fee_update_def execute_extension_update_def
      execute_premium_update_def execute_label_ban_update_def execute_extension_ban_update_def
      execute_domain_tier_update_def execute_domain_ban_update_def Let_def fee_record_def
      intro!: policy_write_put [OF assms(1,2)] policy_write_params [OF assms(1,2)]
      split: if_splits option.splits prod.splits)

lemma policy_write_frame:
  assumes "policy_write h db db'"
  shows "db_proposals db' = db_proposals db" "db_executions db' = db_executions db"
    "db_pending_domain db' = db_pending_domain db" "tables_wf db'"
    "parameters_rollback_block h db' = db"
  using assms rollback_simps [of h db'] by (auto simp: policy_write_def)

section \<open>Executing and undoing\<close>

lemma execution_cases:
  assumes "process_parameter_execution gp height pid junk db = Applied db'"
  obtains rec blob db1 where "get_proposal_record pid db = Some rec" "pr_type rec = 1"
    "pr_status rec = PROPOSAL_STATUS_PASSED" "\<not> pr_executed rec"
    "pr_voting_end_height rec + get_governance_parameter execution_delay_param height db \<le> height"
    "get_proposal_data pid db = Some blob"
    "execute_payload gp height rec junk blob db = Applied db1" "db' = mark_executed height rec db1"
  using assms that
  by (auto simp: process_parameter_execution_def Let_def not_less
      split: option.splits if_splits exec_result.splits)

lemma get_proposal_cong: "db_proposals db' = db_proposals db \<Longrightarrow> get_proposal_record k db' = get_proposal_record k db"
  by (simp add: get_proposal_record_def)

lemma get_proposal_add_execution [simp]:
  "get_proposal_record k (add_proposal_execution_record e db) = get_proposal_record k db"
  by (simp add: get_proposal_record_def add_proposal_execution_record_def)

lemma mark_executed_undo:
  assumes wf: "tables_wf db" and rec: "get_proposal_record pid db = Some rec" "pr_proposal_id rec = pid"
    and st: "pr_status rec = PROPOSAL_STATUS_PASSED" "\<not> pr_executed rec" "pr_status_height rec \<noteq> 0"
    and none: "db_executions db pid = None"
  shows "execution_rollback pid (mark_executed height rec db) = db"
proof -
  let ?r = "rec\<lparr>pr_status := PROPOSAL_STATUS_EXECUTED, pr_executed := True, pr_status_height := height\<rparr>"
  let ?e = "\<lparr>per_proposal_id = pid, per_execution_height = height, per_execution_tx_hash = null_hash,
      per_pre_execution_status_height = pr_status_height rec\<rparr>"
  let ?d = "add_proposal_record pid ?r (add_proposal_execution_record ?e db)"
  have me: "mark_executed height rec db = ?d"
    by (simp add: mark_executed_def rec(2))
  have g: "get_proposal_record pid ?d = Some ?r" by simp
  have ex: "get_proposal_execution_record pid ?d = Some ?e"
    by (simp add: get_proposal_execution_record_def add_proposal_record_def add_proposal_execution_record_def)
  have orig: "?r\<lparr>pr_status := PROPOSAL_STATUS_PASSED, pr_executed := False,
      pr_status_height := pr_status_height rec\<rparr> = rec"
    using st by simp
  have "execution_rollback pid ?d =
      remove_proposal_execution_record pid (add_proposal_record pid rec ?d)"
    using st(3) orig by (simp add: execution_rollback_def g ex rec(2))
  also have "\<dots> = db\<lparr>db_proposals := db_proposals (add_proposal_record pid rec (add_proposal_record pid ?r db))\<rparr>"
    using none
    by (simp add: remove_proposal_execution_record_def add_proposal_record_def
        add_proposal_execution_record_def fun_upd_idem)
  also have "\<dots> = db" by (simp add: add_proposal_restore [OF wf rec(1)])
  finally show ?thesis by (simp only: me)
qed

section \<open>The fee floor\<close>

definition tier_fee_params :: "governance_parameter set" where
  "tier_fee_params = {domain_tier_fee_0, domain_tier_fee_1, domain_tier_fee_2, domain_tier_fee_3,
     domain_tier_fee_4, domain_tier_fee_5}"

definition records_above_floor :: "vns_db \<Rightarrow> bool" where
  "records_above_floor db \<longleftrightarrow>
     (\<forall>r \<in> set (db_parameters db). prm_parameter r \<in> tier_fee_params \<longrightarrow> MIN_DOMAIN_TIER_FEE \<le> prm_value r)"

definition params_above_floor :: "governance_params \<Rightarrow> bool" where
  "params_above_floor gp \<longleftrightarrow>
     length (tier_fees gp) = 6 \<and> (\<forall>f \<in> set (tier_fees gp). MIN_DOMAIN_TIER_FEE \<le> f)"

lemma tier_fee_parameter_in: "t \<le> TIER_SOVEREIGN \<Longrightarrow> tier_fee_parameter t \<in> tier_fee_params"
proof -
  assume "t \<le> 5"
  then have "t < 6" by unat_arith
  from u8_less_6_cases [OF this] show ?thesis
    by (elim disjE) (simp_all add: tier_fee_parameter_def parameter_enum_def tier_fee_params_def)
qed

lemma fee_at_floor:
  assumes "tables_wf db" "records_above_floor db" "params_above_floor gp" "t \<le> TIER_PREMIUM"
  shows "MIN_DOMAIN_TIER_FEE \<le> fee_at gp db t h"
proof (cases "t = 6")
  case True
  then show ?thesis by (simp add: fee_at_def PREMIUM_TIER_FEE_def)
next
  case False
  with assms(4) have t: "t \<le> 5" "unat t < 6" by unat_arith+
  show ?thesis
  proof (cases "get_parameter_record (tier_fee_parameter t) h (db_parameters db)")
    case None
    with False t(2) assms(3) show ?thesis
      by (simp add: fee_at_def get_parameter_record_value params_above_floor_def)
  next
    case (Some r)
    from param_tab.get_sound [OF tables_wfD(1) [OF assms(1)] this]
    have "r \<in> set (db_parameters db)" "prm_parameter r \<in> tier_fee_params"
      using tier_fee_parameter_in [OF t(1)] by auto
    with Some False assms(2) show ?thesis
      by (simp add: fee_at_def get_parameter_record_value records_above_floor_def)
  qed
qed

lemma resolve_fee_floor:
  assumes "tables_wf db" "records_above_floor db" "params_above_floor gp"
    and "resolve_domain_policy gp db d h res = (True, res')" "registration_allowed res'"
  shows "MIN_DOMAIN_TIER_FEE \<le> dp_fee res'"
proof -
  have "normalize_vns_domain d \<noteq> []"
    using assms(4) resolve_invalid by force
  then obtain l e where "parse_vns_domain (normalize_vns_domain d) = Some (l, e)"
    by (rule normalized_cases [OF refl])
  from resolve_cases [OF refl \<open>normalize_vns_domain d \<noteq> []\<close> this assms(4)] assms(5)
  show ?thesis using fee_at_floor [OF assms(1-3)] by (auto split: if_splits)
qed

lemma execute_payload_floor:
  assumes "tables_wf db" "records_above_floor db"
    and "execute_payload gp height rec junk blob db = Applied db'"
  shows "records_above_floor db'"
proof (cases "db_parameters db' = db_parameters db")
  case True
  with assms(2) show ?thesis by (simp add: records_above_floor_def)
next
  case False
  with assms(3) obtain es t where ok: "fee_entries_ok es"
    and add: "add_parameter_records (map (fee_record height rec junk) es) (db_parameters db) = Some t"
    and db': "db' = db\<lparr>db_parameters := t\<rparr>"
    by (auto simp: execute_payload_def execute_fee_update_def execute_extension_update_def
        execute_premium_update_def execute_label_ban_update_def execute_extension_ban_update_def
        execute_domain_tier_update_def execute_domain_ban_update_def Let_def
        split: if_splits option.splits prod.splits)
  have "MIN_DOMAIN_TIER_FEE \<le> pue_value e" if "e \<in> set es" for e
    using that ok by (auto simp: fee_entries_ok_def in_set_conv_nth not_less)
  then show ?thesis
    using add_parameter_records_wf(2) [OF tables_wfD(1) [OF assms(1)] add] assms(2)
    by (auto simp: records_above_floor_def db' fee_record_def parameter_record.defs policy_stamp.defs
        policy_stamp_of_def)
qed

lemma mark_executed_simps [simp]:
  "db_parameters (mark_executed h rec db) = db_parameters db"
  "records_above_floor (mark_executed h rec db) = records_above_floor db"
  by (simp_all add: mark_executed_def add_proposal_record_def add_proposal_execution_record_def
      records_above_floor_def)

lemma mark_executed_wf:
  assumes "tables_wf db" "length (pr_proposal_id rec) = 32"
  shows "tables_wf (mark_executed h rec db)"
proof -
  let ?r = "rec\<lparr>pr_status := PROPOSAL_STATUS_EXECUTED, pr_executed := True, pr_status_height := h\<rparr>"
  have p: "db_proposals (mark_executed h rec db) =
      db_proposals (add_proposal_record (pr_proposal_id rec) ?r db)"
    by (simp add: mark_executed_def add_proposal_record_def add_proposal_execution_record_def)
  have "table_wf hash_place (db_proposals (mark_executed h rec db))"
    unfolding p by (rule wf_add_proposal [OF tables_wfD(11,12) [OF assms(1)] assms(2)])
  moreover have "\<forall>e \<in> set (db_proposals (mark_executed h rec db)). length (fst e) = 32"
    unfolding p using tables_wfD(12) [OF assms(1)] assms(2) by (auto simp: set_add_proposal)
  ultimately show ?thesis
    using assms(1) unfolding tables_wf_def
    by (simp add: mark_executed_def add_proposal_record_def add_proposal_execution_record_def)
qed

section \<open>An executed ban is in force\<close>

lemma canonical_domain_plain: "canonical_domain d \<Longrightarrow> plain_string 64 d"
proof -
  assume d: "canonical_domain d"
  have "\<not> (islower NUL \<or> isdigit NUL \<or> NUL = CHR ''-'' \<or> NUL = CHR ''.'')"
    by (simp add: char_defs byte_val_def)
  with d have "NUL \<notin> set d"
    by (auto simp: canonical_domain_def canonical_label_def canonical_ext_def)
  with canonical_domain_length [OF d] show ?thesis by (simp add: plain_string_def)
qed

lemma ban_update_record:
  fixes payload height rec
  defines "r \<equiv> policy_stamp.extend (policy_stamp_of height rec)
    (exact_domain_ban_policy_record.fields (char_array 64 (normalize_vns_domain (edbu_domain payload)))
      (edbu_enable payload))"
  assumes "execute_domain_ban_update height rec blob db = Applied db'"
    and "parse_all get_domain_ban_update blob = Some payload"
  obtains t where "db' = db\<lparr>db_exact_ban_policy := t\<rparr>"
    "add_exact_domain_ban_policy_record_in_txn r (db_exact_ban_policy db) = Some t"
    "normalize_vns_domain (edbu_domain payload) \<noteq> []"
  using assms(2,3) that
  by (auto simp: execute_domain_ban_update_def Let_def r_def split: if_splits option.splits)

lemma exact_ban_after:
  assumes wf: "tables_wf db"
    and put: "add_exact_domain_ban_policy_record_in_txn r (db_exact_ban_policy db) = Some t"
    and r: "activation_height r = height" "edb_banned r" "edb_domain r = char_array 64 n"
    and n: "canonical_domain n" and h: "height \<le> h"
    and older: "\<forall>x \<in> set (db_exact_ban_policy db). activation_height x < height"
  shows "exact_ban (db\<lparr>db_exact_ban_policy := t\<rparr>) n h = Some r"
proof -
  have "strncmp_eq 64 (edb_domain r) n"
    using n by (simp add: r strncmp_eq_char_array canonical_domain_plain)
  then have "get_exact_domain_ban_policy n h t = Some r"
    using r h older by (intro eban_tab.get_put_newest [OF tables_wfD(6) [OF wf] put]) auto
  then show ?thesis by (simp add: exact_ban_def r)
qed

section \<open>Properties\<close>

text \<open>
  C1: undoing the execution of a policy proposal restores the database exactly. Let a policy
  proposal be executed in a block at a height at which no policy record exists yet, its record
  being stored under its own id with a non-zero status height and no execution record. Then the
  two rollback steps of that block, of the execution and of the height's policy records, give the
  database as it was, every table included.
\<close>
theorem parameter_execution_undo:
  assumes "tables_wf db" "policy_fresh height db"
    and "get_proposal_record pid db = Some rec" "pr_proposal_id rec = pid" "pr_status_height rec \<noteq> 0"
    and "get_proposal_execution_record pid db = None"
    and "process_parameter_execution gp height pid junk db = Applied db'"
  shows "parameters_rollback_block height (execution_rollback pid db') = db"
proof -
  obtain blob db1 where st: "pr_status rec = PROPOSAL_STATUS_PASSED" "\<not> pr_executed rec"
    and ex: "execute_payload gp height rec junk blob db = Applied db1"
    and db': "db' = mark_executed height rec db1"
    by (rule execution_cases [OF assms(7)]) (use assms(3) in auto)
  note fr = policy_write_frame [OF execute_payload_write [OF assms(1,2) ex]]
  have "execution_rollback pid db' = db1"
    unfolding db' using fr assms(3-6) st
    by (intro mark_executed_undo) (simp_all add: get_proposal_record_def get_proposal_execution_record_def)
  with fr(5) show ?thesis by simp
qed



text \<open>
  C20: an executed ban is in force from its height on. When a ban of an exact name is executed at a
  height above every earlier exact-domain ban record, then from that height on no spelling of the
  name can be registered, whatever the other tables hold.
\<close>
theorem executed_ban_in_force:
  assumes "tables_wf db" "process_parameter_execution gp height pid junk db = Applied db'"
    and "get_proposal_data pid db = Some (put_domain_ban_update payload)"
    and "edbu_version payload = 7" "edbu_enable payload" "length (edbu_domain payload) < 2 ^ 64"
    and "\<forall>r \<in> set (db_exact_ban_policy db). activation_height r < height"
    and "normalize_vns_domain d = normalize_vns_domain (edbu_domain payload)" "height \<le> h"
    and "resolve_domain_policy gp' db' d h res = (ok, res')"
  shows "ok \<and> \<not> registration_allowed res'"
proof -
  let ?n = "normalize_vns_domain (edbu_domain payload)" and ?blob = "put_domain_ban_update payload"
  obtain rec db1 where ex: "execute_payload gp height rec junk ?blob db = Applied db1"
    and db': "db' = mark_executed height rec db1"
    by (rule execution_cases [OF assms(2)]) (use assms(3) in auto)
  have parse: "parse_all get_domain_ban_update ?blob = Some payload"
    using assms(6) by (simp add: domain_ban_update.parse_all_enc)
  have "byte_val (hd ?blob) = 7" "?blob \<noteq> []"
    using assms(4) by (simp_all add: put_domain_ban_update_def put_varint8_def write_varint.simps)
  with ex have ban: "execute_domain_ban_update height rec ?blob db = Applied db1"
    by (simp add: execute_payload_def)
  obtain t where db1: "db1 = db\<lparr>db_exact_ban_policy := t\<rparr>" and ne: "?n \<noteq> []"
    and put: "add_exact_domain_ban_policy_record_in_txn
      (policy_stamp.extend (policy_stamp_of height rec)
        (exact_domain_ban_policy_record.fields (char_array 64 ?n) (edbu_enable payload)))
      (db_exact_ban_policy db) = Some t" (is "add_exact_domain_ban_policy_record_in_txn ?r _ = _")
    by (rule ban_update_record [OF ban parse])
  have r: "edb_banned ?r" "edb_domain ?r = char_array 64 ?n"
    using assms(5) by (simp_all add: exact_domain_ban_policy_record.defs policy_stamp.defs policy_stamp_of_def)
  have can: "canonical_domain ?n" using ne normalize_vns_domain_canonical by blast
  have "exact_ban db1 ?n h = Some ?r"
    unfolding db1 by (rule exact_ban_after [OF assms(1) put stamp_act r can assms(9,7)])
  then have "exact_ban db' ?n h \<noteq> None"
    by (simp add: db' exact_ban_def mark_executed_def add_proposal_record_def
        add_proposal_execution_record_def)
  moreover obtain l e where "parse_vns_domain ?n = Some (l, e)"
    by (rule normalized_cases [OF refl ne])
  ultimately show ?thesis
    using resolve_cases [OF assms(8) ne _ assms(10)] by (auto simp: name_barred_def split: if_splits)
qed

section \<open>An example\<close>

definition ex_pid :: hash32 where
  "ex_pid = replicate 32 (CHR 0x01)"

definition ex_payload :: exact_domain_ban_update_payload where
  "ex_payload = \<lparr>edbu_version = 7, edbu_domain = ''scam..shop'', edbu_enable = True\<rparr>"

definition ex_proposal :: proposal_record where
  "ex_proposal =
     \<lparr>pr_proposal_id = ex_pid, pr_type = 1, pr_title = [], pr_description = [], pr_recipient = [],
      pr_amount = 0, pr_voting_period_days = 7, pr_submission_height = 100,
      pr_voting_end_height = 5141, pr_tally_key_id = null_hash, pr_submission_tx_hash = ex_pid,
      pr_executed = False, pr_status = PROPOSAL_STATUS_PASSED, pr_status_height = 5142,
      pr_recipient_view_public_key = null_hash, pr_is_subaddress = False\<rparr>"

definition ex_db :: vns_db where
  "ex_db = empty_db\<lparr>db_proposals := [(ex_pid, ex_proposal)],
     db_proposal_data := [ex_pid \<mapsto> put_domain_ban_update ex_payload]\<rparr>"

lemma ex_domain_canonical: "canonical_domain ''scam..shop''"
  unfolding canonical_domain_def
  by (rule exI [of _ "''scam''"], rule exI [of _ "''shop''"])
    (simp add: canonical_label_def canonical_ext_def char_defs byte_val_def)

lemma ex_db_wf: "tables_wf ex_db" "policy_fresh h ex_db" "records_above_floor ex_db"
  "get_proposal_record ex_pid ex_db = Some ex_proposal"
  "get_proposal_data ex_pid ex_db = Some (put_domain_ban_update ex_payload)"
  "get_proposal_execution_record ex_pid ex_db = None" "db_exact_ban_policy ex_db = []"
  "length ex_pid = 32"
  by (simp_all add: ex_db_def tables_wf_def empty_db_def table_wf_def policy_fresh_def
      records_above_floor_def ex_pid_def get_proposal_record_def get_proposal_data_def
      get_proposal_execution_record_def)

lemma ex_payload_sel:
  "edbu_version ex_payload = 7" "edbu_domain ex_payload = ''scam..shop''" "edbu_enable ex_payload"
  by (simp_all add: ex_payload_def)

lemma ex_parse: "parse_all get_domain_ban_update (put_domain_ban_update ex_payload) = Some ex_payload"
  by (rule domain_ban_update.parse_all_enc) (simp add: ex_payload_def)

lemma ex_execution: "\<exists>db'. process_parameter_execution gp 6000 ex_pid junk ex_db = Applied db'"
proof -
  have v: "byte_val (hd (put_domain_ban_update ex_payload)) = 7" "put_domain_ban_update ex_payload \<noteq> []"
    by (simp_all add: put_domain_ban_update_def put_varint8_def write_varint.simps ex_payload_def)
  have n: "normalize_vns_domain ''scam..shop'' = ''scam..shop''"
    by (rule normalize_of_canonical [OF ex_domain_canonical])
  have d: "get_governance_parameter execution_delay_param 6000 ex_db = 720"
    by (simp add: get_governance_parameter_def get_parameter_def ex_db_def empty_db_def)
  have "get_vns_domain_record s ex_db = None" for s
    by (simp add: get_vns_domain_record_def ex_db_def empty_db_def)
  then have "execute_domain_ban_update 6000 ex_proposal (put_domain_ban_update ex_payload) ex_db =
      written (map_option (\<lambda>t. ex_db\<lparr>db_exact_ban_policy := t\<rparr>)
        (add_exact_domain_ban_policy_record_in_txn
          (policy_stamp.extend (policy_stamp_of 6000 ex_proposal)
            (exact_domain_ban_policy_record.fields (char_array 64 ''scam..shop'') True)) []))"
    by (simp add: execute_domain_ban_update_def ex_parse ex_payload_sel n ex_db_wf(7)
        get_exact_domain_ban_policy_def)
  then have "\<exists>db1. execute_domain_ban_update 6000 ex_proposal (put_domain_ban_update ex_payload) ex_db = Applied db1"
    by (simp add: add_exact_domain_ban_policy_record_in_txn_def cursor_put_new_def)
  with v show ?thesis
    by (auto simp: process_parameter_execution_def ex_db_wf(4,5) d execute_payload_def)
      (simp_all add: ex_proposal_def)
qed

section \<open>Witnesses\<close>

theorem parameter_execution_undo_witness:
  "\<exists>db'. process_parameter_execution sample_params 6000 ex_pid [] ex_db = Applied db'
     \<and> parameters_rollback_block 6000 (execution_rollback ex_pid db') = ex_db"
proof -
  obtain db' where a: "process_parameter_execution sample_params 6000 ex_pid [] ex_db = Applied db'"
    using ex_execution by blast
  from parameter_execution_undo [OF ex_db_wf(1,2,4) _ _ ex_db_wf(6) this] a show ?thesis
    by (simp add: ex_proposal_def)
qed



theorem executed_ban_in_force_witness:
  "\<exists>db'. process_parameter_execution sample_params 6000 ex_pid [] ex_db = Applied db'
     \<and> (\<forall>res. \<not> registration_allowed
          (snd (resolve_domain_policy sample_params db' ''scam..shop'' 7000 res)))"
proof -
  obtain db' where a: "process_parameter_execution sample_params 6000 ex_pid [] ex_db = Applied db'"
    using ex_execution by blast
  have "\<not> registration_allowed (snd (resolve_domain_policy sample_params db' ''scam..shop'' 7000 res))" for res
    using executed_ban_in_force [OF ex_db_wf(1) a ex_db_wf(5), of "''scam..shop''" 7000 sample_params res
        "fst (resolve_domain_policy sample_params db' ''scam..shop'' 7000 res)"
        "snd (resolve_domain_policy sample_params db' ''scam..shop'' 7000 res)"]
    by (simp add: ex_payload_sel ex_db_wf(7))
  with a show ?thesis by blast
qed

end
