(* ===== verification/Lifecycle.thy ===== *)
theory Lifecycle
  imports Parameter_Execution
begin

text \<open>
  The treasury (\<^verbatim>\<open>src/src/governance/treasury.cpp\<close>) and the decision on a proposal when its voting
  ends (\<^verbatim>\<open>lifecycle_manager.cpp\<close>).

  The block store is the argument \<open>ch\<close>: the height of the chain and the coins generated up to a
  block, where \<open>None\<close> is the exception for a block that does not exist. Supplies have 128 bits, as
  \<^verbatim>\<open>vns_supply_t\<close>; the balances and fees have 64 bits and their sums wrap.
\<close>

type_synonym u128 = "128 word"

record chain =
  ch_height :: u64
  ch_generated_coins :: "u64 \<Rightarrow> u128 option"

text \<open>The outcome of a step that may throw or return false, with the state it leaves.\<close>

datatype 's step = Threw_in 's | False_in 's | True_in 's

primrec and_then :: "'s step \<Rightarrow> ('s \<Rightarrow> 's step) \<Rightarrow> 's step" where
  "and_then (Threw_in s) f = Threw_in s"
| "and_then (False_in s) f = False_in s"
| "and_then (True_in s) f = f s"

primrec step_state :: "'s step \<Rightarrow> 's" where
  "step_state (Threw_in s) = s"
| "step_state (False_in s) = s"
| "step_state (True_in s) = s"

text \<open>
  The write transaction of the database: none, one for a block, or a batch. A transaction of a
  block cannot be opened twice; within a batch, starting, committing and aborting do nothing.
\<close>

datatype write_txn = No_txn | Block_txn | Batch_txn

definition in_write_txn :: "write_txn \<Rightarrow> (vns_db \<Rightarrow> vns_db step) \<Rightarrow> vns_db \<Rightarrow> bool \<times> vns_db" where
  "in_write_txn txn f db =
     (if txn = Block_txn then (False, db)
      else case f db of
        True_in db' \<Rightarrow> (True, db')
      | r \<Rightarrow> (False, if txn = Batch_txn then step_state r else db))"

section \<open>Treasury\<close>

definition credit_emission :: "u64 \<Rightarrow> vns_db \<Rightarrow> vns_db" where
  "credit_emission amount db =
     (if amount = 0 then db
      else
        let balance = get_treasury_balance db in
        if - 1 - amount < balance then db
        else set_treasury_balance (balance + amount) db)"

text \<open>\<open>junk\<close> is the status height of the execution record, which is never set.\<close>

definition execute_grant :: "hash32 \<Rightarrow> u64 \<Rightarrow> u64 \<Rightarrow> vns_db \<Rightarrow> bool \<times> vns_db" where
  "execute_grant pid amount junk db =
     (if amount = 0 then (False, db)
      else
        let balance = get_treasury_balance db in
        if balance < amount then (False, db)
        else
          (True,
           add_proposal_execution_record
             \<lparr>per_proposal_id = pid, per_execution_height = 0, per_execution_tx_hash = null_hash,
              per_pre_execution_status_height = junk\<rparr>
             (set_treasury_balance (balance - amount) db)))"

definition rollback_grant :: "hash32 \<Rightarrow> u64 \<Rightarrow> vns_db \<Rightarrow> vns_db" where
  "rollback_grant pid amount db =
     (if amount = 0 then db
      else
        let balance = get_treasury_balance db in
        if - 1 - amount < balance then db
        else remove_proposal_execution_record pid (set_treasury_balance (balance + amount) db))"

definition treasury_add_burned_fees :: "u64 \<Rightarrow> vns_db \<Rightarrow> vns_db" where
  "treasury_add_burned_fees amount db = (if amount = 0 then db else add_burned_fees amount db)"

section \<open>The decision\<close>

definition circulating_supply :: "u128 \<Rightarrow> u64 \<Rightarrow> u64 \<Rightarrow> u128" where
  "circulating_supply minted treasury burned =
     (if ucast (treasury + burned) < minted then minted - ucast treasury - ucast burned else 0)"

definition quorum_met :: "u64 \<Rightarrow> u64 \<Rightarrow> u64 \<Rightarrow> u128 \<Rightarrow> u64 \<Rightarrow> u64 \<Rightarrow> bool" where
  "quorum_met yes_b no_b percent minted treasury burned =
     (let participating = yes_b + no_b;
          quorum = circulating_supply minted treasury burned * ucast percent div 100
      in quorum \<le> ucast participating)"

definition is_quorum_met ::
  "chain \<Rightarrow> governance_params \<Rightarrow> u64 \<Rightarrow> u64 \<Rightarrow> u64 \<Rightarrow> vns_db \<Rightarrow> bool option" where
  "is_quorum_met ch gp yes_b no_b voting_end db =
     (let effective_height = min voting_end (ch_height ch) in
      case ch_generated_coins ch effective_height of
        None \<Rightarrow> None
      | Some minted \<Rightarrow>
          Some (quorum_met yes_b no_b (voting_quorum_percent gp) minted
                  (get_treasury_balance db) (get_total_burned_fees db)))"

definition is_majority_met :: "u64 \<Rightarrow> u64 \<Rightarrow> bool" where
  "is_majority_met yes_w no_w \<longleftrightarrow> no_w < yes_w"

definition lifecycle_delay :: "u64 \<Rightarrow> vns_db \<Rightarrow> u64" where
  "lifecycle_delay height db =
     (case get_parameter execution_delay_param height (db_parameters db) of
        None \<Rightarrow> 720
      | Some d \<Rightarrow> if d = 0 then 720 else d)"

definition unlock_domain :: "hash32 \<Rightarrow> vns_db \<Rightarrow> vns_db" where
  "unlock_domain pid db =
     (case get_pending_domain_policy_by_proposal pid (db_pending_domain db) of
        None \<Rightarrow> db
      | Some pending \<Rightarrow>
          db\<lparr>db_pending_domain :=
            remove_pending_domain_policy_by_domain (c_str (pd_domain pending)) (db_pending_domain db)\<rparr>)"

definition evaluate_proposal ::
  "chain \<Rightarrow> governance_params \<Rightarrow> hash32 \<Rightarrow> u64 \<Rightarrow> vns_db \<Rightarrow> vns_db step" where
  "evaluate_proposal ch gp pid height db =
     (case get_proposal_record pid db of
        None \<Rightarrow> False_in db
      | Some rec \<Rightarrow>
          if pr_status rec \<noteq> PROPOSAL_STATUS_ACTIVE then True_in db
          else case get_proposal_outcome pid db of
            None \<Rightarrow> False_in db
          | Some out \<Rightarrow>
              (case is_quorum_met ch gp (out_yes_balance out) (out_no_balance out) (pr_voting_end_height rec) db of
                 None \<Rightarrow> Threw_in db
               | Some quorum \<Rightarrow>
                   if quorum \<and> is_majority_met (out_yes_weight out) (out_no_weight out) then
                     (case add_pending_execution (pr_voting_end_height rec + lifecycle_delay height db) pid db of
                        None \<Rightarrow> Threw_in db
                      | Some db1 \<Rightarrow>
                          True_in (add_proposal_record (pr_proposal_id rec)
                            (rec\<lparr>pr_status := PROPOSAL_STATUS_PASSED, pr_status_height := height\<rparr>) db1))
                   else
                     True_in (add_proposal_record (pr_proposal_id rec)
                       (rec\<lparr>pr_status := PROPOSAL_STATUS_REJECTED, pr_status_height := height\<rparr>)
                       (unlock_domain pid db))))"

primrec lifecycle_loop ::
  "chain \<Rightarrow> governance_params \<Rightarrow> u64 \<Rightarrow> hash32 list \<Rightarrow> vns_db \<Rightarrow> vns_db step" where
  "lifecycle_loop ch gp height [] db = True_in db"
| "lifecycle_loop ch gp height (pid # pids) db =
     (case get_proposal_record pid db of
        None \<Rightarrow> lifecycle_loop ch gp height pids db
      | Some rec \<Rightarrow>
          if pr_executed rec then lifecycle_loop ch gp height pids db
          else
            (case evaluate_proposal ch gp pid height db of
               True_in db' \<Rightarrow>
                 lifecycle_loop ch gp height pids (remove_voting_end_entry height pid db')
             | r \<Rightarrow> Threw_in (step_state r)))"

definition lifecycle_process_block ::
  "chain \<Rightarrow> governance_params \<Rightarrow> write_txn \<Rightarrow> u64 \<Rightarrow> vns_db \<Rightarrow> bool \<times> vns_db" where
  "lifecycle_process_block ch gp txn height db =
     (let due_proposals = get_voting_end_entries height db in
      if due_proposals = [] then (True, db)
      else in_write_txn txn (lifecycle_loop ch gp height due_proposals) db)"

definition lifecycle_rollback_block :: "u64 \<Rightarrow> vns_db \<Rightarrow> vns_db" where
  "lifecycle_rollback_block height db = db"

section \<open>Exactness of the quorum\<close>

lemma unat_ucast_128: "unat (ucast (a :: u64) :: u128) = unat a"
proof -
  have "unat a < 2 ^ 128" by (rule less_trans [OF unat_bounds(3)]) simp
  then show ?thesis by (simp add: unsigned_ucast_eq take_bit_nat_eq_self)
qed

lemma unat_mult_small: "unat (a :: u128) * unat b < 2 ^ 128 \<Longrightarrow> unat (a * b) = unat a * unat b"
  by (simp add: unat_word_ariths)

lemma unat_circulating:
  assumes "unat treasury + unat burned < 2 ^ 64"
  shows "unat (circulating_supply minted treasury burned) = unat minted - (unat treasury + unat burned)"
proof -
  have sum: "unat (ucast (treasury + burned) :: u128) = unat treasury + unat burned"
    using assms by (simp add: unat_ucast_128 unat_word_ariths)
  show ?thesis
  proof (cases "unat treasury + unat burned < unat minted")
    case True
    then have "unat (minted - ucast treasury - ucast burned) = unat minted - unat treasury - unat burned"
      by (simp add: unat_sub_if' unat_ucast_128)
    with True sum show ?thesis by (simp add: circulating_supply_def word_less_nat_alt)
  next
    case False
    with sum show ?thesis by (simp add: circulating_supply_def word_less_nat_alt)
  qed
qed

text \<open>
  C32: the quorum test is exact on every state the supply allows. If the yes and no balances, and
  the treasury and the burned fees, add up within 64 bits, the percentage is at most 100 and no more
  than the maximal supply has been minted, then the test with its 64-bit sums and 128-bit products
  decides whether the balances that voted reach the given percentage of the coins in circulation,
  rounded down; when treasury and burned fees exceed what was minted, the quorum is zero.
\<close>
theorem quorum_exact:
  assumes "unat yes_b + unat no_b < 2 ^ 64" "unat treasury + unat burned < 2 ^ 64"
    and "unat percent \<le> 100" "unat minted \<le> 20000000 * 10 ^ 12"
  shows "quorum_met yes_b no_b percent minted treasury burned \<longleftrightarrow>
    (unat minted - (unat treasury + unat burned)) * unat percent div 100 \<le> unat yes_b + unat no_b"
proof -
  have c: "unat (circulating_supply minted treasury burned) = unat minted - (unat treasury + unat burned)"
    by (rule unat_circulating [OF assms(2)])
  have "(unat minted - (unat treasury + unat burned)) * unat percent \<le> (20000000 * 10 ^ 12) * 100"
    using assms(3,4) by (intro mult_le_mono) auto
  then have "unat (circulating_supply minted treasury burned * ucast percent) =
      (unat minted - (unat treasury + unat burned)) * unat percent"
    using c by (subst unat_mult_small) (simp_all add: unat_ucast_128)
  then show ?thesis
    using assms(1)
    by (simp add: quorum_met_def word_le_nat_alt unat_div unat_ucast_128 unat_word_ariths)
qed

theorem quorum_exact_witness:
  "quorum_met 100 50 10 1600 90 10 \<and> \<not> quorum_met 100 48 10 1600 90 10"
  using quorum_exact [of 100 50 90 10 10 1600] quorum_exact [of 100 48 90 10 10 1600] by simp

section \<open>What a decision reads and writes\<close>

text \<open>Every record is stored under its own id.\<close>

definition ids_ok :: "vns_db \<Rightarrow> bool" where
  "ids_ok db \<longleftrightarrow> (\<forall>pid rec. get_proposal_record pid db = Some rec \<longrightarrow> pr_proposal_id rec = pid)"

lemma ids_okD: "ids_ok db \<Longrightarrow> get_proposal_record pid db = Some rec \<Longrightarrow> pr_proposal_id rec = pid"
  by (simp add: ids_ok_def)

definition same_inputs :: "vns_db \<Rightarrow> vns_db \<Rightarrow> bool" where
  "same_inputs db db' \<longleftrightarrow> db_outcomes db' = db_outcomes db \<and> db_treasury_balance db' = db_treasury_balance db
     \<and> db_burned_fees db' = db_burned_fees db \<and> db_parameters db' = db_parameters db"

definition passes :: "chain \<Rightarrow> governance_params \<Rightarrow> vns_db \<Rightarrow> hash32 \<Rightarrow> proposal_record \<Rightarrow> bool" where
  "passes ch gp db pid rec =
     (case get_proposal_outcome pid db of
        None \<Rightarrow> False
      | Some out \<Rightarrow>
          is_quorum_met ch gp (out_yes_balance out) (out_no_balance out) (pr_voting_end_height rec) db = Some True
          \<and> out_no_weight out < out_yes_weight out)"

definition decided :: "chain \<Rightarrow> governance_params \<Rightarrow> u64 \<Rightarrow> vns_db \<Rightarrow> hash32 \<Rightarrow> proposal_record \<Rightarrow> proposal_record" where
  "decided ch gp height db pid rec =
     rec\<lparr>pr_status := if passes ch gp db pid rec then PROPOSAL_STATUS_PASSED else PROPOSAL_STATUS_REJECTED,
         pr_status_height := height\<rparr>"

text \<open>A proposal that the block must decide.\<close>

definition open_record :: "proposal_record \<Rightarrow> bool" where
  "open_record rec \<longleftrightarrow> \<not> pr_executed rec \<and> pr_status rec = PROPOSAL_STATUS_ACTIVE"

lemma same_inputs_refl [simp]: "same_inputs db db"
  by (simp add: same_inputs_def)

lemma same_inputs_trans: "same_inputs a b \<Longrightarrow> same_inputs b c \<Longrightarrow> same_inputs a c"
  by (simp add: same_inputs_def)

lemma same_inputs_cong:
  assumes "same_inputs db db'"
  shows "passes ch gp db' = passes ch gp db" "lifecycle_delay h db' = lifecycle_delay h db"
    "decided ch gp h db' = decided ch gp h db" "get_proposal_outcome pid db' = get_proposal_outcome pid db"
proof -
  have eqs: "db_outcomes db' = db_outcomes db" "db_treasury_balance db' = db_treasury_balance db"
    "db_burned_fees db' = db_burned_fees db" using assms by (simp_all add: same_inputs_def)
  show "passes ch gp db' = passes ch gp db"
    unfolding passes_def [abs_def] is_quorum_met_def get_proposal_outcome_def get_treasury_balance_def
      get_total_burned_fees_def eqs by (rule refl)
  then show "decided ch gp h db' = decided ch gp h db" by (simp add: decided_def [abs_def])
qed (use assms in \<open>simp_all add: same_inputs_def lifecycle_delay_def get_proposal_outcome_def\<close>)

lemma queue_add:
  "add_pending_execution h pid db = Some db' \<Longrightarrow>
     db' = db\<lparr>db_pending_executions := db_pending_executions db'\<rparr>
     \<and> set (db_pending_executions db') = insert (h, pid) (set (db_pending_executions db))"
  by (auto simp: add_pending_execution_def cursor_put_new_set)

lemma frame_proposals: "db_proposals db' = db_proposals db \<Longrightarrow> get_proposal_record k db' = get_proposal_record k db"
  by (simp add: get_proposal_record_def)

text \<open>The writes of one decision.\<close>

definition decision_effect ::
  "chain \<Rightarrow> governance_params \<Rightarrow> u64 \<Rightarrow> hash32 \<Rightarrow> proposal_record \<Rightarrow> vns_db \<Rightarrow> vns_db \<Rightarrow> bool" where
  "decision_effect ch gp height pid rec db db' \<longleftrightarrow>
     same_inputs db db' \<and> db_voting_end_queue db' = db_voting_end_queue db
     \<and> (\<forall>k. get_proposal_record k db' =
           (if k = pid \<and> pr_status rec = PROPOSAL_STATUS_ACTIVE then Some (decided ch gp height db pid rec)
            else get_proposal_record k db))
     \<and> set (db_pending_executions db') =
         set (db_pending_executions db) \<union>
         (if pr_status rec = PROPOSAL_STATUS_ACTIVE \<and> passes ch gp db pid rec
          then {(pr_voting_end_height rec + lifecycle_delay height db, pid)} else {})
     \<and> (pr_status rec = PROPOSAL_STATUS_ACTIVE \<longrightarrow> get_proposal_outcome pid db \<noteq> None)"

lemma unlock_domain_frame:
  "db_proposals (unlock_domain pid db) = db_proposals db"
  "db_pending_executions (unlock_domain pid db) = db_pending_executions db"
  "db_voting_end_queue (unlock_domain pid db) = db_voting_end_queue db"
  "same_inputs db (unlock_domain pid db)"
  by (simp_all add: unlock_domain_def same_inputs_def split: option.split)

lemma evaluate_effect:
  assumes "evaluate_proposal ch gp pid height db = True_in db'"
    and "get_proposal_record pid db = Some rec" "pr_proposal_id rec = pid"
  shows "decision_effect ch gp height pid rec db db'"
proof (cases "pr_status rec = PROPOSAL_STATUS_ACTIVE")
  case False
  with assms show ?thesis by (simp add: evaluate_proposal_def decision_effect_def)
next
  case True
  with assms obtain out q where out: "get_proposal_outcome pid db = Some out"
    and q: "is_quorum_met ch gp (out_yes_balance out) (out_no_balance out) (pr_voting_end_height rec) db = Some q"
    by (auto simp: evaluate_proposal_def split: option.splits)
  have p: "passes ch gp db pid rec \<longleftrightarrow> q \<and> is_majority_met (out_yes_weight out) (out_no_weight out)"
    by (simp add: passes_def out q is_majority_met_def)
  show ?thesis
  proof (cases "passes ch gp db pid rec")
    case pass: True
    with assms True out q p obtain db1 where
      add: "add_pending_execution (pr_voting_end_height rec + lifecycle_delay height db) pid db = Some db1"
      and db': "db' = add_proposal_record pid (decided ch gp height db pid rec) db1"
      by (auto simp: evaluate_proposal_def decided_def split: option.splits)
    from queue_add [OF add] have fr: "db1 = db\<lparr>db_pending_executions := db_pending_executions db1\<rparr>"
      "set (db_pending_executions db1) =
         insert (pr_voting_end_height rec + lifecycle_delay height db, pid) (set (db_pending_executions db))" by auto
    have "get_proposal_record k db1 = get_proposal_record k db" for k
      by (subst fr(1)) (simp add: get_proposal_record_def)
    moreover have "same_inputs db db1 \<and> db_voting_end_queue db1 = db_voting_end_queue db"
      by (subst (1 2) fr(1)) (simp add: same_inputs_def)
    ultimately show ?thesis
      using True pass fr(2) out
      by (simp add: decision_effect_def db' same_inputs_def) (simp add: add_proposal_record_def)
  next
    case False
    with assms True out q p have "db' = add_proposal_record pid (decided ch gp height db pid rec) (unlock_domain pid db)"
      by (auto simp: evaluate_proposal_def decided_def)
    then show ?thesis
      using True False out unlock_domain_frame(1-3) [of pid db] unlock_domain_frame(4) [of db pid] frame_proposals [of "unlock_domain pid db" db]
      by (simp add: decision_effect_def) (simp add: add_proposal_record_def same_inputs_def)
  qed
qed

section \<open>The block loop\<close>

text \<open>What the loop over the due proposals \<open>pids\<close> does.\<close>

definition loop_effect ::
  "chain \<Rightarrow> governance_params \<Rightarrow> u64 \<Rightarrow> hash32 set \<Rightarrow> vns_db \<Rightarrow> vns_db \<Rightarrow> bool" where
  "loop_effect ch gp height pids db db' \<longleftrightarrow>
     same_inputs db db'
     \<and> (\<forall>k. get_proposal_record k db' =
           map_option (\<lambda>rec. if k \<in> pids \<and> open_record rec then decided ch gp height db k rec else rec)
             (get_proposal_record k db))
     \<and> set (db_pending_executions db') = set (db_pending_executions db)
         \<union> {(pr_voting_end_height rec + lifecycle_delay height db, k) | k rec.
              k \<in> pids \<and> get_proposal_record k db = Some rec \<and> open_record rec \<and> passes ch gp db k rec}
     \<and> set (db_voting_end_queue db') =
         {e \<in> set (db_voting_end_queue db). \<not> (fst e = height \<and> snd e \<in> pids
            \<and> (\<exists>rec. get_proposal_record (snd e) db = Some rec \<and> \<not> pr_executed rec))}
     \<and> (\<forall>k rec. k \<in> pids \<and> get_proposal_record k db = Some rec \<and> open_record rec \<longrightarrow>
          get_proposal_outcome k db \<noteq> None)"

lemma loop_effectD:
  assumes "loop_effect ch gp height pids db db'"
  shows "same_inputs db db'"
    "get_proposal_record k db' =
       map_option (\<lambda>rec. if k \<in> pids \<and> open_record rec then decided ch gp height db k rec else rec)
         (get_proposal_record k db)"
    "set (db_pending_executions db') = set (db_pending_executions db)
       \<union> {(pr_voting_end_height rec + lifecycle_delay height db, k) | k rec.
            k \<in> pids \<and> get_proposal_record k db = Some rec \<and> open_record rec \<and> passes ch gp db k rec}"
    "set (db_voting_end_queue db') =
       {e \<in> set (db_voting_end_queue db). \<not> (fst e = height \<and> snd e \<in> pids
          \<and> (\<exists>rec. get_proposal_record (snd e) db = Some rec \<and> \<not> pr_executed rec))}"
    "k \<in> pids \<Longrightarrow> get_proposal_record k db = Some rec \<Longrightarrow> open_record rec \<Longrightarrow> get_proposal_outcome k db \<noteq> None"
  using assms by (simp_all add: loop_effect_def)

lemma loop_effect_skip:
  assumes "loop_effect ch gp height pids db db'"
    and "get_proposal_record pid db = None \<or> (\<exists>rec. get_proposal_record pid db = Some rec \<and> pr_executed rec)"
  shows "loop_effect ch gp height (insert pid pids) db db'"
  using assms unfolding loop_effect_def
  by (intro conjI; elim conjE) (auto simp: open_record_def map_option_case split: option.split)

lemma loop_effect_step:
  assumes dec: "decision_effect ch gp height pid rec db db1"
    and rest: "loop_effect ch gp height pids (remove_voting_end_entry height pid db1) db'"
    and pid: "get_proposal_record pid db = Some rec" "\<not> pr_executed rec" "pid \<notin> pids"
  shows "loop_effect ch gp height (insert pid pids) db db'"
proof -
  let ?db2 = "remove_voting_end_entry height pid db1"
  have in2: "same_inputs db ?db2"
    using dec by (simp add: decision_effect_def same_inputs_def remove_voting_end_entry_def)
  note cong = same_inputs_cong [OF in2]
  have get2: "get_proposal_record k ?db2 =
      (if k = pid \<and> open_record rec then Some (decided ch gp height db pid rec) else get_proposal_record k db)" for k
    using dec pid(2) by (simp add: decision_effect_def remove_voting_end_entry_def get_proposal_record_def open_record_def)
  have exec2: "set (db_pending_executions ?db2) = set (db_pending_executions db) \<union>
      (if open_record rec \<and> passes ch gp db pid rec then {(pr_voting_end_height rec + lifecycle_delay height db, pid)} else {})"
    using dec pid(2) by (simp add: decision_effect_def remove_voting_end_entry_def open_record_def)
  have queue2: "set (db_voting_end_queue ?db2) = set (db_voting_end_queue db) - {(height, pid)}"
    using dec by (auto simp: decision_effect_def remove_voting_end_entry_def)
  note r = loop_effectD [OF rest, unfolded cong get2 exec2 queue2]
  show ?thesis
    unfolding loop_effect_def
  proof (intro conjI allI impI)
    show "same_inputs db db'" using in2 r(1) by (rule same_inputs_trans)
    show "get_proposal_record k db' =
        map_option (\<lambda>rec. if k \<in> insert pid pids \<and> open_record rec then decided ch gp height db k rec else rec)
          (get_proposal_record k db)" for k
      using r(2) [of k] pid by (auto simp: map_option_case split: option.split)
    show "set (db_pending_executions db') = set (db_pending_executions db)
       \<union> {(pr_voting_end_height rec + lifecycle_delay height db, k) | k rec.
            k \<in> insert pid pids \<and> get_proposal_record k db = Some rec \<and> open_record rec \<and> passes ch gp db k rec}"
      unfolding r(3) using pid by (intro set_eqI) (auto split: if_splits)
    show "set (db_voting_end_queue db') =
       {e \<in> set (db_voting_end_queue db). \<not> (fst e = height \<and> snd e \<in> insert pid pids
          \<and> (\<exists>rec. get_proposal_record (snd e) db = Some rec \<and> \<not> pr_executed rec))}"
      unfolding r(4) using pid by (intro set_eqI) (auto split: if_splits)
    fix k rec'
    assume k: "k \<in> insert pid pids \<and> get_proposal_record k db = Some rec' \<and> open_record rec'"
    show "get_proposal_outcome k db \<noteq> None"
    proof (cases "k = pid")
      case True
      with k pid dec show ?thesis by (simp add: decision_effect_def open_record_def)
    next
      case False
      with k r(5) [of k rec'] show ?thesis by simp
    qed
  qed
qed

lemma ids_ok_decision:
  assumes "ids_ok db" "decision_effect ch gp height pid rec db db1" "get_proposal_record pid db = Some rec"
  shows "ids_ok (remove_voting_end_entry height pid db1)"
proof -
  have "get_proposal_record k (remove_voting_end_entry height pid db1) =
      (if k = pid \<and> pr_status rec = PROPOSAL_STATUS_ACTIVE then Some (decided ch gp height db pid rec)
       else get_proposal_record k db)" for k
    using assms(2) by (simp add: decision_effect_def remove_voting_end_entry_def get_proposal_record_def)
  with assms(1,3) show ?thesis by (auto simp: ids_ok_def decided_def)
qed

lemma lifecycle_loop_effect:
  assumes "lifecycle_loop ch gp height pids db = True_in db'" "distinct pids" "ids_ok db"
  shows "loop_effect ch gp height (set pids) db db'"
  using assms
proof (induction pids arbitrary: db)
  case Nil
  then show ?case by (auto simp: loop_effect_def map_option_case split: option.split)
next
  case (Cons pid pids)
  show ?case
  proof (cases "get_proposal_record pid db")
    case None
    with Cons show ?thesis by (simp add: loop_effect_skip)
  next
    case (Some rec)
    show ?thesis
    proof (cases "pr_executed rec")
      case True
      with Some Cons show ?thesis by (simp add: loop_effect_skip)
    next
      case False
      with Some Cons.prems(1) obtain db1 where ev: "evaluate_proposal ch gp pid height db = True_in db1"
        and rest: "lifecycle_loop ch gp height pids (remove_voting_end_entry height pid db1) = True_in db'"
        by (auto split: step.splits)
      have dec: "decision_effect ch gp height pid rec db db1"
        by (rule evaluate_effect [OF ev Some ids_okD [OF Cons.prems(3) Some]])
      have "loop_effect ch gp height (set pids) (remove_voting_end_entry height pid db1) db'"
        using Cons.prems by (intro Cons.IH [OF rest]) (auto intro: ids_ok_decision [OF _ dec Some])
      from loop_effect_step [OF dec this Some False] Cons.prems(2) show ?thesis by simp
    qed
  qed
qed

lemma due_distinct: "tables_wf db \<Longrightarrow> distinct (get_voting_end_entries h db)"
proof -
  assume "tables_wf db"
  then have "distinct (db_voting_end_queue db)"
    using tables_wfD(10) [of db] by (simp add: table_wf_def queue_place_def [abs_def])
  then have "distinct (cursor_dups fst h (db_voting_end_queue db))" by (simp add: cursor_dups_def)
  then show ?thesis
    by (auto simp: get_voting_end_entries_def distinct_map cursor_dups_def intro!: inj_onI)
qed

lemma due_iff: "pid \<in> set (get_voting_end_entries h db) \<longleftrightarrow> (h, pid) \<in> set (db_voting_end_queue db)"
  by (force simp: get_voting_end_entries_def cursor_dups_def)

lemma lifecycle_block_effect:
  assumes "tables_wf db" "ids_ok db" "lifecycle_process_block ch gp txn height db = (True, db')"
  shows "loop_effect ch gp height (set (get_voting_end_entries height db)) db db'"
proof (cases "get_voting_end_entries height db = []")
  case True
  with assms(3) show ?thesis
    by (auto simp: lifecycle_process_block_def loop_effect_def map_option_case split: option.split)
next
  case False
  with assms(3) have "lifecycle_loop ch gp height (get_voting_end_entries height db) db = True_in db'"
    by (auto simp: lifecycle_process_block_def in_write_txn_def split: if_splits step.splits)
  then show ?thesis by (rule lifecycle_loop_effect) (use assms in \<open>auto simp: due_distinct\<close>)
qed

lemma unat_max: "unat (- 1 :: u64) = 18446744073709551615"
proof -
  have "(- 1 :: u64) = 18446744073709551615" by simp
  then show ?thesis by (simp only:) simp
qed

section \<open>Properties\<close>



text \<open>
  A grant can be paid only out of what the treasury holds, and rolling it back restores the
  treasury. A successful grant is of a non-zero amount, lowers the balance by exactly that amount
  without wrap-around and leaves an execution record; the rollback gives the balance back and
  removes the record, which restores the database when the proposal had no execution record.
\<close>
theorem grant_rollback:
  assumes "execute_grant pid amount junk db = (True, db')" "db_treasury_balance db = Some balance"
  shows "0 < amount \<and> amount \<le> balance
    \<and> unat (get_treasury_balance db') + unat amount = unat balance
    \<and> get_proposal_execution_record pid db' \<noteq> None
    \<and> (get_proposal_execution_record pid db = None \<longrightarrow> rollback_grant pid amount db' = db)"
proof -
  from assms have a: "amount \<noteq> 0" "amount \<le> balance"
    and db': "db' = add_proposal_execution_record
      \<lparr>per_proposal_id = pid, per_execution_height = 0, per_execution_tx_hash = null_hash,
       per_pre_execution_status_height = junk\<rparr> (set_treasury_balance (balance - amount) db)"
    by (auto simp: execute_grant_def Let_def get_treasury_balance_def not_less split: if_splits)
  have "unat (balance - amount) = unat balance - unat amount" "unat amount \<le> unat balance"
    using a(2) by (simp_all add: unat_sub_if' word_le_nat_alt)
  moreover have "\<not> - 1 - amount < balance - amount"
    using a(2) unat_bounds(3) [of balance] unat_max
    by (simp add: not_less word_le_nat_alt unat_sub_if' del: unat_bounds)
  ultimately show ?thesis
    using a assms(2)
    by (auto simp: db' get_treasury_balance_def set_treasury_balance_def add_proposal_execution_record_def
        get_proposal_execution_record_def rollback_grant_def remove_proposal_execution_record_def word_gt_0 fun_upd_idem)
qed

section \<open>Witnesses\<close>

definition ex_open :: proposal_record where
  "ex_open = ex_proposal\<lparr>pr_status := PROPOSAL_STATUS_ACTIVE\<rparr>"

definition ex_due :: "outcome option \<Rightarrow> vns_db" where
  "ex_due out = empty_db\<lparr>db_proposals := [(ex_pid, ex_open)], db_outcomes := (\<lambda>pid. if pid = ex_pid then out else None),
     db_voting_end_queue := [(5142, ex_pid)], db_treasury_balance := Some 1000\<rparr>"

definition ex_chain :: chain where
  "ex_chain = \<lparr>ch_height = 5142, ch_generated_coins = (\<lambda>h. if h < 5142 then Some 1500 else None)\<rparr>"

definition ex_outcome :: outcome where
  "ex_outcome = \<lparr>out_yes_weight = 80, out_no_weight = 5, out_yes_balance = 40, out_no_balance = 20\<rparr>"

lemma ex_due_facts:
  "get_proposal_record ex_pid (ex_due out) = Some ex_open" "ids_ok (ex_due out)" "tables_wf (ex_due out)"
  "set (db_voting_end_queue (ex_due out)) = {(5142, ex_pid)}" "get_proposal_outcome ex_pid (ex_due out) = out"
  "db_pending_executions (ex_due out) = []" "lifecycle_delay h (ex_due out) = 720" "open_record ex_open"
  "pr_voting_end_height ex_open = 5141" "pr_proposal_id ex_open = ex_pid" "length ex_pid = 32"
  by (simp_all add: ex_due_def ex_open_def ex_proposal_def empty_db_def get_proposal_record_def ids_ok_def
      tables_wf_def table_wf_def get_proposal_outcome_def lifecycle_delay_def get_parameter_def open_record_def ex_pid_def)

text \<open>Of 500 coins in circulation 60 voted, which is above ten per cent.\<close>

lemma ex_passes: "passes ex_chain (sample_params\<lparr>voting_quorum_percent := 10\<rparr>) (ex_due (Some ex_outcome)) ex_pid ex_open"
proof -
  have "get_treasury_balance (ex_due out) = 1000" "get_total_burned_fees (ex_due out) = 0" for out
    by (simp_all add: get_treasury_balance_def get_total_burned_fees_def ex_due_def empty_db_def)
  then show ?thesis
    by (simp add: passes_def ex_due_facts is_quorum_met_def ex_chain_def quorum_met_def circulating_supply_def ex_outcome_def)
qed

lemma ex_lifecycle: "\<exists>db'. lifecycle_process_block ex_chain (sample_params\<lparr>voting_quorum_percent := 10\<rparr>) No_txn 5142 (ex_due (Some ex_outcome)) = (True, db')"
proof -
  let ?gp = "sample_params\<lparr>voting_quorum_percent := 10\<rparr>" and ?db = "ex_due (Some ex_outcome)"
  have due: "get_voting_end_entries 5142 ?db = [ex_pid]"
    by (simp add: get_voting_end_entries_def cursor_dups_def ex_due_def)
  obtain q where q: "is_quorum_met ex_chain ?gp (out_yes_balance ex_outcome) (out_no_balance ex_outcome) 5141 ?db = Some q"
    by (simp add: is_quorum_met_def ex_chain_def)
  have st: "pr_status ex_open = PROPOSAL_STATUS_ACTIVE" "\<not> pr_executed ex_open"
    by (simp_all add: ex_open_def ex_proposal_def)
  obtain db1 where "add_pending_execution (5141 + 720) ex_pid ?db = Some db1"
    by (simp add: add_pending_execution_def cursor_put_new_def ex_due_facts)
  then have "\<exists>db2. evaluate_proposal ex_chain ?gp ex_pid 5142 ?db = True_in db2"
    using q st
    by (cases "q \<and> is_majority_met (out_yes_weight ex_outcome) (out_no_weight ex_outcome)")
      (auto simp: evaluate_proposal_def ex_due_facts)
  then show ?thesis
    by (auto simp: lifecycle_process_block_def due in_write_txn_def ex_due_facts st)
qed



theorem grant_rollback_witness:
  "\<exists>db'. execute_grant ex_pid 300 0 (ex_due None) = (True, db') \<and> get_treasury_balance db' = 700
    \<and> rollback_grant ex_pid 300 db' = ex_due None"
proof -
  obtain db' where e: "execute_grant ex_pid 300 0 (ex_due None) = (True, db')" and "get_treasury_balance db' = 700"
    by (simp add: execute_grant_def get_treasury_balance_def ex_due_def set_treasury_balance_def add_proposal_execution_record_def)
  moreover have "db_treasury_balance (ex_due None) = Some 1000" "get_proposal_execution_record ex_pid (ex_due None) = None"
    by (simp_all add: ex_due_def get_proposal_execution_record_def empty_db_def)
  ultimately show ?thesis using grant_rollback [OF e] by blast
qed

end
