(* ===== verification/Domain_Registry.thy ===== *)
theory Domain_Registry
  imports Domain_Objects Lifecycle "HOL-Library.AList"
begin

text \<open>
  The registry of names in \<^verbatim>\<open>src/src/cryptonote_core/blockchain.cpp\<close>: registration, update and transfer
  (\<^verbatim>\<open>process_domain_registration\<close>), lookups, health and expiry, heartbeats, loading from the database, and what
  connecting, rejecting and popping a block does to it.

  The registry in memory, a hash map from names to records, is an association list, whose order stands for the
  order in which the map is iterated over. The cryptographic functions, and storage that the code reads without
  having written it, are an environment.
\<close>

section \<open>State\<close>

record heartbeat_event =
  he_domain :: string
  he_proof :: hash32
  he_fingerprint :: hash32
  he_block_hash :: hash32
  he_leaf_index :: u64
  he_sibling_hashes :: "hash32 list"
  he_created_at :: u64
  he_heartbeat_height :: u64
  he_heartbeat_count :: u64
  he_event_id :: hash32

record vns_state =
  vs_domains :: "(string \<times> vns_domain_record) list"
  vs_extensions :: "string set"
  vs_snapshot :: "(string \<times> vns_domain_record) list"
  vs_pending_heartbeats :: "heartbeat_event list"
  vs_db :: vns_db

record registry_env =
  re_params :: governance_params
  re_parse_key :: "bytes \<Rightarrow> bool"
  re_hash :: "bytes \<Rightarrow> hash32"
  re_verify :: "bytes \<Rightarrow> hash32 \<Rightarrow> bytes \<Rightarrow> bool"
  re_commit :: "u64 \<Rightarrow> bytes"
  re_out_mask :: "transaction \<Rightarrow> nat \<Rightarrow> bytes"
  re_tx_hash :: "transaction \<Rightarrow> hash32"
  re_junk_key :: bytes
  re_junk_hash :: hash32
  re_junk_policy :: domain_policy_result
  re_beyond :: bytes

definition find_domain :: "string \<Rightarrow> vns_state \<Rightarrow> vns_domain_record option" where
  "find_domain name s = map_of (vs_domains s) name"

text \<open>Assigning a record in memory and storing it in the database.\<close>

definition persist_domain :: "string \<Rightarrow> vns_domain_record \<Rightarrow> vns_state \<Rightarrow> vns_state" where
  "persist_domain name rec s =
     s\<lparr>vs_domains := AList.update name rec (vs_domains s), vs_db := add_vns_domain_record name rec (vs_db s)\<rparr>"

abbreviation (input) ACTIVE :: u8 where "ACTIVE \<equiv> 0"
abbreviation (input) GRACE :: u8 where "GRACE \<equiv> 1"
abbreviation (input) EXPIRED :: u8 where "EXPIRED \<equiv> 2"

abbreviation (input) GRACE_BLOCKS :: u64 where "GRACE_BLOCKS \<equiv> 5040"
abbreviation (input) EXPIRY_BLOCKS :: u64 where "EXPIRY_BLOCKS \<equiv> 21600"
abbreviation (input) RECLAIM_BLOCKS :: u64 where "RECLAIM_BLOCKS \<equiv> 21600"
abbreviation (input) DECAY_START_BLOCKS :: u64 where "DECAY_START_BLOCKS \<equiv> 720"
abbreviation (input) VNS_DOMAIN_FEE_BURN_HEIGHT :: u64 where "VNS_DOMAIN_FEE_BURN_HEIGHT \<equiv> 50000"

section \<open>Registration\<close>

definition is_null_key :: "bytes \<Rightarrow> bool" where
  "is_null_key key = list_all (\<lambda>c. c = NUL) key"

definition is_valid_compressed_pubkey :: "registry_env \<Rightarrow> bytes \<Rightarrow> bool" where
  "is_valid_compressed_pubkey env key =
     (if byte_val (key ! 0) \<noteq> 2 \<and> byte_val (key ! 0) \<noteq> 3 then False else re_parse_key env key)"

text \<open>A relay as stored: an array of 256 bytes that holds the address and ends in zeros.\<close>

definition relay_endpoint :: "string \<Rightarrow> bytes" where
  "relay_endpoint url = take 255 url @ replicate (256 - min 255 (length url)) NUL"

definition relays_valid :: "string list \<Rightarrow> bool" where
  "relays_valid relay_urls \<longleftrightarrow>
     list_all (\<lambda>url. url = [] \<or> find_sub ''ws://'' url = Some 0 \<or> find_sub ''wss://'' url = Some 0) relay_urls
     \<and> list_ex (\<lambda>url. url \<noteq> []) relay_urls"

text \<open>
  The burn of the fee: the positions of burn outputs, of which there must be one, and its amount, hidden in
  a commitment or, before RingCT, in the clear.
\<close>

definition burn_outputs :: "transaction \<Rightarrow> nat list" where
  "burn_outputs tx = filter (\<lambda>i. snd (tx_vout tx ! i) = txout_to_burn) [0..<length (tx_vout tx)]"

definition burn_valid :: "registry_env \<Rightarrow> transaction \<Rightarrow> u64 \<Rightarrow> bool" where
  "burn_valid env tx fee =
     (case burn_outputs tx of
        [burn_index] \<Rightarrow>
          if 2 \<le> tx_version tx then re_out_mask env tx burn_index = re_commit env fee
          else sum_list (map fst (filter (\<lambda>out. snd out = txout_to_burn) (tx_vout tx))) = fee
      | _ \<Rightarrow> False)"

definition new_domain_record ::
  "registry_env \<Rightarrow> transaction \<Rightarrow> u64 \<Rightarrow> registration \<Rightarrow> u64 \<Rightarrow> vns_domain_record" where
  "new_domain_record env tx height r fee =
     \<lparr>dr_fee_tier = rg_tier r, dr_fee_burned = fee, dr_registrant_key = rg_key r,
      dr_genesis_fingerprint = rg_fingerprint r, dr_last_heartbeat_block = height, dr_health_score = 10000,
      dr_status = ACTIVE, dr_registered_height = height, dr_heartbeat_count = 0,
      dr_relays = map relay_endpoint (rg_relays r), dr_heartbeat_history = replicate 120 0,
      dr_heartbeat_history_count = 0, dr_registration_tx_hash = re_tx_hash env tx\<rparr>"

definition register_domain ::
  "registry_env \<Rightarrow> transaction \<Rightarrow> u64 \<Rightarrow> bool \<Rightarrow> registration \<Rightarrow> vns_state \<Rightarrow>
   domain_registration_result \<times> vns_state" where
  "register_domain env tx height dry_run r s =
     (if rg_name r = [] then (DR_invalid_format, s)
      else
        let domain_name = normalize_vns_domain (rg_name r) in
        if domain_name = [] then (DR_invalid_format, s)
        else case parse_vns_domain domain_name of
          None \<Rightarrow> (DR_invalid_format, s)
        | Some (label, extension) \<Rightarrow>
            (case resolve_domain_policy (re_params env) (vs_db s) domain_name height (re_junk_policy env) of
               (ok, policy) \<Rightarrow>
                 if \<not> ok then (DR_internal_error, s)
                 else if \<not> registration_allowed policy then (DR_invalid_format, s)
                 else if rg_tier r \<noteq> ucast (dp_tier policy) then (DR_invalid_fee_tier, s)
                 else if 6 < rg_tier r then (DR_invalid_fee_tier, s)
                 else if is_null_key (rg_key r) then (DR_invalid_key, s)
                 else if rg_fingerprint r = null_hash then (DR_invalid_fingerprint, s)
                 else if \<not> chain_validate_domain_name_format domain_name then (DR_invalid_format, s)
                 else if \<not> relays_valid (rg_relays r) then (DR_invalid_format, s)
                 else if VNS_DOMAIN_FEE_BURN_HEIGHT \<le> height \<and> \<not> burn_valid env tx (dp_fee policy)
                   then (DR_invalid_fee_tier, s)
                 else if (case find_domain domain_name s of
                            None \<Rightarrow> False
                          | Some existing \<Rightarrow>
                              \<not> (dr_status existing = EXPIRED
                                 \<and> EXPIRY_BLOCKS + RECLAIM_BLOCKS < height - dr_last_heartbeat_block existing))
                   then (DR_already_registered, s)
                 else if dry_run then (DR_success, s)
                 else (DR_success,
                   persist_domain domain_name (new_domain_record env tx height r (dp_fee policy))
                     (s\<lparr>vs_extensions := insert extension (vs_extensions s)\<rparr>))))"

section \<open>Update and transfer\<close>

definition update_message :: "string \<Rightarrow> domain_update \<Rightarrow> bytes" where
  "update_message domain_name u =
     domain_name @ (case up_owner u of None \<Rightarrow> [] | Some owner \<Rightarrow> owner)
     @ (case up_relays u of None \<Rightarrow> [] | Some relays \<Rightarrow> concat relays)"

definition apply_update :: "domain_update \<Rightarrow> vns_domain_record \<Rightarrow> vns_domain_record" where
  "apply_update u existing =
     (let updated = (case up_owner u of None \<Rightarrow> existing | Some owner \<Rightarrow> existing\<lparr>dr_registrant_key := owner\<rparr>) in
      case up_relays u of
        None \<Rightarrow> updated
      | Some relays \<Rightarrow> updated\<lparr>dr_relays := map relay_endpoint relays\<rparr>)"

definition update_domain ::
  "registry_env \<Rightarrow> bool \<Rightarrow> domain_update \<Rightarrow> vns_state \<Rightarrow> domain_registration_result \<times> vns_state" where
  "update_domain env dry_run u s =
     (case up_signature u of
        None \<Rightarrow> (DR_invalid_format, s)
      | Some signature \<Rightarrow>
          if up_name u = [] then (DR_invalid_format, s)
          else
            let domain_name = normalize_vns_domain (up_name u) in
            if domain_name = [] then (DR_invalid_format, s)
            else if \<not> chain_validate_domain_name_format domain_name then (DR_invalid_format, s)
            else if up_owner u = None \<and> up_relays u = None then (DR_invalid_format, s)
            else case find_domain domain_name s of
              None \<Rightarrow> (DR_domain_not_found, s)
            | Some existing \<Rightarrow>
                if dr_status existing = EXPIRED then (DR_domain_expired, s)
                else if \<not> re_verify env (dr_registrant_key existing) (re_hash env (update_message domain_name u)) signature
                  then (DR_signature_invalid, s)
                else if dry_run then (DR_success, s)
                else (DR_success, persist_domain domain_name (apply_update u existing) s))"

definition compute_vns_transfer_message_hash :: "registry_env \<Rightarrow> string \<Rightarrow> bytes \<Rightarrow> hash32" where
  "compute_vns_transfer_message_hash env normalized_domain new_owner_xonly =
     re_hash env (normalized_domain @ new_owner_xonly)"

definition transfer_domain ::
  "registry_env \<Rightarrow> bool \<Rightarrow> domain_transfer \<Rightarrow> vns_state \<Rightarrow> domain_registration_result \<times> vns_state" where
  "transfer_domain env dry_run x s =
     (case (xf_key x, xf_signature x) of
        (Some new_owner_key, Some signature) \<Rightarrow>
          if xf_name x = [] then (DR_invalid_format, s)
          else
            let domain_name = normalize_vns_domain (xf_name x) in
            if domain_name = [] then (DR_invalid_format, s)
            else if \<not> chain_validate_domain_name_format domain_name then (DR_invalid_format, s)
            else (case find_domain domain_name s of
              None \<Rightarrow> (DR_domain_not_found, s)
            | Some existing \<Rightarrow>
                if dr_status existing = EXPIRED then (DR_domain_expired, s)
                else if \<not> re_verify env (dr_registrant_key existing)
                    (compute_vns_transfer_message_hash env domain_name new_owner_key) signature
                  then (DR_signature_invalid, s)
                else if dry_run then (DR_success, s)
                else (DR_success, persist_domain domain_name
                  (existing\<lparr>dr_registrant_key := byte_of 2 # new_owner_key\<rparr>) s))
      | _ \<Rightarrow> (DR_invalid_format, s))"

text \<open>\<open>None\<close> would be a search through the extra field that does not end.\<close>

definition process_domain_registration ::
  "registry_env \<Rightarrow> transaction \<Rightarrow> u64 \<Rightarrow> bool \<Rightarrow> vns_state \<Rightarrow>
   (domain_registration_result \<times> vns_state) option" where
  "process_domain_registration env tx height dry_run s =
     (case scan_extra (re_beyond env) (tx_extra tx) 0 of
        None \<Rightarrow> None
      | Some None \<Rightarrow> Some (DR_success, s)
      | Some (Some (DOMAIN_REG, payload)) \<Rightarrow>
          (case read_registration (is_valid_compressed_pubkey env) (re_junk_key env) (re_junk_hash env) payload of
             Inl e \<Rightarrow> Some (e, s)
           | Inr r \<Rightarrow> Some (register_domain env tx height dry_run r s))
      | Some (Some (DOMAIN_UPDATE, payload)) \<Rightarrow>
          (case read_update (is_valid_compressed_pubkey env) payload of
             Inl e \<Rightarrow> Some (e, s)
           | Inr u \<Rightarrow> Some (update_domain env dry_run u s))
      | Some (Some (DOMAIN_XFER, payload)) \<Rightarrow>
          (case read_transfer payload of
             Inl e \<Rightarrow> Some (e, s)
           | Inr x \<Rightarrow> Some (transfer_domain env dry_run x s)))"

section \<open>Lookups\<close>

definition is_domain_registered :: "string \<Rightarrow> vns_state \<Rightarrow> bool" where
  "is_domain_registered name s =
     (let normalized = normalize_vns_domain name in
      if normalized = [] then False else find_domain normalized s \<noteq> None)"

definition zero_domain_record :: vns_domain_record where
  "zero_domain_record =
     \<lparr>dr_fee_tier = 0, dr_fee_burned = 0, dr_registrant_key = replicate 33 NUL, dr_genesis_fingerprint = null_hash,
      dr_last_heartbeat_block = 0, dr_health_score = 0, dr_status = 0, dr_registered_height = 0, dr_heartbeat_count = 0,
      dr_relays = replicate 3 (replicate 256 NUL), dr_heartbeat_history = replicate 120 0,
      dr_heartbeat_history_count = 0, dr_registration_tx_hash = null_hash\<rparr>"

definition get_domain_record :: "string \<Rightarrow> vns_state \<Rightarrow> vns_domain_record" where
  "get_domain_record name s =
     (let normalized = normalize_vns_domain name in
      if normalized = [] then zero_domain_record
      else case find_domain normalized s of None \<Rightarrow> zero_domain_record | Some rec \<Rightarrow> rec)"

definition get_domain_records_by_registrant_keys ::
  "bytes list \<Rightarrow> bool \<Rightarrow> vns_state \<Rightarrow> (string \<times> vns_domain_record) list" where
  "get_domain_records_by_registrant_keys keys active_or_grace_only s =
     (if keys = [] then []
      else filter (\<lambda>(name, rec). \<not> (active_or_grace_only \<and> dr_status rec = EXPIRED)
        \<and> list_ex (\<lambda>k. dr_registrant_key rec = k) keys) (vs_domains s))"

text \<open>The hexadecimal form is that of \<^verbatim>\<open>epee::to_hex\<close>, two lower-case digits for a byte.\<close>

definition pod_to_hex :: "bytes \<Rightarrow> string" where
  "pod_to_hex bs =
     concat (map (\<lambda>c. [''0123456789abcdef'' ! (byte_val c div 16), ''0123456789abcdef'' ! (byte_val c mod 16)]) bs)"

definition resolve_domain :: "string \<Rightarrow> vns_state \<Rightarrow> string" where
  "resolve_domain name s =
     (let normalized = normalize_vns_domain name in
      if normalized = [] then []
      else case find_domain normalized s of
        None \<Rightarrow> []
      | Some rec \<Rightarrow> if dr_status rec = EXPIRED then [] else pod_to_hex (dr_registrant_key rec))"

section \<open>Health and expiry\<close>

definition calculate_health_score :: "vns_domain_record \<Rightarrow> u64 \<Rightarrow> u16" where
  "calculate_health_score domain current_height =
     (if dr_last_heartbeat_block domain = 0 then 10000
      else
        let blocks_since = current_height - dr_last_heartbeat_block domain in
        if blocks_since \<le> DECAY_START_BLOCKS then 10000
        else
          let decay = blocks_since - DECAY_START_BLOCKS;
              decay = (if 10000 < decay then 10000 else decay) in
          ucast (10000 - decay))"

definition update_domain_health :: "string \<Rightarrow> u64 \<Rightarrow> vns_state \<Rightarrow> vns_state" where
  "update_domain_health name heartbeat_block_height s =
     (let domain_name = normalize_vns_domain name in
      if domain_name = [] then s
      else case find_domain domain_name s of
        None \<Rightarrow> s
      | Some rec \<Rightarrow>
          s\<lparr>vs_domains := AList.update domain_name
              (rec\<lparr>dr_health_score := calculate_health_score rec heartbeat_block_height,
                   dr_last_heartbeat_block := heartbeat_block_height\<rparr>) (vs_domains s)\<rparr>)"

definition status_after :: "u64 \<Rightarrow> u8" where
  "status_after blocks_since =
     (if EXPIRY_BLOCKS < blocks_since then EXPIRED
      else if GRACE_BLOCKS < blocks_since then GRACE else ACTIVE)"

definition check_record_expiry :: "u64 \<Rightarrow> vns_domain_record \<Rightarrow> vns_domain_record" where
  "check_record_expiry current_height rec =
     (if current_height < dr_last_heartbeat_block rec then rec
      else rec\<lparr>dr_health_score := calculate_health_score rec current_height,
               dr_status := status_after (current_height - dr_last_heartbeat_block rec)\<rparr>)"

definition check_domain_expiry :: "u64 \<Rightarrow> vns_state \<Rightarrow> vns_state" where
  "check_domain_expiry current_height s =
     s\<lparr>vs_domains := map (\<lambda>(name, rec). (name, check_record_expiry current_height rec)) (vs_domains s)\<rparr>"

definition refresh_vns_domain_snapshot :: "vns_state \<Rightarrow> vns_state" where
  "refresh_vns_domain_snapshot s = s\<lparr>vs_snapshot := vs_domains s\<rparr>"

section \<open>Heartbeats\<close>

text \<open>
  The event that a heartbeat leaves behind for the rollback. Where there was no proof before, the previous proof
  is whatever the variable held, \<open>junk\<close>.
\<close>

definition heartbeat_record :: "u64 \<Rightarrow> u64 \<Rightarrow> vns_domain_record \<Rightarrow> vns_domain_record" where
  "heartbeat_record heartbeat_height new_count rec =
     rec\<lparr>dr_heartbeat_count := (if 0 < new_count then new_count else dr_heartbeat_count rec + 1),
         dr_last_heartbeat_block := heartbeat_height, dr_health_score := 10000, dr_status := ACTIVE\<rparr>"

definition heartbeat_undo_event ::
  "hash32 \<Rightarrow> u64 \<Rightarrow> string \<Rightarrow> hash32 \<Rightarrow> hash32 option \<Rightarrow> vns_domain_record \<Rightarrow> vns_domain_record \<Rightarrow>
   vns_domain_heartbeat_event_record" where
  "heartbeat_undo_event junk current_height domain_name proof last_proof rec rec' =
     \<lparr>hb_domain = char_array 64 domain_name, hb_event_id = proof, hb_observed_height = current_height,
      hb_event_timestamp = 0, hb_event_sequence = dr_heartbeat_count rec + 1,
      hb_had_previous_proof = (last_proof \<noteq> None),
      hb_previous_proof = (case last_proof of None \<Rightarrow> junk | Some p \<Rightarrow> p),
      hb_previous_heartbeat_count = dr_heartbeat_count rec,
      hb_previous_last_heartbeat_block = dr_last_heartbeat_block rec,
      hb_previous_health_score = dr_health_score rec, hb_previous_status = dr_status rec,
      hb_new_heartbeat_count = dr_heartbeat_count rec', hb_new_last_heartbeat_block = dr_last_heartbeat_block rec',
      hb_new_health_score = dr_health_score rec', hb_new_status = dr_status rec'\<rparr>"

text \<open>
  A heartbeat writes in a transaction of its own, which cannot be opened inside that of a block. Adding the event
  is not guarded: where it throws, the record in memory has been changed already.
\<close>

definition update_domain_heartbeat ::
  "write_txn \<Rightarrow> hash32 \<Rightarrow> u64 \<Rightarrow> string \<Rightarrow> u64 \<Rightarrow> hash32 \<Rightarrow> u64 \<Rightarrow> vns_state \<Rightarrow> vns_state step" where
  "update_domain_heartbeat txn junk current_height name heartbeat_height proof new_count s =
     (let domain_name = normalize_vns_domain name in
      if domain_name = [] then False_in s
      else case find_domain domain_name s of
        None \<Rightarrow> False_in s
      | Some rec \<Rightarrow>
          if current_height < heartbeat_height then False_in s
          else
            let last_proof = get_vns_heartbeat_proof domain_name (vs_db s) in
            if txn = Block_txn then False_in s
            else if last_proof = Some proof then True_in (persist_domain domain_name rec s)
            else
              let rec' = heartbeat_record heartbeat_height new_count rec;
                  db = set_vns_heartbeat_proof domain_name proof (vs_db s) in
              case add_vns_domain_heartbeat_event
                  (heartbeat_undo_event junk current_height domain_name proof last_proof rec rec') db of
                None \<Rightarrow> Threw_in (s\<lparr>vs_domains := AList.update domain_name rec' (vs_domains s), vs_db := db\<rparr>)
              | Some db \<Rightarrow> True_in (persist_domain domain_name rec' (s\<lparr>vs_db := db\<rparr>)))"

definition queue_validated_heartbeat :: "heartbeat_event \<Rightarrow> vns_state \<Rightarrow> vns_state" where
  "queue_validated_heartbeat hb s = s\<lparr>vs_pending_heartbeats := vs_pending_heartbeats s @ [hb]\<rparr>"

definition capped_height :: "u64 \<Rightarrow> heartbeat_event \<Rightarrow> u64" where
  "capped_height current_height hb =
     (let h = (if he_heartbeat_height hb \<noteq> 0 then he_heartbeat_height hb else current_height) in
      if current_height < h then current_height else h)"

text \<open>A heartbeat that is refused is passed over; an exception leaves the loop.\<close>

primrec apply_heartbeats :: "write_txn \<Rightarrow> hash32 \<Rightarrow> u64 \<Rightarrow> heartbeat_event list \<Rightarrow> vns_state \<Rightarrow> vns_state step" where
  "apply_heartbeats txn junk current_height [] s = True_in s"
| "apply_heartbeats txn junk current_height (hb # hbs) s =
     (case update_domain_heartbeat txn junk current_height (he_domain hb) (capped_height current_height hb)
         (he_event_id hb) (he_heartbeat_count hb) s of
        Threw_in s \<Rightarrow> Threw_in s
      | False_in s \<Rightarrow> apply_heartbeats txn junk current_height hbs s
      | True_in s \<Rightarrow> apply_heartbeats txn junk current_height hbs s)"

definition process_pending_heartbeats :: "write_txn \<Rightarrow> hash32 \<Rightarrow> u64 \<Rightarrow> vns_state \<Rightarrow> vns_state step" where
  "process_pending_heartbeats txn junk current_height s =
     apply_heartbeats txn junk current_height (vs_pending_heartbeats s) (s\<lparr>vs_pending_heartbeats := []\<rparr>)"

section \<open>Loading\<close>

text \<open>
  The registry at the start of the daemon, from the records of the database; \<open>names\<close> are the keys in the order
  of the table.
\<close>

definition reconcile_record :: "u64 \<Rightarrow> vns_domain_record \<Rightarrow> vns_domain_record" where
  "reconcile_record curr_height record =
     (let last = dr_last_heartbeat_block record;
          clamped = (if curr_height < last \<or> last = 0
                     then record\<lparr>dr_last_heartbeat_block := dr_registered_height record\<rparr> else record);
          last = dr_last_heartbeat_block clamped;
          clamped = clamped\<lparr>dr_status := status_after (if last < curr_height then curr_height - last else 0)\<rparr>
      in clamped\<lparr>dr_health_score := calculate_health_score clamped curr_height\<rparr>)"

definition load_domain :: "u64 \<Rightarrow> string \<Rightarrow> vns_state \<Rightarrow> vns_state" where
  "load_domain curr_height domain_name s =
     (case get_vns_domain_record domain_name (vs_db s) of
        None \<Rightarrow> s
      | Some record \<Rightarrow>
          if curr_height < dr_registered_height record then s
          else
            let normalized = normalize_vns_domain domain_name in
            if normalized = [] then s
            else
              let s = s\<lparr>vs_domains := AList.update normalized (reconcile_record curr_height record) (vs_domains s)\<rparr> in
              case parse_vns_domain normalized of
                None \<Rightarrow> s
              | Some (label, ext) \<Rightarrow> s\<lparr>vs_extensions := insert ext (vs_extensions s)\<rparr>)"

definition load_registry :: "u64 \<Rightarrow> string list \<Rightarrow> vns_state \<Rightarrow> vns_state" where
  "load_registry curr_height names s =
     fold (load_domain curr_height) names (s\<lparr>vs_domains := [], vs_extensions := {}\<rparr>)"

section \<open>Blocks\<close>

text \<open>
  The registrations of a block, on the main chain as well as on an alternative one. The block is refused at the first
  transaction whose message fails; what the earlier ones have written stays.
\<close>

primrec register_block ::
  "registry_env \<Rightarrow> u64 \<Rightarrow> transaction list \<Rightarrow> vns_state \<Rightarrow> (bool \<times> vns_state) option" where
  "register_block env height [] s = Some (True, s)"
| "register_block env height (tx # txs) s =
     (case process_domain_registration env tx height False s of
        None \<Rightarrow> None
      | Some (res, s) \<Rightarrow> if res \<noteq> DR_success then Some (False, s) else register_block env height txs s)"

text \<open>Undoing an event: the record is the one in memory or, if there is none, the one in the database.\<close>

definition rollback_heartbeat :: "vns_domain_heartbeat_event_record \<Rightarrow> vns_state \<Rightarrow> vns_state" where
  "rollback_heartbeat e s =
     (let domain_name = c_str (take 64 (hb_domain e));
          found = find_domain domain_name s in
      case (if found \<noteq> None then found else get_vns_domain_record domain_name (vs_db s)) of
        None \<Rightarrow> s
      | Some rec \<Rightarrow>
          let rec = rec\<lparr>dr_heartbeat_count := hb_previous_heartbeat_count e,
                dr_last_heartbeat_block := hb_previous_last_heartbeat_block e,
                dr_health_score := hb_previous_health_score e, dr_status := hb_previous_status e\<rparr>;
              db = (if hb_had_previous_proof e then set_vns_heartbeat_proof domain_name (hb_previous_proof e) (vs_db s)
                    else remove_vns_heartbeat_proof domain_name (vs_db s));
              s = s\<lparr>vs_db := add_vns_domain_record domain_name rec db\<rparr> in
          if found \<noteq> None then s\<lparr>vs_domains := AList.update domain_name rec (vs_domains s)\<rparr> else s)"

text \<open>
  The events of the popped height are undone in falling order of their sequence numbers. \<^verbatim>\<open>std::sort\<close> may put equal
  numbers in any order: \<open>hb_sort\<close> is any function that sorts.
\<close>

definition rollback_heartbeats ::
  "(vns_domain_heartbeat_event_record list \<Rightarrow> vns_domain_heartbeat_event_record list) \<Rightarrow> u64 \<Rightarrow> vns_state \<Rightarrow> vns_state" where
  "rollback_heartbeats hb_sort height s =
     (let hb_events = hb_sort (get_vns_domain_heartbeat_events_by_height height (vs_db s));
          s = fold rollback_heartbeat hb_events s
      in s\<lparr>vs_db := remove_vns_domain_heartbeat_events_by_height height (vs_db s)\<rparr>)"

definition remove_domain :: "string \<Rightarrow> vns_state \<Rightarrow> vns_state" where
  "remove_domain name s =
     s\<lparr>vs_domains := AList.delete name (vs_domains s),
       vs_db := remove_vns_domain_record name (remove_vns_heartbeat_proof name
         (remove_vns_domain_heartbeat_events_by_domain name (vs_db s)))\<rparr>"

definition remove_registrations :: "hash32 \<Rightarrow> vns_state \<Rightarrow> vns_state" where
  "remove_registrations tx_hash s =
     fold (\<lambda>(name, rec) s. if dr_registration_tx_hash rec = tx_hash then remove_domain name s else s) (vs_domains s) s"

definition pop_registry ::
  "(vns_domain_heartbeat_event_record list \<Rightarrow> vns_domain_heartbeat_event_record list) \<Rightarrow> registry_env \<Rightarrow> u64 \<Rightarrow>
   transaction list \<Rightarrow> vns_state \<Rightarrow> vns_state" where
  "pop_registry hb_sort env height txs s =
     fold (\<lambda>tx. remove_registrations (re_tx_hash env tx)) txs (rollback_heartbeats hb_sort height s)"

text \<open>
  What connecting an accepted block does to the registry: the registrations of the block at its index, and then
  health and expiry at the new height of the chain and the heartbeats that are waiting.
\<close>

definition connect_registry ::
  "registry_env \<Rightarrow> write_txn \<Rightarrow> hash32 \<Rightarrow> u64 \<Rightarrow> transaction list \<Rightarrow> vns_state \<Rightarrow> vns_state step option" where
  "connect_registry env txn junk blockchain_height txs s =
     (case register_block env blockchain_height txs s of
        None \<Rightarrow> None
      | Some (False, s) \<Rightarrow> Some (False_in s)
      | Some (True, s) \<Rightarrow>
          let new_height = blockchain_height + 1;
              s = refresh_vns_domain_snapshot (check_domain_expiry new_height s) in
          Some (and_then (process_pending_heartbeats txn junk new_height s)
                  (\<lambda>s. True_in (refresh_vns_domain_snapshot s))))"

section \<open>Messages that were read\<close>

lemma read_tlvs_keeps:
  assumes "\<And>ty data a a'. P a \<Longrightarrow> f ty data a = Inr a' \<Longrightarrow> P a'" "P a" "read_tlvs f bs a = Inr a'"
  shows "P a'"
proof -
  have "\<forall>ty data a a'. P a \<longrightarrow> f ty data a = Inr a' \<longrightarrow> P a'" using assms(1) by blast
  then show ?thesis
    using assms(2,3)
  proof (induction f bs a rule: read_tlvs.induct)
    case (3 f t l bs a)
    then show ?case by (cases "f (byte_val t) (take (byte_val l) bs) a") (auto split: if_splits)
  qed (auto split: if_splits)
qed

definition registration_wf :: "registration \<Rightarrow> bool" where
  "registration_wf r \<longleftrightarrow> length (rg_key r) = 33 \<and> length (rg_fingerprint r) = 32 \<and> length (rg_relays r) = 3"

definition update_wf :: "domain_update \<Rightarrow> bool" where
  "update_wf u \<longleftrightarrow> (\<forall>k. up_owner u = Some k \<longrightarrow> length k = 33) \<and> (\<forall>us. up_relays u = Some us \<longrightarrow> length us = 3)"

definition env_ok :: "registry_env \<Rightarrow> bool" where
  "env_ok env \<longleftrightarrow> length (re_junk_key env) = 33 \<and> length (re_junk_hash env) = 32 \<and> (\<forall>tx. length (re_tx_hash env tx) = 32)"

lemma read_registration_wf:
  assumes "env_ok env" "read_registration vk (re_junk_key env) (re_junk_hash env) body = Inr r"
  shows "registration_wf r"
proof (rule read_tlvs_keeps [OF _ _ assms(2) [unfolded read_registration_def]])
  show "registration_wf \<lparr>rg_name = [], rg_tier = 0, rg_key = re_junk_key env, rg_fingerprint = re_junk_hash env, rg_relays = [[], [], []]\<rparr>"
    using assms(1) by (simp add: registration_wf_def env_ok_def)
qed (auto simp: registration_wf_def registration_field_def split: if_splits)

lemma read_relay_urls_length: "read_relay_urls n data = Some us \<Longrightarrow> length us = n"
  by (induction n data arbitrary: us rule: read_relay_urls.induct) (auto split: if_splits)

lemma read_relay_set_length: "read_relay_set data = Some us \<Longrightarrow> length us = 3"
  by (auto simp: read_relay_set_def split: list.splits if_splits dest!: read_relay_urls_length)

lemma read_update_wf: "read_update vk body = Inr u \<Longrightarrow> update_wf u"
  unfolding read_update_def
  by (erule read_tlvs_keeps [rotated 2])
    (auto simp: update_wf_def update_field_def read_relay_set_length split: if_splits option.splits)

lemma read_transfer_wf: "read_transfer body = Inr x \<Longrightarrow> xf_key x = Some k \<Longrightarrow> length k = 32"
proof -
  assume "read_transfer body = Inr x" "xf_key x = Some k"
  moreover have "\<forall>k. xf_key x = Some k \<longrightarrow> length k = 32" if "read_transfer body = Inr x"
    using that unfolding read_transfer_def
    by (rule read_tlvs_keeps [rotated 2]) (auto simp: transfer_field_def split: if_splits)
  ultimately show ?thesis by simp
qed

section \<open>What a message changes\<close>

definition free_name :: "string \<Rightarrow> u64 \<Rightarrow> vns_state \<Rightarrow> bool" where
  "free_name n height s \<longleftrightarrow>
     (\<forall>rec. find_domain n s = Some rec \<longrightarrow> dr_status rec = EXPIRED \<and> 43200 < height - dr_last_heartbeat_block rec)"

inductive domain_change :: "registry_env \<Rightarrow> transaction \<Rightarrow> u64 \<Rightarrow> vns_state \<Rightarrow> vns_state \<Rightarrow> bool" for env tx height s where
  unchanged: "domain_change env tx height s s"
| registered: "canonical_domain n \<Longrightarrow> parse_vns_domain n = Some (l, e) \<Longrightarrow> registration_wf r \<Longrightarrow> rg_tier r \<le> 6 \<Longrightarrow>
    free_name n height s \<Longrightarrow>
    domain_change env tx height s
      (persist_domain n (new_domain_record env tx height r fee) (s\<lparr>vs_extensions := insert e (vs_extensions s)\<rparr>))"
| updated: "canonical_domain n \<Longrightarrow> find_domain n s = Some rec \<Longrightarrow> dr_status rec \<noteq> EXPIRED \<Longrightarrow> update_wf u \<Longrightarrow>
    re_verify env (dr_registrant_key rec) (re_hash env (update_message n u)) sig \<Longrightarrow>
    domain_change env tx height s (persist_domain n (apply_update u rec) s)"
| transferred: "canonical_domain n \<Longrightarrow> find_domain n s = Some rec \<Longrightarrow> dr_status rec \<noteq> EXPIRED \<Longrightarrow> length key = 32 \<Longrightarrow>
    re_verify env (dr_registrant_key rec) (re_hash env (n @ key)) sig \<Longrightarrow>
    domain_change env tx height s (persist_domain n (rec\<lparr>dr_registrant_key := byte_of 2 # key\<rparr>) s)"

lemma normalized_canonical: "normalize_vns_domain d \<noteq> [] \<Longrightarrow> canonical_domain (normalize_vns_domain d)"
  using normalize_vns_domain_canonical by blast

lemma register_change:
  assumes "register_domain env tx height dry_run r s = (res, s')" "registration_wf r"
  shows "domain_change env tx height s s'"
proof -
  have "free_name n height s" if "\<not> (case find_domain n s of None \<Rightarrow> False
      | Some existing \<Rightarrow> dr_status existing = EXPIRED \<longrightarrow> \<not> 43200 < height - dr_last_heartbeat_block existing)" for n
    using that by (auto simp: free_name_def)
  with assms show ?thesis
    by (auto simp: register_domain_def Let_def unchanged normalized_canonical not_less
        split: if_splits option.splits prod.splits intro!: registered)
qed

lemma update_change:
  "update_domain env dry_run u s = (res, s') \<Longrightarrow> update_wf u \<Longrightarrow> domain_change env tx height s s'"
  by (auto simp: update_domain_def Let_def unchanged normalized_canonical
      split: if_splits option.splits intro!: updated)

lemma transfer_change:
  "transfer_domain env dry_run x s = (res, s') \<Longrightarrow> (\<And>k. xf_key x = Some k \<Longrightarrow> length k = 32) \<Longrightarrow> domain_change env tx height s s'"
  by (auto simp: transfer_domain_def Let_def unchanged normalized_canonical compute_vns_transfer_message_hash_def
      split: if_splits option.splits intro!: transferred)

lemma process_change:
  assumes "env_ok env" "process_domain_registration env tx height dry_run s = Some (res, s')"
  shows "domain_change env tx height s s'"
  using assms(2)
  by (auto simp: process_domain_registration_def unchanged split: option.splits object_kind.splits sum.splits
      intro: register_change [OF _ read_registration_wf [OF assms(1)]] update_change [OF _ read_update_wf]
        transfer_change [OF _ read_transfer_wf])

section \<open>The invariant of the registry\<close>

text \<open>The part of a record that is not derived from its last heartbeat.\<close>

definition lasting :: "vns_domain_record \<Rightarrow> vns_domain_record" where
  "lasting rec = rec\<lparr>dr_health_score := 0, dr_status := 0\<rparr>"

definition record_ok :: "vns_domain_record \<Rightarrow> bool" where
  "record_ok rec \<longleftrightarrow> length (dr_registrant_key rec) = 33 \<and> length (dr_genesis_fingerprint rec) = 32
     \<and> length (dr_registration_tx_hash rec) = 32 \<and> dr_fee_tier rec \<le> 6
     \<and> length (dr_relays rec) = 3 \<and> (\<forall>r \<in> set (dr_relays rec). length r = 256 \<and> last r = NUL)
     \<and> length (dr_heartbeat_history rec) = 120"

definition entry_ok :: "string set \<Rightarrow> string \<Rightarrow> vns_domain_record \<Rightarrow> bool" where
  "entry_ok exts n rec \<longleftrightarrow> canonical_domain n \<and> record_ok rec \<and> (\<exists>l e. parse_vns_domain n = Some (l, e) \<and> e \<in> exts)"

definition registry_ok :: "vns_state \<Rightarrow> bool" where
  "registry_ok s \<longleftrightarrow> distinct (map fst (vs_domains s))
     \<and> (\<forall>n rec. find_domain n s = Some rec \<longrightarrow> entry_ok (vs_extensions s) n rec)
     \<and> (\<forall>n. map_option lasting (find_domain n s) = map_option lasting (db_domains (vs_db s) n))
     \<and> table_wf event_place (db_heartbeat_events (vs_db s))"

lemma registry_okD:
  assumes "registry_ok s"
  shows "distinct (map fst (vs_domains s))" "find_domain n s = Some rec \<Longrightarrow> entry_ok (vs_extensions s) n rec"
    "map_option lasting (find_domain n s) = map_option lasting (db_domains (vs_db s) n)"
    "table_wf event_place (db_heartbeat_events (vs_db s))"
  using assms by (simp_all add: registry_ok_def)

lemma canonical_c_str: "canonical_domain n \<Longrightarrow> c_str n = n"
  using canonical_domain_plain [of n] by (simp add: plain_string_def)

lemma find_persist [simp]:
  "find_domain m (persist_domain n rec s) = (if m = n then Some rec else find_domain m s)"
  by (simp add: find_domain_def persist_domain_def AList.update_conv)

lemma persist_simps [simp]:
  "map fst (vs_domains (persist_domain n rec s)) = (if n \<in> set (map fst (vs_domains s)) then map fst (vs_domains s) else map fst (vs_domains s) @ [n])"
  "vs_extensions (persist_domain n rec s) = vs_extensions s" "vs_pending_heartbeats (persist_domain n rec s) = vs_pending_heartbeats s"
  "db_heartbeat_events (vs_db (persist_domain n rec s)) = db_heartbeat_events (vs_db s)"
  "db_heartbeat_proofs (vs_db (persist_domain n rec s)) = db_heartbeat_proofs (vs_db s)"
  by (simp_all add: persist_domain_def AList.update_keys add_vns_domain_record_def)

lemma persist_db: "canonical_domain n \<Longrightarrow> db_domains (vs_db (persist_domain n rec s)) = (db_domains (vs_db s))(n \<mapsto> rec)"
  by (simp add: persist_domain_def add_vns_domain_record_def canonical_c_str)

lemma registry_ok_persist:
  assumes "registry_ok s" "entry_ok (vs_extensions s) n rec"
  shows "registry_ok (persist_domain n rec s)"
  using assms persist_db [of n rec s] by (auto simp: registry_ok_def entry_ok_def)

lemma entry_ok_mono: "entry_ok E n rec \<Longrightarrow> entry_ok (insert e E) n rec"
  unfolding entry_ok_def by blast

lemma find_ext [simp]: "find_domain n (s\<lparr>vs_extensions := E\<rparr>) = find_domain n s"
  by (simp add: find_domain_def)

lemma registry_ok_ext: "registry_ok s \<Longrightarrow> registry_ok (s\<lparr>vs_extensions := insert e (vs_extensions s)\<rparr>)"
  unfolding registry_ok_def by (auto intro: entry_ok_mono)

lemma relay_endpoint_ok [simp]: "length (relay_endpoint url) = 256" "last (relay_endpoint url) = NUL"
  by (auto simp: relay_endpoint_def)

lemma record_ok_change:
  "registration_wf r \<Longrightarrow> rg_tier r \<le> 6 \<Longrightarrow> env_ok env \<Longrightarrow> record_ok (new_domain_record env tx h r fee)"
  "record_ok rec \<Longrightarrow> update_wf u \<Longrightarrow> record_ok (apply_update u rec)"
  "record_ok rec \<Longrightarrow> length key = 32 \<Longrightarrow> record_ok (rec\<lparr>dr_registrant_key := c # key\<rparr>)"
  by (auto simp: record_ok_def new_domain_record_def registration_wf_def env_ok_def apply_update_def update_wf_def Let_def
      split: option.split)

lemma registry_ok_change:
  assumes "domain_change env tx height s s'" "env_ok env" "registry_ok s"
  shows "registry_ok s'"
  using assms(1)
proof cases
  case (registered n l e r fee)
  then show ?thesis
    using assms record_ok_change(1) by (auto intro!: registry_ok_persist registry_ok_ext simp: entry_ok_def)
next
  case (updated n rec u sig)
  with registry_okD(2) [OF assms(3) updated(3)] show ?thesis
    using assms(3) record_ok_change(2) by (auto intro!: registry_ok_persist simp: entry_ok_def)
next
  case (transferred n rec key sig)
  with registry_okD(2) [OF assms(3) transferred(3)] show ?thesis
    using assms(3) record_ok_change(3) by (auto intro!: registry_ok_persist simp: entry_ok_def)
qed (use assms in simp)

lemma registry_ok_block:
  assumes "env_ok env" "register_block env h txs s = Some (ok, s')" "registry_ok s"
  shows "registry_ok s'"
  using assms(2,3)
proof (induction txs arbitrary: s)
  case (Cons tx txs)
  then obtain res s1 where p: "process_domain_registration env tx h False s = Some (res, s1)"
    and rest: "if res \<noteq> DR_success then s' = s1 else register_block env h txs s1 = Some (ok, s')"
    by (auto split: option.splits if_splits)
  have "registry_ok s1" by (rule registry_ok_change [OF process_change [OF assms(1) p] assms(1) Cons.prems(2)])
  with rest Cons.IH show ?case by (auto split: if_splits)
qed simp

text \<open>Health, expiry and the snapshot.\<close>

lemma lasting_check [simp]: "lasting (check_record_expiry h rec) = lasting rec"
  by (simp add: lasting_def check_record_expiry_def)

lemma find_check: "find_domain n (check_domain_expiry h s) = map_option (check_record_expiry h) (find_domain n s)"
  by (simp add: find_domain_def check_domain_expiry_def map_of_map)

lemma entry_ok_status [simp]:
  "entry_ok E n (rec\<lparr>dr_health_score := a, dr_status := b\<rparr>) = entry_ok E n rec"
  "entry_ok E n (check_record_expiry h rec) = entry_ok E n rec"
  "entry_ok E n (rec\<lparr>dr_heartbeat_count := a', dr_last_heartbeat_block := b'\<rparr>) = entry_ok E n rec"
  by (simp_all add: entry_ok_def record_ok_def check_record_expiry_def)

lemma registry_ok_check: "registry_ok s \<Longrightarrow> registry_ok (check_domain_expiry h s)"
  unfolding registry_ok_def find_check
  by (auto simp: option.map_comp comp_def) (auto simp: check_domain_expiry_def comp_def case_prod_beta)

lemma registry_ok_other [simp]:
  "registry_ok (refresh_vns_domain_snapshot s) = registry_ok s"
  "registry_ok (queue_validated_heartbeat hb s) = registry_ok s"
  "registry_ok (s\<lparr>vs_pending_heartbeats := q\<rparr>) = registry_ok s"
  by (simp_all add: registry_ok_def find_domain_def refresh_vns_domain_snapshot_def queue_validated_heartbeat_def)

text \<open>Heartbeats.\<close>

lemma registry_ok_proof: "registry_ok (s\<lparr>vs_db := set_vns_heartbeat_proof n p (vs_db s)\<rparr>) = registry_ok s"
  by (simp add: registry_ok_def find_domain_def set_vns_heartbeat_proof_def)

lemma registry_ok_event:
  "registry_ok s \<Longrightarrow> add_vns_domain_heartbeat_event e (vs_db s) = Some db \<Longrightarrow> registry_ok (s\<lparr>vs_db := db\<rparr>)"
  by (auto simp: registry_ok_def find_domain_def add_vns_domain_heartbeat_event_def dest: cursor_put_new_wf)

lemma heartbeat_cases:
  assumes "update_domain_heartbeat txn junk h name hh proof cnt s = True_in s'"
  obtains (same) n rec where "n = normalize_vns_domain name" "find_domain n s = Some rec" "s' = persist_domain n rec s"
    "get_vns_heartbeat_proof n (vs_db s) = Some proof"
  | (beat) n rec db where "n = normalize_vns_domain name" "find_domain n s = Some rec" "hh \<le> h"
    "get_vns_heartbeat_proof n (vs_db s) \<noteq> Some proof"
    "add_vns_domain_heartbeat_event (heartbeat_undo_event junk h n proof (get_vns_heartbeat_proof n (vs_db s)) rec (heartbeat_record hh cnt rec))
      (set_vns_heartbeat_proof n proof (vs_db s)) = Some db"
    "s' = persist_domain n (heartbeat_record hh cnt rec) (s\<lparr>vs_db := db\<rparr>)"
  using assms by (auto simp: update_domain_heartbeat_def Let_def not_less split: if_splits option.splits)

lemma registry_ok_heartbeat:
  assumes "update_domain_heartbeat txn junk h name hh proof cnt s = True_in s'" "registry_ok s"
  shows "registry_ok s'"
  using assms(1)
proof (cases rule: heartbeat_cases)
  case (same n rec)
  with registry_okD(2) [OF assms(2) same(2)] assms(2) show ?thesis by (simp add: registry_ok_persist)
next
  case (beat n rec db)
  let ?s = "s\<lparr>vs_db := set_vns_heartbeat_proof n proof (vs_db s)\<rparr>"
  have "registry_ok (?s\<lparr>vs_db := db\<rparr>)"
    using registry_ok_event [of ?s _ db] beat(5) assms(2) by (simp add: registry_ok_proof)
  then have "registry_ok (s\<lparr>vs_db := db\<rparr>)" by simp
  with registry_okD(2) [OF assms(2) beat(2)] show ?thesis
    unfolding beat(6) by (intro registry_ok_persist) (simp_all add: heartbeat_record_def)
qed

lemma heartbeat_false: "update_domain_heartbeat txn junk h name hh proof cnt s = False_in s' \<Longrightarrow> s' = s"
  by (auto simp: update_domain_heartbeat_def Let_def split: if_splits option.splits)

lemma registry_ok_heartbeats: "apply_heartbeats txn junk h hbs s = True_in s' \<Longrightarrow> registry_ok s \<Longrightarrow> registry_ok s'"
proof (induction hbs arbitrary: s)
  case (Cons hb hbs)
  let ?u = "update_domain_heartbeat txn junk h (he_domain hb) (capped_height h hb) (he_event_id hb) (he_heartbeat_count hb) s"
  show ?case
    using Cons registry_ok_heartbeat heartbeat_false by (cases ?u) fastforce+
qed simp

text \<open>Popping.\<close>

lemma find_db_cong [simp]: "find_domain n (s\<lparr>vs_db := db\<rparr>) = find_domain n s"
  by (simp add: find_domain_def)

lemma c_str_c_str [simp]: "c_str (c_str n) = c_str n"
  by (rule c_str_plain) simp

lemma rollback_cases:
  assumes "registry_ok s" "n = c_str (take 64 (hb_domain e))"
  obtains (none) "find_domain n s = None" "rollback_heartbeat e s = s"
  | (some) rec where "find_domain n s = Some rec"
    "rollback_heartbeat e s = persist_domain n (rec\<lparr>dr_heartbeat_count := hb_previous_heartbeat_count e,
       dr_last_heartbeat_block := hb_previous_last_heartbeat_block e, dr_health_score := hb_previous_health_score e,
       dr_status := hb_previous_status e\<rparr>)
      (s\<lparr>vs_db := (if hb_had_previous_proof e then set_vns_heartbeat_proof n (hb_previous_proof e) (vs_db s)
         else remove_vns_heartbeat_proof n (vs_db s))\<rparr>)"
proof (cases "find_domain n s")
  case None
  with registry_okD(3) [OF assms(1), of n] have "get_vns_domain_record n (vs_db s) = None"
    by (simp add: get_vns_domain_record_def assms(2))
  with None show thesis by (intro none) (simp_all add: rollback_heartbeat_def Let_def assms(2) [symmetric])
next
  case (Some rec)
  then show thesis
    by (intro some) (simp_all add: rollback_heartbeat_def Let_def assms(2) [symmetric] persist_domain_def, cases s, simp)
qed

lemma registry_ok_unproof: "registry_ok (s\<lparr>vs_db := remove_vns_heartbeat_proof n (vs_db s)\<rparr>) = registry_ok s"
  by (simp add: registry_ok_def remove_vns_heartbeat_proof_def)

lemma registry_ok_rollback:
  assumes ok: "registry_ok s"
  shows "registry_ok (rollback_heartbeat e s)"
  using ok refl
proof (cases rule: rollback_cases [of s _ e])
  case none
  with ok show ?thesis by simp
next
  case (some rec)
  then show ?thesis
    using registry_okD(2) [OF ok some(1)] ok
    unfolding some(2) by (intro registry_ok_persist) (simp_all add: registry_ok_proof registry_ok_unproof)
qed

lemma registry_ok_fold: "(\<And>x s. registry_ok s \<Longrightarrow> registry_ok (f x s)) \<Longrightarrow> registry_ok s \<Longrightarrow> registry_ok (fold f xs s)"
  by (induction xs arbitrary: s) simp_all

lemma registry_ok_rollbacks: "registry_ok s \<Longrightarrow> registry_ok (rollback_heartbeats hb_sort h s)"
proof -
  assume "registry_ok s"
  then have "registry_ok (fold rollback_heartbeat es s)" for es
    by (intro registry_ok_fold registry_ok_rollback)
  then show ?thesis
    by (simp add: rollback_heartbeats_def Let_def registry_ok_def remove_vns_domain_heartbeat_events_by_height_def
        cursor_del_dups_def table_wf_filter)
qed

lemma registry_ok_remove:
  assumes "registry_ok s" "c_str n = n"
  shows "registry_ok (remove_domain n s)"
proof -
  have find: "find_domain m (remove_domain n s) = (if m = n then None else find_domain m s)" for m
    by (simp add: find_domain_def remove_domain_def AList.delete_conv)
  have "distinct (map fst (vs_domains (remove_domain n s)))"
    using registry_okD(1) [OF assms(1)] by (simp add: remove_domain_def AList.distinct_delete)
  moreover have "db_domains (vs_db (remove_domain n s)) = (db_domains (vs_db s))(n := None)"
    by (simp add: remove_domain_def remove_vns_domain_record_def remove_vns_heartbeat_proof_def
        remove_vns_domain_heartbeat_events_by_domain_def assms(2))
  moreover have "table_wf event_place (db_heartbeat_events (vs_db (remove_domain n s)))"
    using registry_okD(4) [OF assms(1)]
    by (simp add: remove_domain_def remove_vns_domain_record_def remove_vns_heartbeat_proof_def
        remove_vns_domain_heartbeat_events_by_domain_def cursor_del_where_def table_wf_filter)
  moreover have "vs_extensions (remove_domain n s) = vs_extensions s" by (simp add: remove_domain_def)
  ultimately show ?thesis using assms(1) by (simp add: registry_ok_def find)
qed

lemma registry_ok_removes: "registry_ok s \<Longrightarrow> registry_ok (remove_registrations h s)"
proof -
  assume ok: "registry_ok s"
  have names: "c_str (fst e) = fst e" if "e \<in> set (vs_domains s)" for e
    using that registry_okD(2) [OF ok, of "fst e" "snd e"] map_of_is_SomeI [OF registry_okD(1) [OF ok], of "fst e" "snd e"]
    by (auto simp: find_domain_def entry_ok_def canonical_c_str)
  have "registry_ok (fold (\<lambda>(n, rec) s. if dr_registration_tx_hash rec = h then remove_domain n s else s) es s')"
    if "set es \<subseteq> set (vs_domains s)" "registry_ok s'" for es s'
    using that
  proof (induction es arbitrary: s')
    case (Cons e es)
    then show ?case using names [of e] by (auto split: prod.split simp: registry_ok_remove)
  qed simp
  then show ?thesis using ok by (simp add: remove_registrations_def)
qed

lemma registry_ok_pop: "registry_ok s \<Longrightarrow> registry_ok (pop_registry hb_sort env h txs s)"
  unfolding pop_registry_def by (intro registry_ok_fold registry_ok_removes registry_ok_rollbacks)

lemma registry_ok_connect:
  assumes "env_ok env" "connect_registry env txn junk h txs s = Some (True_in s')" "registry_ok s"
  shows "registry_ok s'"
proof -
  from assms(2) obtain s1 where b: "register_block env h txs s = Some (True, s1)"
    by (auto simp: connect_registry_def split: option.splits bool.splits)
  let ?s2 = "refresh_vns_domain_snapshot (check_domain_expiry (h + 1) s1)"
  from assms(2) b obtain s3 where p: "process_pending_heartbeats txn junk (h + 1) ?s2 = True_in s3"
    and "s' = refresh_vns_domain_snapshot s3"
    by (cases "process_pending_heartbeats txn junk (h + 1) ?s2") (auto simp: connect_registry_def Let_def)
  moreover have "registry_ok ?s2" using registry_ok_block [OF assms(1) b assms(3)] by (simp add: registry_ok_check)
  ultimately show ?thesis using registry_ok_heartbeats by (auto simp: process_pending_heartbeats_def)
qed

text \<open>
  The steps of a node: the registrations of a block, which may be refused afterwards or belong to an
  alternative chain, a connected block, a heartbeat that arrives, and a popped block.
\<close>

inductive registry_step :: "registry_env \<Rightarrow> vns_state \<Rightarrow> vns_state \<Rightarrow> bool" for env where
  try_block: "register_block env h txs s = Some (ok, s') \<Longrightarrow> registry_step env s s'"
| connect: "connect_registry env txn junk h txs s = Some (True_in s') \<Longrightarrow> registry_step env s s'"
| arrive: "registry_step env s (queue_validated_heartbeat hb s)"
| pop: "registry_step env s (pop_registry hb_sort env h txs s)"

lemma registry_ok_step: "registry_step env s s' \<Longrightarrow> env_ok env \<Longrightarrow> registry_ok s \<Longrightarrow> registry_ok s'"
  by (cases rule: registry_step.cases) (auto intro: registry_ok_block registry_ok_connect registry_ok_pop)

interpretation registry_run: kept "registry_step env" "\<lambda>s s'. env_ok env \<and> registry_ok s \<longrightarrow> registry_ok s'" for env
  by unfold_locales (use registry_ok_step in blast)+

section \<open>Loading\<close>

lemma reconcile_eq:
  assumes "0 < dr_last_heartbeat_block rec" "dr_last_heartbeat_block rec \<le> h"
  shows "reconcile_record h rec = check_record_expiry h rec"
proof -
  have "\<not> h < dr_last_heartbeat_block rec" "dr_last_heartbeat_block rec \<noteq> 0" using assms by auto
  moreover have "(if dr_last_heartbeat_block rec < h then h - dr_last_heartbeat_block rec else 0) = h - dr_last_heartbeat_block rec"
    using assms(2) by auto
  ultimately show ?thesis
    by (simp add: reconcile_record_def check_record_expiry_def Let_def calculate_health_score_def)
qed

lemma check_lasting: "lasting rec' = lasting rec \<Longrightarrow> dr_last_heartbeat_block rec \<le> h \<Longrightarrow> check_record_expiry h rec' = check_record_expiry h rec"
proof -
  assume l: "lasting rec' = lasting rec" and h: "dr_last_heartbeat_block rec \<le> h"
  then have e: "rec' = rec\<lparr>dr_health_score := dr_health_score rec', dr_status := dr_status rec'\<rparr>"
    by (cases rec, cases rec') (simp add: lasting_def)
  show ?thesis
    using h by (subst e) (simp add: check_record_expiry_def not_less calculate_health_score_def)
qed

lemma load_domain_simps [simp]: "vs_db (load_domain h n s) = vs_db s"
  by (simp add: load_domain_def Let_def split: option.split)

lemma load_fold:
  assumes "distinct names" "\<forall>n \<in> set names. canonical_domain n \<and> (\<exists>rec. db_domains (vs_db s) n = Some rec \<and> dr_registered_height rec \<le> h)"
  shows "find_domain n (fold (load_domain h) names s) =
    (if n \<in> set names then map_option (reconcile_record h) (db_domains (vs_db s) n) else find_domain n s)"
  using assms
proof (induction names arbitrary: s)
  case (Cons m names)
  from Cons.prems(2) obtain rec where c: "canonical_domain m" "db_domains (vs_db s) m = Some rec" "dr_registered_height rec \<le> h"
    by auto
  have "\<not> h < dr_registered_height rec" using c(3) by simp
  then have "find_domain n (load_domain h m s) = (if n = m then Some (reconcile_record h rec) else find_domain n s)"
    using c canonical_domain_nonempty [OF c(1)]
    by (simp add: load_domain_def get_vns_domain_record_def canonical_c_str normalize_of_canonical Let_def
        find_domain_def AList.update_conv split: option.split)
  then show ?case using Cons c(2) by auto
qed simp

text \<open>Records in memory and on disk.\<close>

lemma lasting_fields:
  "lasting a = lasting b \<Longrightarrow> dr_last_heartbeat_block a = dr_last_heartbeat_block b \<and> dr_registered_height a = dr_registered_height b"
  by (cases a, cases b) (simp add: lasting_def)

lemma stored_record:
  assumes "registry_ok s" "db_domains (vs_db s) n = Some stored"
  obtains rec where "find_domain n s = Some rec" "lasting stored = lasting rec" "canonical_domain n"
  using registry_okD(3) [OF assms(1), of n] registry_okD(2) [OF assms(1), of n] assms(2) that by (auto simp: entry_ok_def)

section \<open>Deciding on a registration\<close>

text \<open>What the policy of names and fees asks of a registration, and what the registry asks.\<close>

definition admitted ::
  "registry_env \<Rightarrow> transaction \<Rightarrow> u64 \<Rightarrow> registration \<Rightarrow> string \<times> string \<times> string \<Rightarrow> vns_state \<Rightarrow> bool" where
  "admitted env tx height r name s \<longleftrightarrow>
     (case name of (n, l, e) \<Rightarrow>
       let gp = re_params env; db = vs_db s; tier = tier_at gp db n l e height in
       pending_lock db n = None \<and> \<not> name_barred gp db n l e height
       \<and> tier \<le> TIER_PREMIUM \<and> rg_tier r = ucast tier
       \<and> \<not> is_null_key (rg_key r) \<and> rg_fingerprint r \<noteq> null_hash \<and> relays_valid (rg_relays r)
       \<and> (50000 \<le> height \<longrightarrow> burn_valid env tx (fee_at gp db tier height))
       \<and> free_name n height s)"

lemma register_decides:
  assumes n: "normalize_vns_domain (rg_name r) = n" "n \<noteq> []" "parse_vns_domain n = Some (l, e)"
    and "register_domain env tx height dry_run r s = (res, s')"
  shows "(res = DR_success \<longleftrightarrow> admitted env tx height r (n, l, e) s)
    \<and> s' = (if res = DR_success \<and> \<not> dry_run then
        persist_domain n (new_domain_record env tx height r
            (fee_at (re_params env) (vs_db s) (tier_at (re_params env) (vs_db s) n l e height) height))
          (s\<lparr>vs_extensions := insert e (vs_extensions s)\<rparr>)
      else s)"
proof -
  have c: "canonical_domain n" using n normalized_canonical [of "rg_name r"] by simp
  have name: "rg_name r \<noteq> []"
  proof
    assume "rg_name r = []"
    then have "normalize_vns_domain (rg_name r) = []" by (simp add: normalize_vns_domain_def trim_def validate_domain_name_format_def)
    with n show False by simp
  qed
  obtain ok policy where p: "resolve_domain_policy (re_params env) (vs_db s) n height (re_junk_policy env) = (ok, policy)"
    by fastforce
  note res = resolve_cases [OF normalize_of_canonical [OF c] n(2,3) p]
  have free: "(case find_domain n s of None \<Rightarrow> False
      | Some existing \<Rightarrow> \<not> (dr_status existing = EXPIRED \<and> EXPIRY_BLOCKS + RECLAIM_BLOCKS < height - dr_last_heartbeat_block existing))
    \<longleftrightarrow> \<not> free_name n height s"
    by (auto simp: free_name_def split: option.split)
  have tier: "\<not> 6 < (ucast t :: u64)" if "t \<le> TIER_PREMIUM" for t :: u8
    using that by (simp add: not_less word_le_nat_alt unsigned_ucast_eq take_bit_nat_eq_self)
  have "chain_validate_domain_name_format n" by (rule validate_imp_chain_validate [OF canonical_domain_validate [OF c]])
  with assms(4) name n show ?thesis
    unfolding register_domain_def Let_def
    by (simp only: n(1) p option.case prod.case free) (use res tier in \<open>auto simp: admitted_def Let_def split: if_splits\<close>)
qed

lemma dry_run_result: "fst (register_domain env tx height True r s) = fst (register_domain env tx height False r s)"
  by (simp add: register_domain_def Let_def split: option.split prod.split)

lemma read_registration_error: "read_registration vk jk jh body = Inl e \<Longrightarrow> e \<noteq> DR_success"
proof -
  have "read_tlvs (registration_field vk) bs a = Inl e \<Longrightarrow> e \<noteq> DR_success" for bs a
  proof (induction "registration_field vk" bs a rule: read_tlvs.induct)
    case (3 t l bs a)
    then show ?case
      by (cases "registration_field vk (byte_val t) (take (byte_val l) bs) a") (auto simp: registration_field_def split: if_splits)
  qed (auto split: if_splits)
  then show "read_registration vk jk jh body = Inl e \<Longrightarrow> e \<noteq> DR_success" by (auto simp: read_registration_def)
qed

text \<open>A name that is registered and not expired stays so, whatever messages are processed, and cannot be registered.\<close>

definition held :: "string \<Rightarrow> vns_state \<Rightarrow> bool" where
  "held n s \<longleftrightarrow> (\<exists>rec. find_domain n s = Some rec \<and> dr_status rec \<noteq> EXPIRED)"

lemma held_change: "domain_change env tx h s s' \<Longrightarrow> held n s \<Longrightarrow> held n s'"
  by (cases rule: domain_change.cases)
    (auto simp: held_def new_domain_record_def apply_update_def Let_def split: option.splits)

lemma held_block:
  assumes "env_ok env" "register_block env h txs s = Some (ok, s')" "held n s"
  shows "held n s'"
  using assms(2,3)
proof (induction txs arbitrary: s)
  case (Cons tx txs)
  then obtain res s1 where p: "process_domain_registration env tx h False s = Some (res, s1)"
    and rest: "if res \<noteq> DR_success then s' = s1 else register_block env h txs s1 = Some (ok, s')"
    by (auto split: option.splits if_splits)
  have "held n s1" by (rule held_change [OF process_change [OF assms(1) p] Cons.prems(2)])
  with rest Cons.IH show ?case by (auto split: if_splits)
qed simp

lemma process_returns: "\<exists>res s'. process_domain_registration env tx h dry_run s = Some (res, s')"
proof -
  obtain r where "scan_extra (re_beyond env) (tx_extra tx) 0 = Some r" using scan_extra_returns by blast
  then show ?thesis
    by (auto simp: process_domain_registration_def split: option.split object_kind.split sum.split)
qed

text \<open>A registration that has succeeded holds the name, and fails as long as it is held.\<close>

lemma registered_name:
  assumes "scan_extra (re_beyond env) (tx_extra tx) 0 = Some (Some (DOMAIN_REG, body))"
    and "process_domain_registration env tx h False s = Some (DR_success, s')"
  obtains r n l e where "read_registration (is_valid_compressed_pubkey env) (re_junk_key env) (re_junk_hash env) body = Inr r"
    "normalize_vns_domain (rg_name r) = n" "n \<noteq> []" "parse_vns_domain n = Some (l, e)"
    "register_domain env tx h False r s = (DR_success, s')"
proof -
  from assms obtain r where r: "read_registration (is_valid_compressed_pubkey env) (re_junk_key env) (re_junk_hash env) body = Inr r"
    "register_domain env tx h False r s = (DR_success, s')"
    by (auto simp: process_domain_registration_def split: sum.splits dest: read_registration_error)
  have n: "normalize_vns_domain (rg_name r) \<noteq> []"
    using r(2) by (auto simp: register_domain_def Let_def split: if_splits)
  obtain l e where "parse_vns_domain (normalize_vns_domain (rg_name r)) = Some (l, e)"
    by (rule canonical_parse [OF normalized_canonical [OF n]])
  with r n show thesis by (intro that) auto
qed

definition bound_to :: "string \<Rightarrow> registry_env \<Rightarrow> transaction \<Rightarrow> bool" where
  "bound_to n env tx \<longleftrightarrow>
     (\<forall>h s res s'. held n s \<longrightarrow> process_domain_registration env tx h False s = Some (res, s') \<longrightarrow> res \<noteq> DR_success)"

lemma registration_holds:
  assumes "scan_extra (re_beyond env) (tx_extra tx) 0 = Some (Some (DOMAIN_REG, body))"
    and "process_domain_registration env tx h False s = Some (DR_success, s')"
  obtains n where "held n s'"
    "bound_to n env tx"
proof (rule registered_name [OF assms])
  fix r n l e
  assume r: "read_registration (is_valid_compressed_pubkey env) (re_junk_key env) (re_junk_hash env) body = Inr r"
    and n: "normalize_vns_domain (rg_name r) = n" "n \<noteq> []" "parse_vns_domain n = Some (l, e)"
    and d: "register_domain env tx h False r s = (DR_success, s')"
  have "held n s'" using register_decides [OF n d] by (simp add: held_def new_domain_record_def)
  moreover have "res \<noteq> DR_success" if "held n s1" "process_domain_registration env tx h' False s1 = Some (res, s2)" for h' s1 res s2
    using that register_decides [OF n, of env tx h' False s1 res s2]
    by (auto simp: process_domain_registration_def assms(1) r held_def admitted_def Let_def free_name_def)
  ultimately show thesis by (intro that) (auto simp: bound_to_def)
qed

lemma register_block_append:
  "register_block env h (txs @ txs') s =
     (case register_block env h txs s of
        None \<Rightarrow> None
      | Some (ok, s1) \<Rightarrow> if ok then register_block env h txs' s1 else Some (False, s1))"
  by (induction txs arbitrary: s) (auto split: option.split)

lemma block_holds:
  assumes "env_ok env" "register_block env h txs s = Some (True, s')" "tx \<in> set txs"
    and "scan_extra (re_beyond env) (tx_extra tx) 0 = Some (Some (DOMAIN_REG, body))"
  obtains n where "held n s'"
    "bound_to n env tx"
proof -
  obtain before rest where "txs = before @ tx # rest" using assms(3) by (meson split_list)
  with assms(2) obtain s1 s2 where p: "process_domain_registration env tx h False s1 = Some (DR_success, s2)"
    and rest: "register_block env h rest s2 = Some (True, s')"
    by (auto simp: register_block_append split: option.splits if_splits)
  show thesis
  proof (rule registration_holds [OF assms(4) p])
    fix n
    assume "held n s2" "bound_to n env tx"
    with held_block [OF assms(1) rest] show thesis by (intro that)
  qed
qed

lemma block_refused:
  assumes "env_ok env" "tx \<in> set txs" "held n s"
    and "bound_to n env tx"
  shows "\<exists>s'. register_block env h txs s = Some (False, s')"
  using assms(2,3)
proof (induction txs arbitrary: s)
  case (Cons t txs)
  obtain res s1 where p: "process_domain_registration env t h False s = Some (res, s1)" using process_returns by blast
  moreover have "held n s1" by (rule held_change [OF process_change [OF assms(1) p] Cons.prems(2)])
  moreover have "t = tx \<Longrightarrow> res \<noteq> DR_success" using p assms(4) Cons.prems(2) by (auto simp: bound_to_def)
  ultimately show ?case using Cons by (cases "res = DR_success") auto
qed simp

section \<open>Properties of the registry\<close>

text \<open>
  C9: the registry in memory and the one on disk stay consistent whatever happens. Starting from an empty
  registry, after any sequence of blocks tried, connected and popped and of heartbeats, every name is in
  canonical form and occurs once, its record has a key of 33 bytes, a fee tier, three relay fields of 256 bytes
  ending in zero, its extension is known, and the database holds the same record up to the health and the
  status, and no other.
\<close>
theorem registry_invariant:
  assumes "env_ok env" "vs_domains s\<^sub>0 = []" "vs_db s\<^sub>0 = empty_db" "(registry_step env)\<^sup>*\<^sup>* s\<^sub>0 s"
  shows "registry_ok s"
proof -
  have "registry_ok s\<^sub>0"
    by (simp add: registry_ok_def assms(2,3) find_domain_def empty_db_def table_wf_def)
  with registry_run.run_keeps [OF assms(4)] assms(1) show ?thesis by simp
qed

text \<open>
  C23: restarting the daemon does not change the registry. Loading the records of the database at a height gives
  the same records, health and status included, as checking the running registry for expiry at that height,
  provided that no record is younger than the chain.
\<close>
theorem restart_equivalent:
  assumes "registry_ok s" "distinct names" "set names = dom (db_domains (vs_db s))"
    and "\<And>n rec. find_domain n s = Some rec \<Longrightarrow>
      0 < dr_last_heartbeat_block rec \<and> dr_last_heartbeat_block rec \<le> h \<and> dr_registered_height rec \<le> h"
  shows "find_domain n (load_registry h names s) = find_domain n (check_domain_expiry h s)"
proof -
  let ?s = "s\<lparr>vs_domains := [], vs_extensions := {}\<rparr>"
  have "\<forall>n \<in> set names. canonical_domain n \<and> (\<exists>rec. db_domains (vs_db ?s) n = Some rec \<and> dr_registered_height rec \<le> h)"
  proof
    fix n assume m: "n \<in> set names"
    obtain stored where d: "db_domains (vs_db s) n = Some stored" using m assms(3) by auto
    obtain rec where "find_domain n s = Some rec" "lasting stored = lasting rec" "canonical_domain n"
      by (rule stored_record [OF assms(1) d])
    with d assms(4) lasting_fields [of stored rec]
    show "canonical_domain n \<and> (\<exists>rec. db_domains (vs_db ?s) n = Some rec \<and> dr_registered_height rec \<le> h)" by simp
  qed
  note load = load_fold [OF assms(2) this]
  show ?thesis
  proof (cases "db_domains (vs_db s) n")
    case None
    then have "find_domain n s = None" using registry_okD(3) [OF assms(1), of n] by simp
    moreover have "find_domain n (load_registry h names s) = None"
      using None assms(3) by (simp add: load_registry_def load domIff) (simp add: find_domain_def)
    ultimately show ?thesis by (simp add: find_check)
  next
    case (Some stored)
    then obtain rec where "find_domain n s = Some rec" "lasting stored = lasting rec" by (rule stored_record [OF assms(1)])
    moreover from this assms(4) lasting_fields [of stored rec]
    have "reconcile_record h stored = check_record_expiry h rec"
      using reconcile_eq [of stored h] check_lasting [of stored rec h] by simp
    moreover have "find_domain n (load_registry h names s) = Some (reconcile_record h stored)"
      using Some assms(3) by (simp add: load_registry_def load domIff)
    ultimately show ?thesis by (simp add: find_check)
  qed
qed




section \<open>Witnesses\<close>

definition ex_env :: registry_env where
  "ex_env = \<lparr>re_params = sample_params, re_parse_key = (\<lambda>k. k = ex_owner), re_hash = (\<lambda>bs. take 32 (bs @ replicate 32 NUL)),
     re_verify = (\<lambda>key m sig. key = ex_owner \<and> sig = replicate 64 (CHR 0x06)), re_commit = (\<lambda>_. []), re_out_mask = (\<lambda>_ _. []),
     re_tx_hash = (\<lambda>_. replicate 32 (CHR 0x0A)), re_junk_key = replicate 33 NUL, re_junk_hash = replicate 32 NUL,
     re_junk_policy = initial_result undefined, re_beyond = []\<rparr>"

definition ex_tx :: transaction where
  "ex_tx = \<lparr>tx_version = 2, tx_vin = [], tx_vout = [], tx_extra = ex_registration_extra\<rparr>"

definition ex_transfer_tx :: transaction where
  "ex_transfer_tx = \<lparr>tx_version = 2, tx_vin = [], tx_vout = [], tx_extra = ex_transfer_extra\<rparr>"

definition ex_registration :: registration where
  "ex_registration = \<lparr>rg_name = ''ab..com'', rg_tier = 0, rg_key = ex_owner, rg_fingerprint = replicate 32 (CHR 0x09),
     rg_relays = [''wss://r'', [], []]\<rparr>"

definition ex_unnamed :: vns_state where
  "ex_unnamed = \<lparr>vs_domains = [], vs_extensions = {}, vs_snapshot = [], vs_pending_heartbeats = [], vs_db = empty_db\<rparr>"

definition ex_record :: vns_domain_record where
  "ex_record = new_domain_record ex_env ex_tx 10 ex_registration 100000000000"

definition ex_named :: vns_state where
  "ex_named = persist_domain ''ab..com'' ex_record (ex_unnamed\<lparr>vs_extensions := {''com''}\<rparr>)"

lemma ex_env_ok: "env_ok ex_env"
  by (simp add: env_ok_def ex_env_def)

lemma ex_name: "normalize_vns_domain ''ab..com'' = ''ab..com''" "parse_vns_domain ''ab..com'' = Some (''ab'', ''com'')"
  by (simp_all add: normalize_vns_domain_def trim_def validate_domain_name_format_def
      starts_with_def tolower_def char_defs valid_label_char_def valid_ext_char_def byte_val_def byte_of_eval
      parse_vns_domain_def)

lemma ex_read:
  "\<exists>body. scan_extra (re_beyond ex_env) (tx_extra ex_tx) 0 = Some (Some (DOMAIN_REG, body))
    \<and> read_registration (is_valid_compressed_pubkey ex_env) (re_junk_key ex_env) (re_junk_hash ex_env) body = Inr ex_registration"
proof -
  have "is_valid_compressed_pubkey ex_env ex_owner"
    by (simp add: is_valid_compressed_pubkey_def ex_env_def) (simp add: ex_owner_def byte_val_def)
  then show ?thesis
    using registration_found [of "[]" "''ab..com''" 0 ex_owner "replicate 32 (CHR 0x09)" "[''wss://r'', [], []]"
        "is_valid_compressed_pubkey ex_env" "re_beyond ex_env" "[]" "re_junk_key ex_env" "re_junk_hash ex_env"] ex_extras(1)
    by (simp add: ex_tx_def ex_registration_def ex_registration_extra_def ex_owner_def)
qed

lemma ex_admitted_iff:
  "admitted (ex_env\<lparr>re_junk_key := junk\<rparr>) tx 10 (ex_registration\<lparr>rg_key := key\<rparr>) (''ab..com'', ''ab'', ''com'') ex_unnamed
    \<longleftrightarrow> \<not> is_null_key key"
  using ex_policy
  by (simp add: admitted_def ex_unnamed_def ex_env_def ex_registration_def name_barred_def Let_def)
     (simp add: free_name_def find_domain_def relays_valid_def starts_with_def)

lemma ex_admitted: "admitted ex_env ex_tx 10 ex_registration (''ab..com'', ''ab'', ''com'') ex_unnamed"
  using ex_admitted_iff [of "re_junk_key ex_env" ex_tx ex_owner] by (simp add: ex_registration_def is_null_key_def ex_owner_def)

lemma ex_accepted: "process_domain_registration ex_env ex_tx 10 False ex_unnamed = Some (DR_success, ex_named)"
proof -
  obtain body where b: "scan_extra (re_beyond ex_env) (tx_extra ex_tx) 0 = Some (Some (DOMAIN_REG, body))"
    "read_registration (is_valid_compressed_pubkey ex_env) (re_junk_key ex_env) (re_junk_hash ex_env) body = Inr ex_registration"
    using ex_read by blast
  obtain res s where r: "register_domain ex_env ex_tx 10 False ex_registration ex_unnamed = (res, s)" by fastforce
  have "normalize_vns_domain (rg_name ex_registration) = ''ab..com''" by (simp add: ex_registration_def ex_name)
  from register_decides [OF this _ ex_name(2) r] ex_admitted ex_policy(1,7) r
  have "register_domain ex_env ex_tx 10 False ex_registration ex_unnamed = (DR_success, ex_named)"
    by (simp add: ex_named_def ex_record_def) (simp add: ex_unnamed_def ex_env_def)
  then show ?thesis by (simp add: process_domain_registration_def b)
qed

lemma ex_block: "register_block ex_env 10 [ex_tx] ex_unnamed = Some (True, ex_named)"
  by (simp add: ex_accepted)

lemma ex_named_ok: "registry_ok ex_named"
  by (rule registry_ok_block [OF ex_env_ok ex_block])
     (simp add: registry_ok_def ex_unnamed_def find_domain_def empty_db_def table_wf_def)

lemma ex_named_find: "find_domain n ex_named = (if n = ''ab..com'' then Some ex_record else None)"
  by (simp add: ex_named_def) (simp add: ex_unnamed_def find_domain_def)

theorem registry_invariant_witness: "(registry_step ex_env)\<^sup>*\<^sup>* ex_unnamed ex_named \<and> registry_ok ex_named"
proof -
  have "(registry_step ex_env)\<^sup>*\<^sup>* ex_unnamed ex_named"
    by (rule r_into_rtranclp, rule try_block, rule ex_block)
  moreover from registry_invariant [OF ex_env_ok _ _ this] have "registry_ok ex_named" by (simp add: ex_unnamed_def)
  ultimately show ?thesis by simp
qed

theorem restart_equivalent_witness:
  "find_domain ''ab..com'' (load_registry 6000 [''ab..com''] ex_named) = find_domain ''ab..com'' (check_domain_expiry 6000 ex_named)"
proof (rule restart_equivalent [OF ex_named_ok])
  show "set [''ab..com''] = dom (db_domains (vs_db ex_named))"
    by (auto simp: ex_named_def ex_unnamed_def persist_domain_def add_vns_domain_record_def empty_db_def split: if_splits)
qed (auto simp: ex_named_find ex_record_def new_domain_record_def split: if_splits)


lemma ex_transfer:
  "process_domain_registration ex_env ex_transfer_tx 20 False ex_named =
    Some (DR_success, persist_domain ''ab..com'' (ex_record\<lparr>dr_registrant_key := byte_of 2 # replicate 32 (CHR 0x05)\<rparr>) ex_named)"
proof -
  obtain body where b: "scan_extra (re_beyond ex_env) (tx_extra ex_transfer_tx) 0 = Some (Some (DOMAIN_XFER, body))"
    "read_transfer body = Inr \<lparr>xf_name = ''ab..com'', xf_key = Some (replicate 32 (CHR 0x05)), xf_signature = Some (replicate 64 (CHR 0x06))\<rparr>"
    using transfer_found [of "[]" "''ab..com''" "replicate 32 (CHR 0x05)" "replicate 64 (CHR 0x06)" "re_beyond ex_env" "[]"] ex_extras(2)
    by (auto simp: ex_transfer_tx_def ex_transfer_extra_def)
  have "chain_validate_domain_name_format ''ab..com''" 
    by (simp add: chain_validate_domain_name_format_def starts_with_def valid_label_char_def valid_ext_char_def byte_val_def byte_of_eval char_defs)
  then show ?thesis
    by (simp add: process_domain_registration_def b transfer_domain_def ex_name ex_named_find)
       (simp add: ex_record_def new_domain_record_def ex_registration_def ex_env_def)
qed



section \<open>A registration without a key\<close>

definition ex_keyless_body :: bytes where
  "ex_keyless_body = append_tlv 1 ''ab..com'' @ append_tlv 2 [NUL] @ append_tlv 4 (replicate 32 (CHR 0x09)) @ append_tlv 6 ''wss://r'' @ [NUL]"

definition ex_keyless_tx :: transaction where
  "ex_keyless_tx = \<lparr>tx_version = 2, tx_vin = [], tx_vout = [], tx_extra = wrap_nonce (object_magic DOMAIN_REG @ ex_keyless_body)\<rparr>"


end
