(* ===== verification/Heartbeat_Rollback.thy ===== *)
theory Heartbeat_Rollback
  imports Domain_Registry "HOL-Library.Multiset"
begin

text \<open>
  What popping a block does to the heartbeats that were applied at its height
  (\<^verbatim>\<open>src/src/cryptonote_core/blockchain.cpp\<close>, \<^verbatim>\<open>pop_block_from_blockchain\<close> and
  \<^verbatim>\<open>update_domain_heartbeat\<close>): every event holds the values that were there before it, and undoing the events
  of the height in falling order of their numbers ends with the first one.
\<close>

section \<open>Undoing heartbeats\<close>

definition event_name :: "vns_domain_heartbeat_event_record \<Rightarrow> string" where
  "event_name e = c_str (take 64 (hb_domain e))"

definition restore :: "vns_domain_heartbeat_event_record \<Rightarrow> vns_domain_record \<Rightarrow> vns_domain_record" where
  "restore e rec = rec\<lparr>dr_heartbeat_count := hb_previous_heartbeat_count e,
     dr_last_heartbeat_block := hb_previous_last_heartbeat_block e, dr_health_score := hb_previous_health_score e,
     dr_status := hb_previous_status e\<rparr>"

definition restored_proof :: "vns_domain_heartbeat_event_record \<Rightarrow> hash32 option" where
  "restored_proof e = (if hb_had_previous_proof e then Some (hb_previous_proof e) else None)"

lemma restore_restore [simp]: "restore e (restore e' rec) = restore e rec" "restore e (heartbeat_record hh cnt rec) = restore e rec"
  by (simp_all add: restore_def heartbeat_record_def)

text \<open>The last event of a name in a list decides what is restored.\<close>

definition last_of :: "string \<Rightarrow> vns_domain_heartbeat_event_record list \<Rightarrow> vns_domain_heartbeat_event_record option" where
  "last_of n es = (let fs = filter (\<lambda>e. event_name e = n) es in if fs = [] then None else Some (last fs))"

lemma last_of_snoc: "last_of n (es @ [e]) = (if event_name e = n then Some e else last_of n es)"
  by (simp add: last_of_def Let_def)

abbreviation proof_of :: "string \<Rightarrow> vns_state \<Rightarrow> hash32 option" where
  "proof_of n s \<equiv> db_heartbeat_proofs (vs_db s) n"

lemma rollback_fold:
  assumes "registry_ok s"
  shows "find_domain n (fold rollback_heartbeat es s) =
      (case last_of n es of None \<Rightarrow> find_domain n s | Some e \<Rightarrow> map_option (restore e) (find_domain n s))"
    and "proof_of n (fold rollback_heartbeat es s) =
      (case last_of n es of None \<Rightarrow> proof_of n s | Some e \<Rightarrow> if find_domain n s = None then proof_of n s else restored_proof e)"
    and "map fst (vs_domains (fold rollback_heartbeat es s)) = map fst (vs_domains s)"
    and "db_heartbeat_events (vs_db (fold rollback_heartbeat es s)) = db_heartbeat_events (vs_db s)"
proof (induction es rule: rev_induct)
  case Nil
  { case 1 show ?case by (simp add: last_of_def) }
  { case 2 show ?case by (simp add: last_of_def) }
  { case 3 show ?case by simp }
  { case 4 show ?case by simp }
next
  case (snoc e es)
  let ?t = "fold rollback_heartbeat es s" and ?m = "c_str (take 64 (hb_domain e))"
  have ok: "registry_ok ?t" by (intro registry_ok_fold registry_ok_rollback assms)
  have t: "find_domain n (rollback_heartbeat e ?t) = (if event_name e = n then map_option (restore e) (find_domain n ?t) else find_domain n ?t)
    \<and> proof_of n (rollback_heartbeat e ?t) =
      (if event_name e = n \<and> find_domain n ?t \<noteq> None then restored_proof e else proof_of n ?t)
    \<and> map fst (vs_domains (rollback_heartbeat e ?t)) = map fst (vs_domains ?t)
    \<and> db_heartbeat_events (vs_db (rollback_heartbeat e ?t)) = db_heartbeat_events (vs_db ?t)"
    using ok refl
  proof (cases rule: rollback_cases [of ?t ?m e])
    case none
    then show ?thesis by (auto simp: event_name_def)
  next
    case (some rec)
    then have "?m \<in> set (map fst (vs_domains ?t))" by (auto simp: find_domain_def map_of_eq_Some_iff dest: map_of_SomeD intro: rev_image_eqI)
    moreover have "c_str ?m = ?m" by simp
    ultimately show ?thesis
      using some by (auto simp: event_name_def restore_def restored_proof_def set_vns_heartbeat_proof_def remove_vns_heartbeat_proof_def)
  qed
  { case 1 show ?case using t snoc(1) by (auto simp: last_of_snoc option.map_comp comp_def split: option.split) }
  { case 2 show ?case using t snoc(1,2) by (auto simp: last_of_snoc split: option.split) }
  { case 3 show ?case using t snoc(3) by simp }
  { case 4 show ?case using t snoc(4) by simp }
qed

text \<open>
  In falling order of the sequence numbers, the last event of a name is the one with the least number, if it is
  the only one with that number.
\<close>

lemma last_of_sorted:
  assumes "sorted_wrt (\<lambda>a b. hb_event_sequence b \<le> hb_event_sequence a) es" "e \<in> set es" "event_name e = n"
    and "\<forall>e' \<in> set es. event_name e' = n \<longrightarrow> e' = e \<or> hb_event_sequence e < hb_event_sequence e'"
  shows "last_of n es = Some e"
proof -
  let ?fs = "filter (\<lambda>e. event_name e = n) es"
  have e: "e \<in> set ?fs" using assms(2,3) by simp
  then have "?fs \<noteq> []" by (metis list.set(1) empty_iff)
  then obtain gs l where g: "?fs = gs @ [l]" by (metis append_butlast_last_id)
  have "sorted_wrt (\<lambda>a b. hb_event_sequence b \<le> hb_event_sequence a) (gs @ [l])"
    using sorted_wrt_filter [OF assms(1), of "\<lambda>e. event_name e = n"] by (simp only: g)
  moreover have "e \<in> set (gs @ [l])" using e by (simp only: g)
  ultimately have "l = e \<or> hb_event_sequence l \<le> hb_event_sequence e" by (auto simp: sorted_wrt_append)
  moreover have "l \<in> set ?fs" by (simp only: g) simp
  then have "l = e \<or> hb_event_sequence e < hb_event_sequence l" using assms(4) by simp
  ultimately have "l = e" by auto
  then show ?thesis by (simp add: last_of_def Let_def g)
qed

text \<open>The lists agree when keys and contents do.\<close>

lemma alist_eq:
  assumes "distinct (map fst xs)" "map fst ys = map fst xs" "\<And>k. map_of ys k = map_of xs k"
  shows "ys = xs"
proof -
  have "zs = map (\<lambda>k. (k, the (map_of zs k))) (map fst zs)" if "distinct (map fst zs)" for zs :: "('a \<times> 'b) list"
  proof (rule nth_equalityI)
    fix i assume i: "i < length zs"
    then have "map_of zs (fst (zs ! i)) = Some (snd (zs ! i))" by (intro map_of_is_SomeI [OF that]) simp
    with i show "zs ! i = map (\<lambda>k. (k, the (map_of zs k))) (map fst zs) ! i" by (simp add: prod_eq_iff)
  qed simp
  note list = this
  have "ys = map (\<lambda>k. (k, the (map_of ys k))) (map fst ys)" by (rule list) (simp add: assms)
  also have "\<dots> = map (\<lambda>k. (k, the (map_of xs k))) (map fst xs)" by (simp only: assms)
  also have "\<dots> = xs" by (rule list [symmetric]) (rule assms)
  finally show ?thesis .
qed

text \<open>
  What the heartbeats applied so far have left behind for a name: nothing, or a first event that holds what the
  record and the proof were before, with a sequence number that is smaller than all others.
\<close>

definition events_of :: "u64 \<Rightarrow> string \<Rightarrow> vns_state \<Rightarrow> vns_domain_heartbeat_event_record set" where
  "events_of h n t = {e \<in> set (db_heartbeat_events (vs_db t)). hb_observed_height e = h \<and> event_name e = n}"

definition first_event ::
  "vns_state \<Rightarrow> u64 \<Rightarrow> nat \<Rightarrow> vns_state \<Rightarrow> string \<Rightarrow> vns_domain_record \<Rightarrow> vns_domain_record \<Rightarrow>
   vns_domain_heartbeat_event_record \<Rightarrow> bool" where
  "first_event s h b t n r r' e \<longleftrightarrow>
     find_domain n s = Some r \<and> find_domain n t = Some r' \<and> e \<in> events_of h n t \<and> restore e r' = r
     \<and> restored_proof e = proof_of n s \<and> unat (hb_event_sequence e) = Suc (unat (dr_heartbeat_count r))
     \<and> (\<forall>e' \<in> events_of h n t. e' = e \<or> hb_event_sequence e < hb_event_sequence e')
     \<and> dr_heartbeat_count r < dr_heartbeat_count r' \<and> unat (dr_heartbeat_count r') \<le> b"

definition undoable_name :: "vns_state \<Rightarrow> u64 \<Rightarrow> nat \<Rightarrow> vns_state \<Rightarrow> string \<Rightarrow> bool" where
  "undoable_name s h b t n \<longleftrightarrow>
     (if events_of h n t = {} then find_domain n t = find_domain n s \<and> proof_of n t = proof_of n s
      else \<exists>r r' e. first_event s h b t n r r' e)"

definition undoable :: "vns_state \<Rightarrow> u64 \<Rightarrow> nat \<Rightarrow> vns_state \<Rightarrow> bool" where
  "undoable s h b t \<longleftrightarrow> registry_ok t \<and> map fst (vs_domains t) = map fst (vs_domains s)
     \<and> filter (\<lambda>e. hb_observed_height e \<noteq> h) (db_heartbeat_events (vs_db t)) = db_heartbeat_events (vs_db s)
     \<and> (\<forall>n. undoable_name s h b t n)"

lemma undoable_name_mono: "undoable_name s h b t n \<Longrightarrow> b \<le> b' \<Longrightarrow> undoable_name s h b' t n"
proof -
  assume u: "undoable_name s h b t n" and b: "b \<le> b'"
  have "first_event s h b t n r r' e \<Longrightarrow> first_event s h b' t n r r' e" for r r' e
    using b by (simp add: first_event_def)
  with u show ?thesis unfolding undoable_name_def by (metis (full_types))
qed

lemma undoable_name_cong:
  assumes "events_of h n t' = events_of h n t" "find_domain n t' = find_domain n t" "proof_of n t' = proof_of n t"
  shows "undoable_name s h b t' n = undoable_name s h b t n"
proof -
  have "first_event s h b t' n = first_event s h b t n" by (intro ext) (simp add: first_event_def assms)
  then show ?thesis by (simp add: undoable_name_def assms)
qed

lemma event_name_canonical: "canonical_domain n \<Longrightarrow> event_name (heartbeat_undo_event junk h n p lp rec rec') = n"
  using canonical_domain_length [of n] canonical_c_str [of n]
  by (simp add: event_name_def heartbeat_undo_event_def c_str_char_array)

lemma filter_insort_drop: "\<not> P x \<Longrightarrow> filter P (insort_key f x xs) = filter P xs"
  by (induction xs) auto

lemma restore_event: "restore (heartbeat_undo_event junk h n p lp rec rec') rec = rec"
  by (simp add: restore_def heartbeat_undo_event_def)

lemma restored_proof_event: "restored_proof (heartbeat_undo_event junk h n p lp rec rec') = lp"
  by (auto simp: restored_proof_def heartbeat_undo_event_def split: option.split)

text \<open>The count grows with every heartbeat, as long as it does not wrap around and no event takes it back.\<close>

lemma heartbeat_count_grows:
  assumes "unat (dr_heartbeat_count rec) \<le> b" "b + 1 < 2 ^ 64" "dr_heartbeat_count r \<le> dr_heartbeat_count rec"
    and "cnt = 0 \<or> dr_heartbeat_count r < cnt \<and> unat cnt \<le> b"
  shows "dr_heartbeat_count r < dr_heartbeat_count (heartbeat_record hh cnt rec)"
    "unat (dr_heartbeat_count (heartbeat_record hh cnt rec)) \<le> b + 1"
    "unat (dr_heartbeat_count rec + 1) = Suc (unat (dr_heartbeat_count rec))"
proof -
  show s: "unat (dr_heartbeat_count rec + 1) = Suc (unat (dr_heartbeat_count rec))"
    using assms(1,2) by (simp add: unat_word_ariths)
  show "dr_heartbeat_count r < dr_heartbeat_count (heartbeat_record hh cnt rec)"
    "unat (dr_heartbeat_count (heartbeat_record hh cnt rec)) \<le> b + 1"
    using assms s by (auto simp: heartbeat_record_def word_less_nat_alt word_le_nat_alt)
qed

text \<open>One heartbeat.\<close>

lemma undoable_beat_name:
  assumes u: "undoable_name s h b t n" and rec: "find_domain n t = Some rec" and c: "canonical_domain n"
    and b: "b + 1 < 2 ^ 64" "\<forall>r. find_domain n s = Some r \<longrightarrow> unat (dr_heartbeat_count r) \<le> b"
    and cnt: "\<forall>r. find_domain n s = Some r \<longrightarrow> cnt = 0 \<or> dr_heartbeat_count r < cnt \<and> unat cnt \<le> b"
    and e: "e = heartbeat_undo_event junk h n p (proof_of n t) rec (heartbeat_record hh cnt rec)"
    and t': "find_domain n t' = Some (heartbeat_record hh cnt rec)" "events_of h n t' = insert e (events_of h n t)"
  shows "undoable_name s h (b + 1) t' n"
proof (cases "events_of h n t = {}")
  case True
  with u rec have r: "find_domain n s = Some rec" "proof_of n t = proof_of n s" by (simp_all add: undoable_name_def)
  with b cnt have "unat (dr_heartbeat_count rec) \<le> b" "cnt = 0 \<or> dr_heartbeat_count rec < cnt \<and> unat cnt \<le> b" by auto
  note grows = heartbeat_count_grows(1,2) [OF this(1) b(1) order_refl this(2), of hh]
    heartbeat_count_grows(3) [OF this(1) b(1) order_refl this(2)]
  have "first_event s h (b + 1) t' n rec (heartbeat_record hh cnt rec) e"
    using r t' True grows
    by (simp add: first_event_def e restore_event restored_proof_event) (simp add: heartbeat_undo_event_def)
  then show ?thesis by (auto simp: undoable_name_def t')
next
  case False
  with u obtain r r' e\<^sub>0 where f: "first_event s h b t n r r' e\<^sub>0" by (auto simp: undoable_name_def)
  then have r': "r' = rec" and r: "find_domain n s = Some r" using rec by (simp_all add: first_event_def)
  have less: "dr_heartbeat_count r < dr_heartbeat_count rec" "unat (dr_heartbeat_count rec) \<le> b"
    using f by (simp_all add: first_event_def r')
  note grows = heartbeat_count_grows(1,2) [OF less(2) b(1) less_imp_le [OF less(1)] cnt [rule_format, OF r], of hh]
    heartbeat_count_grows(3) [OF less(2) b(1) less_imp_le [OF less(1)] cnt [rule_format, OF r]]
  have "hb_event_sequence e\<^sub>0 < hb_event_sequence e"
    using f less(1) grows(3) by (simp add: first_event_def e heartbeat_undo_event_def word_less_nat_alt)
  then have "first_event s h (b + 1) t' n r (heartbeat_record hh cnt rec) e\<^sub>0"
    using f t' grows by (simp add: first_event_def r')
  then show ?thesis by (auto simp: undoable_name_def t')
qed

lemma find_in_keys: "find_domain n t = Some rec \<Longrightarrow> n \<in> set (map fst (vs_domains t))"
  by (auto simp: find_domain_def dest!: map_of_SomeD intro: rev_image_eqI)

lemma undoable_heartbeat:
  assumes u: "undoable s h b t" and up: "update_domain_heartbeat txn junk h name hh p cnt t = True_in t'"
    and b: "b + 1 < 2 ^ 64" "\<forall>n r. find_domain n s = Some r \<longrightarrow> unat (dr_heartbeat_count r) \<le> b"
    and cnt: "\<forall>r. find_domain (normalize_vns_domain name) s = Some r \<longrightarrow> cnt = 0 \<or> dr_heartbeat_count r < cnt \<and> unat cnt \<le> b"
  shows "undoable s h (b + 1) t'"
proof -
  have ok: "registry_ok t" using u by (simp add: undoable_def)
  have ok': "registry_ok t'" by (rule registry_ok_heartbeat [OF up ok])
  from up show ?thesis
  proof (cases rule: heartbeat_cases)
    case (same n rec)
    have "undoable_name s h (b + 1) t' m" for m
    proof -
      have "undoable_name s h (b + 1) t m" using u by (auto simp: undoable_def intro: undoable_name_mono)
      moreover have "undoable_name s h (b + 1) t' m = undoable_name s h (b + 1) t m"
        by (rule undoable_name_cong) (use same in \<open>simp_all add: events_of_def\<close>)
      ultimately show ?thesis by simp
    qed
    with u ok' find_in_keys [OF same(2)] same(3) show ?thesis by (simp add: undoable_def)
  next
    case (beat n rec db)
    have c: "canonical_domain n" using registry_okD(2) [OF ok beat(2)] by (simp add: entry_ok_def)
    have pr: "get_vns_heartbeat_proof n (vs_db t) = proof_of n t" by (simp add: get_vns_heartbeat_proof_def canonical_c_str [OF c])
    define e where "e = heartbeat_undo_event junk h n p (proof_of n t) rec (heartbeat_record hh cnt rec)"
    have e: "hb_observed_height e = h" "event_name e = n" by (simp_all add: e_def event_name_canonical c) (simp add: heartbeat_undo_event_def)
    from beat(5) have db: "db_heartbeat_events db = insort_key event_place e (db_heartbeat_events (vs_db t))"
      "db_heartbeat_proofs db = (db_heartbeat_proofs (vs_db t))(n \<mapsto> p)"
      by (auto simp: add_vns_domain_heartbeat_event_def cursor_put_new_def set_vns_heartbeat_proof_def pr e_def [symmetric] canonical_c_str [OF c] split: if_splits)
    have ev: "events_of h m t' = (if m = n then insert e (events_of h m t) else events_of h m t)" for m
      using e by (auto simp: events_of_def beat(6) db set_insort_key)
    have "undoable_name s h (b + 1) t' m" for m
    proof (cases "m = n")
      case True
      have "undoable_name s h b t n" using u by (simp add: undoable_def)
      then show ?thesis
        using undoable_beat_name [OF _ beat(2) c b(1) _ _ e_def, of s t'] b(2) cnt ev [of n] by (simp add: True beat(1,6))
    next
      case False
      have "undoable_name s h (b + 1) t m" using u by (auto simp: undoable_def intro: undoable_name_mono)
      moreover have "undoable_name s h (b + 1) t' m = undoable_name s h (b + 1) t m"
        by (rule undoable_name_cong) (use ev [of m] False in \<open>simp_all add: beat(6) db\<close>)
      ultimately show ?thesis by simp
    qed
    with u ok' find_in_keys [OF beat(2)] show ?thesis
      by (simp add: undoable_def beat(6) db filter_insort_drop e)
  qed
qed

lemma undoable_heartbeats:
  assumes "undoable s h b t" "apply_heartbeats txn junk h hbs t = True_in t'" "b + length hbs < 2 ^ 64"
    and "\<forall>n r. find_domain n s = Some r \<longrightarrow> unat (dr_heartbeat_count r) \<le> b"
    and "\<forall>hb \<in> set hbs. \<forall>r. find_domain (normalize_vns_domain (he_domain hb)) s = Some r \<longrightarrow>
           he_heartbeat_count hb = 0 \<or> dr_heartbeat_count r < he_heartbeat_count hb \<and> unat (he_heartbeat_count hb) \<le> b"
  shows "\<exists>b'. undoable s h b' t'"
  using assms
proof (induction hbs arbitrary: b t)
  case Nil
  then show ?case by auto
next
  case (Cons hb hbs)
  let ?u = "update_domain_heartbeat txn junk h (he_domain hb) (capped_height h hb) (he_event_id hb) (he_heartbeat_count hb) t"
  show ?case
  proof (cases ?u)
    case (Threw_in t1)
    with Cons.prems show ?thesis by simp
  next
    case (False_in t1)
    then have "t1 = t" by (rule heartbeat_false)
    with Cons.prems False_in show ?thesis by (intro Cons.IH [of b t]) simp_all
  next
    case (True_in t1)
    have "undoable s h (b + 1) t1"
      by (rule undoable_heartbeat [OF Cons.prems(1) True_in]) (use Cons.prems(3-5) in simp_all)
    moreover have "apply_heartbeats txn junk h hbs t1 = True_in t'" using Cons.prems(2) True_in by simp
    moreover have "\<forall>n r. find_domain n s = Some r \<longrightarrow> unat (dr_heartbeat_count r) \<le> b + 1"
      using Cons.prems(4) by (simp add: le_SucI)
    moreover have "\<forall>hb \<in> set hbs. \<forall>r. find_domain (normalize_vns_domain (he_domain hb)) s = Some r \<longrightarrow>
        he_heartbeat_count hb = 0 \<or> dr_heartbeat_count r < he_heartbeat_count hb \<and> unat (he_heartbeat_count hb) \<le> b + 1"
      using Cons.prems(5) by (meson le_add1 list.set_intros(2) order_trans)
    ultimately show ?thesis using Cons.prems(3) by (intro Cons.IH [of "b + 1" t1]) simp_all
  qed
qed

lemma undoable_start:
  assumes "registry_ok s" "\<forall>e \<in> set (db_heartbeat_events (vs_db s)). hb_observed_height e \<noteq> h"
  shows "undoable s h b s"
proof -
  have "events_of h n s = {}" for n using assms(2) by (auto simp: events_of_def)
  then show ?thesis using assms by (simp add: undoable_def undoable_name_def)
qed

text \<open>Taking the events of the height back.\<close>

lemma undoable_last_of:
  assumes u: "undoable_name s h b t n"
    and es: "set es = {e \<in> set (db_heartbeat_events (vs_db t)). hb_observed_height e = h}"
      "sorted_wrt (\<lambda>a b. hb_event_sequence b \<le> hb_event_sequence a) es"
  shows "(case last_of n es of None \<Rightarrow> find_domain n t | Some e \<Rightarrow> map_option (restore e) (find_domain n t)) = find_domain n s"
    and "(case last_of n es of None \<Rightarrow> proof_of n t
      | Some e \<Rightarrow> if find_domain n t = None then proof_of n t else restored_proof e) = proof_of n s"
proof -
  have ev: "events_of h n t = {e \<in> set es. event_name e = n}" using es(1) by (auto simp: events_of_def)
  have "last_of n es = None \<and> find_domain n t = find_domain n s \<and> proof_of n t = proof_of n s
    \<or> (\<exists>e r r'. last_of n es = Some e \<and> first_event s h b t n r r' e)"
  proof (cases "events_of h n t = {}")
    case True
    then have "filter (\<lambda>e. event_name e = n) es = []" by (auto simp: ev filter_empty_conv)
    with True u show ?thesis by (simp add: last_of_def undoable_name_def)
  next
    case False
    with u obtain r r' e where f: "first_event s h b t n r r' e" by (auto simp: undoable_name_def)
    then have "last_of n es = Some e" by (intro last_of_sorted [OF es(2)]) (auto simp: first_event_def ev)
    with f show ?thesis by blast
  qed
  then show "(case last_of n es of None \<Rightarrow> find_domain n t | Some e \<Rightarrow> map_option (restore e) (find_domain n t)) = find_domain n s"
    "(case last_of n es of None \<Rightarrow> proof_of n t
      | Some e \<Rightarrow> if find_domain n t = None then proof_of n t else restored_proof e) = proof_of n s"
    by (auto simp: first_event_def)
qed

lemma undoable_rollback:
  assumes u: "undoable s h b t" and ok: "registry_ok s"
    and sort: "\<forall>es. mset (hb_sort es) = mset es \<and> sorted_wrt (\<lambda>a b. hb_event_sequence b \<le> hb_event_sequence a) (hb_sort es)"
  shows "vs_domains (rollback_heartbeats hb_sort h t) = vs_domains s"
    and "db_heartbeat_proofs (vs_db (rollback_heartbeats hb_sort h t)) = db_heartbeat_proofs (vs_db s)"
    and "db_heartbeat_events (vs_db (rollback_heartbeats hb_sort h t)) = db_heartbeat_events (vs_db s)"
proof -
  define es where "es = hb_sort (get_vns_domain_heartbeat_events_by_height h (vs_db t))"
  let ?t = "fold rollback_heartbeat es t"
  have r: "rollback_heartbeats hb_sort h t = ?t\<lparr>vs_db := remove_vns_domain_heartbeat_events_by_height h (vs_db ?t)\<rparr>"
    by (simp add: rollback_heartbeats_def Let_def es_def)
  have "set es = set (get_vns_domain_heartbeat_events_by_height h (vs_db t))"
    unfolding es_def by (rule mset_eq_setD) (simp add: sort)
  then have set: "set es = {e \<in> set (db_heartbeat_events (vs_db t)). hb_observed_height e = h}"
    by (simp add: get_vns_domain_heartbeat_events_by_height_def cursor_dups_def)
  have srt: "sorted_wrt (\<lambda>a b. hb_event_sequence b \<le> hb_event_sequence a) es" by (simp add: es_def sort)
  have okt: "registry_ok t" and nm: "undoable_name s h b t n" for n using u by (simp_all add: undoable_def)
  note undone = rollback_fold [OF okt, where es = es] and last = undoable_last_of [OF nm set srt]
  have "find_domain n ?t = find_domain n s" for n by (simp only: undone(1) last(1))
  then have d: "vs_domains ?t = vs_domains s"
    by (intro alist_eq) (use registry_okD(1) [OF ok] u in \<open>simp_all add: undone(3) undoable_def find_domain_def\<close>)
  have p: "db_heartbeat_proofs (vs_db ?t) = db_heartbeat_proofs (vs_db s)" by (rule ext) (simp only: undone(2) last(2))
  show "vs_domains (rollback_heartbeats hb_sort h t) = vs_domains s"
    "db_heartbeat_proofs (vs_db (rollback_heartbeats hb_sort h t)) = db_heartbeat_proofs (vs_db s)"
    "db_heartbeat_events (vs_db (rollback_heartbeats hb_sort h t)) = db_heartbeat_events (vs_db s)"
    using d p u undone(4) by (simp_all add: r remove_vns_domain_heartbeat_events_by_height_def cursor_del_dups_def undoable_def)
qed

text \<open>
  C10: Popping a block takes back exactly what the heartbeats of that block did. Let a registry that satisfies its
  invariant have no event of the height, let the waiting heartbeats be applied at that height, and let every one of
  them carry no count of its own or one above the count of its domain, with no count close to wrapping around. Then
  rolling the events of the height back, in falling order of their numbers, gives the records in memory, the proofs
  and the table of events that were there before, whatever order the sort gives to equal numbers.
\<close>

theorem heartbeat_undo:
  assumes "registry_ok s" "\<forall>e \<in> set (db_heartbeat_events (vs_db s)). hb_observed_height e \<noteq> h"
    and "\<forall>es. mset (hb_sort es) = mset es \<and> sorted_wrt (\<lambda>a b. hb_event_sequence b \<le> hb_event_sequence a) (hb_sort es)"
    and "\<forall>n r. find_domain n s = Some r \<longrightarrow> unat (dr_heartbeat_count r) \<le> m"
    and "\<forall>hb \<in> set (vs_pending_heartbeats s). \<forall>r. find_domain (normalize_vns_domain (he_domain hb)) s = Some r \<longrightarrow>
           he_heartbeat_count hb = 0 \<or> dr_heartbeat_count r < he_heartbeat_count hb \<and> unat (he_heartbeat_count hb) \<le> m"
    and "m + length (vs_pending_heartbeats s) < 2 ^ 64"
    and "process_pending_heartbeats txn junk h s = True_in t"
  shows "vs_domains (rollback_heartbeats hb_sort h t) = vs_domains s
    \<and> db_heartbeat_proofs (vs_db (rollback_heartbeats hb_sort h t)) = db_heartbeat_proofs (vs_db s)
    \<and> db_heartbeat_events (vs_db (rollback_heartbeats hb_sort h t)) = db_heartbeat_events (vs_db s)"
proof -
  let ?s = "s\<lparr>vs_pending_heartbeats := []\<rparr>"
  have f: "find_domain n ?s = find_domain n s" for n by (simp add: find_domain_def)
  then have ok: "registry_ok ?s" using assms(1) by (simp add: registry_ok_def)
  have "undoable ?s h m ?s" by (rule undoable_start [OF ok]) (use assms(2) in simp)
  then have "\<exists>b. undoable ?s h b t"
    by (rule undoable_heartbeats [where hbs = "vs_pending_heartbeats s"])
       (use assms(4-7) in \<open>simp_all only: f process_pending_heartbeats_def simp_thms\<close>)
  then obtain b where "undoable ?s h b t" ..
  from undoable_rollback [OF this ok assms(3)] show ?thesis by simp
qed

section \<open>Witness\<close>

definition ex_heartbeat :: heartbeat_event where
  "ex_heartbeat = \<lparr>he_domain = ''ab..com'', he_proof = replicate 32 NUL, he_fingerprint = replicate 32 NUL,
     he_block_hash = replicate 32 NUL, he_leaf_index = 0, he_sibling_hashes = [], he_created_at = 0,
     he_heartbeat_height = 0, he_heartbeat_count = 0, he_event_id = replicate 32 (CHR 0x0B)\<rparr>"

definition ex_beating :: vns_state where
  "ex_beating = queue_validated_heartbeat ex_heartbeat ex_named"

lemma ex_beating_simps:
  "find_domain n ex_beating = (if n = ''ab..com'' then Some ex_record else None)"
  "db_heartbeat_events (vs_db ex_beating) = []" "db_heartbeat_proofs (vs_db ex_beating) = Map.empty"
  "vs_pending_heartbeats ex_beating = [ex_heartbeat]"
  using ex_named_find [of n]
  by (simp_all add: ex_beating_def queue_validated_heartbeat_def find_domain_def)
     (simp_all add: ex_named_def persist_domain_def ex_unnamed_def add_vns_domain_record_def empty_db_def)

lemma ex_beat:
  "\<exists>t. process_pending_heartbeats No_txn [] 11 ex_beating = True_in t
    \<and> find_domain ''ab..com'' t = Some (heartbeat_record 11 0 ex_record)"
proof -
  have "find_domain ''ab..com'' (ex_beating\<lparr>vs_pending_heartbeats := []\<rparr>) = Some ex_record"
    using ex_beating_simps(1) [of "''ab..com''"] by (simp add: find_domain_def)
  then show ?thesis
    by (simp add: ex_beating_simps(2-) ex_heartbeat_def process_pending_heartbeats_def update_domain_heartbeat_def ex_name capped_height_def Let_def
        get_vns_heartbeat_proof_def add_vns_domain_heartbeat_event_def set_vns_heartbeat_proof_def cursor_put_new_def)
qed

theorem heartbeat_undo_witness:
  "\<exists>t. process_pending_heartbeats No_txn [] 11 ex_beating = True_in t \<and> vs_domains t \<noteq> vs_domains ex_beating
    \<and> vs_domains (rollback_heartbeats (\<lambda>es. rev (sort_key hb_event_sequence es)) 11 t) = vs_domains ex_beating"
proof -
  obtain t where t: "process_pending_heartbeats No_txn [] 11 ex_beating = True_in t"
    "find_domain ''ab..com'' t = Some (heartbeat_record 11 0 ex_record)" using ex_beat by blast
  have c: "dr_heartbeat_count ex_record = 0" by (simp add: ex_record_def new_domain_record_def)
  have "vs_domains (rollback_heartbeats (\<lambda>es. rev (sort_key hb_event_sequence es)) 11 t) = vs_domains ex_beating"
  proof (rule heartbeat_undo [where m = 0, OF _ _ _ _ _ _ t(1), THEN conjunct1])
    show "registry_ok ex_beating" using ex_named_ok by (simp add: ex_beating_def)
    show "\<forall>e \<in> set (db_heartbeat_events (vs_db ex_beating)). hb_observed_height e \<noteq> 11" by (simp add: ex_beating_simps)
    show "\<forall>es. mset (rev (sort_key hb_event_sequence es)) = mset es
        \<and> sorted_wrt (\<lambda>a b. hb_event_sequence b \<le> hb_event_sequence a) (rev (sort_key hb_event_sequence es))"
      using sorted_sort_key by (auto simp: sorted_wrt_rev sorted_map)
  qed (simp_all add: ex_beating_simps ex_heartbeat_def c)
  moreover have "vs_domains t \<noteq> vs_domains ex_beating"
  proof
    assume "vs_domains t = vs_domains ex_beating"
    then have "heartbeat_record 11 0 ex_record = ex_record" using t(2) ex_beating_simps(1) [of "''ab..com''"] by (simp add: find_domain_def)
    then have "dr_heartbeat_count (heartbeat_record 11 0 ex_record) = dr_heartbeat_count ex_record" by simp
    with c show False by (simp add: heartbeat_record_def)
  qed
  ultimately show ?thesis using t(1) by blast
qed

end
