(* ===== verification/Service_Descriptors.thy ===== *)
theory Service_Descriptors
  imports Domain_Names Policy_Tables "HOL-Library.Product_Lexorder"
begin

text \<open>
  The cache of service descriptors in \<^verbatim>\<open>src/src/cryptonote_core/blockchain.cpp\<close>
  (\<^verbatim>\<open>get_cached_service_descriptor\<close>, \<^verbatim>\<open>cache_service_descriptor\<close>): for every name the newest descriptor of
  its registration. What arrives has been authenticated by the caller.
\<close>

record service_descriptor_event =
  sd_content :: string
  sd_fingerprint_hex :: string
  sd_block_hash :: hash32
  sd_leaf_index :: u64
  sd_sibling_hashes :: "hash32 list"
  sd_created_at :: u64
  sd_version :: u64
  sd_event_id :: hash32
  sd_pubkey_hex :: string

record cached_service_descriptor =
  cd_event :: service_descriptor_event
  cd_registration_tx_hash :: hash32

type_synonym descriptor_cache = "string \<rightharpoonup> cached_service_descriptor"

definition get_cached_service_descriptor ::
  "string \<Rightarrow> hash32 \<Rightarrow> descriptor_cache \<Rightarrow> service_descriptor_event option" where
  "get_cached_service_descriptor domain_name registration_tx_hash cache =
     (let normalized = normalize_vns_domain domain_name in
      if normalized = [] then None
      else case cache normalized of
        None \<Rightarrow> None
      | Some cached \<Rightarrow>
          if cd_registration_tx_hash cached \<noteq> registration_tx_hash then None else Some (cd_event cached))"

definition cache_service_descriptor ::
  "string \<Rightarrow> hash32 \<Rightarrow> service_descriptor_event \<Rightarrow> descriptor_cache \<Rightarrow> descriptor_cache" where
  "cache_service_descriptor domain_name registration_tx_hash event cache =
     (let normalized = normalize_vns_domain domain_name in
      if normalized = [] then cache
      else if (case cache normalized of
                 None \<Rightarrow> True
               | Some cached \<Rightarrow>
                   cd_registration_tx_hash cached \<noteq> registration_tx_hash
                   \<or> sd_version (cd_event cached) < sd_version event
                   \<or> sd_version event = sd_version (cd_event cached) \<and> sd_created_at (cd_event cached) < sd_created_at event)
        then cache(normalized \<mapsto> \<lparr>cd_event = event, cd_registration_tx_hash = registration_tx_hash\<rparr>)
      else cache)"

text \<open>How new a descriptor is: its version, and then the time of its creation.\<close>

definition age_key :: "service_descriptor_event \<Rightarrow> u64 \<times> u64" where
  "age_key e = (sd_version e, sd_created_at e)"

lemma cache_spec:
  assumes "normalize_vns_domain name \<noteq> []"
  shows "get_cached_service_descriptor name h (cache_service_descriptor name h e cache) =
    (case get_cached_service_descriptor name h cache of
       None \<Rightarrow> Some e
     | Some e' \<Rightarrow> Some (if age_key e' < age_key e then e else e'))"
  using assms
  by (auto simp: get_cached_service_descriptor_def cache_service_descriptor_def age_key_def less_prod_def Let_def
      split: option.split)

lemma cache_other:
  "normalize_vns_domain name' \<noteq> normalize_vns_domain name \<Longrightarrow>
   get_cached_service_descriptor name' h' (cache_service_descriptor name h e cache) = get_cached_service_descriptor name' h' cache"
  by (simp add: get_cached_service_descriptor_def cache_service_descriptor_def Let_def)

text \<open>
  Whatever the order in which the descriptors of a registration arrive, the cache ends with one of them such that
  none is newer.
\<close>

theorem cache_keeps_newest:
  assumes "normalize_vns_domain name \<noteq> []" "es \<noteq> []" "get_cached_service_descriptor name h cache = None"
  shows "\<exists>e \<in> set es. get_cached_service_descriptor name h (fold (cache_service_descriptor name h) es cache) = Some e
    \<and> (\<forall>e' \<in> set es. age_key e' \<le> age_key e)"
  using assms(2)
proof (induction es rule: rev_nonempty_induct)
  case (single e)
  then show ?case using assms(1,3) by (simp add: cache_spec)
next
  case (snoc e es)
  then obtain m where m: "m \<in> set es" "get_cached_service_descriptor name h (fold (cache_service_descriptor name h) es cache) = Some m"
    "\<forall>e' \<in> set es. age_key e' \<le> age_key m" by blast
  show ?case
  proof (cases "age_key m < age_key e")
    case True
    with m show ?thesis by (auto simp: cache_spec [OF assms(1)] intro: order_trans less_imp_le)
  next
    case False
    with m show ?thesis by (intro bexI [of _ m]) (auto simp: cache_spec [OF assms(1)])
  qed
qed

end
