(* ===== verification/Proposals.thy ===== *)
theory Proposals
  imports Lifecycle
begin

text \<open>
  \<^verbatim>\<open>src/src/governance/proposal.cpp\<close>: recognising, validating and indexing the proposals of a block, and
  removing them when the block is popped. As in the other managers, \<open>get_tx\<close> and \<open>tx_hash\<close> are the block
  store and the hash of a transaction; \<open>addr\<close> is \<^verbatim>\<open>get_account_address_as_str\<close>, the textual form of an
  address from its flag and its two keys; \<open>junk\<close> is what the unset bytes of the recipient array hold.
\<close>

section \<open>Recognition\<close>

definition is_proposal_tx :: "transaction \<Rightarrow> bool" where
  "is_proposal_tx tx =
     (case first_governance_payload (tx_extra tx) of
        None \<Rightarrow> False
      | Some gp \<Rightarrow> gpl_type gp = GO_proposal)"

text \<open>The proposal is a prefix of the data; what is left of it is the payload of the change.\<close>

definition extract_proposal :: "transaction \<Rightarrow> (proposal \<times> bytes) option" where
  "extract_proposal tx =
     (case first_governance_payload (tx_extra tx) of
        None \<Rightarrow> None
      | Some gp \<Rightarrow> if gpl_type gp \<noteq> GO_proposal then None else get_proposal (gpl_data gp))"

section \<open>Validation\<close>

definition validate_fee_payload :: "bytes \<Rightarrow> bool" where
  "validate_fee_payload blob =
     (case parse_all get_parameter_update blob of
        None \<Rightarrow> False
      | Some payload \<Rightarrow> fee_entries_ok (pup_entries payload))"

definition validate_extension_payload :: "bytes \<Rightarrow> bool" where
  "validate_extension_payload blob =
     (case parse_all get_extension_update blob of
        None \<Rightarrow> False
      | Some payload \<Rightarrow>
          normalize_vns_extension (eup_extension payload) \<noteq> [] \<and> \<not> 5 < eup_tier payload)"

definition validate_label_payload :: "nat \<Rightarrow> bytes \<Rightarrow> bool" where
  "validate_label_payload payload_version blob =
     (case parse_all get_label_update blob of
        None \<Rightarrow> False
      | Some payload \<Rightarrow>
          if unat (lpu_version payload) \<noteq> payload_version then False
          else (if payload_version = 5 then normalize_vns_extension (lpu_term payload)
                else normalize_vns_label (lpu_term payload)) \<noteq> [])"

definition validate_domain_tier_payload :: "bytes \<Rightarrow> bool" where
  "validate_domain_tier_payload blob =
     (case parse_all get_domain_tier_update blob of
        None \<Rightarrow> False
      | Some payload \<Rightarrow>
          edtu_version payload = 6 \<and> normalize_vns_domain (edtu_domain payload) \<noteq> []
          \<and> \<not> 5 < edtu_tier payload)"

definition validate_domain_ban_payload :: "bytes \<Rightarrow> vns_db \<Rightarrow> bool" where
  "validate_domain_ban_payload blob db =
     (case parse_all get_domain_ban_update blob of
        None \<Rightarrow> False
      | Some payload \<Rightarrow>
          let normalized = normalize_vns_domain (edbu_domain payload) in
          edbu_version payload = 7 \<and> normalized \<noteq> [] \<and> get_vns_domain_record normalized db = None)"

definition validate_change :: "bytes \<Rightarrow> vns_db \<Rightarrow> bool" where
  "validate_change data_blob db =
     (if data_blob = [] then False
      else
        let payload_version = byte_val (hd data_blob) in
        if payload_version = 1 then validate_fee_payload data_blob
        else if payload_version = 2 then validate_extension_payload data_blob
        else if payload_version = 3 \<or> payload_version = 4 \<or> payload_version = 5
          then validate_label_payload payload_version data_blob
        else if payload_version = 6 then validate_domain_tier_payload data_blob
        else if payload_version = 7 then validate_domain_ban_payload data_blob db
        else False)"

definition voting_start :: "proposal \<Rightarrow> u64 \<Rightarrow> u64" where
  "voting_start p height = (if p_voting_start_height p = 0 then height + 1 else p_voting_start_height p)"

definition validate_proposal :: "proposal \<Rightarrow> u64 \<Rightarrow> bytes \<Rightarrow> vns_db \<Rightarrow> bool" where
  "validate_proposal p height data_blob db =
     (if p_version p \<noteq> 1 then False
      else if p_voting_period_days p < 1 \<or> 30 < p_voting_period_days p then False
      else
        let start_height = voting_start p height in
        if start_height \<le> height then False
        else if p_voting_end_height p \<noteq> 0 \<and> p_voting_end_height p \<le> start_height then False
        else if p_action p = ACTION_treasury_payment \<and> p_amount p = 0 then False
        else if p_action p = ACTION_treasury_payment
          \<and> (p_view_public_key p = null_hash \<or> p_spend_public_key p = null_hash) then False
        else if p_metadata_hash p = null_hash then False
        else if p_action p = ACTION_parameter_change then validate_change data_blob db
        else True)"

section \<open>Indexing\<close>

definition voting_end :: "proposal \<Rightarrow> u64 \<Rightarrow> u64" where
  "voting_end p height =
     (if p_voting_end_height p = 0 then voting_start p height + ucast (p_voting_period_days p) * 720
      else p_voting_end_height p)"

definition proposal_record_of ::
  "(bool \<Rightarrow> bytes \<Rightarrow> bytes \<Rightarrow> string) \<Rightarrow> bytes \<Rightarrow> proposal \<Rightarrow> hash32 \<Rightarrow> u64 \<Rightarrow> proposal_record" where
  "proposal_record_of addr junk p h height =
     \<lparr>pr_proposal_id = h, pr_type = p_action p, pr_title = char_array 128 (p_title p),
      pr_description = char_array 1024 (p_description p),
      pr_recipient = (if p_action p = ACTION_treasury_payment
        then char_array 256 (addr (p_is_subaddress p) (p_spend_public_key p) (p_view_public_key p))
        else NUL # junk),
      pr_amount = p_amount p, pr_voting_period_days = p_voting_period_days p,
      pr_submission_height = height, pr_voting_end_height = voting_end p height,
      pr_tally_key_id = null_hash, pr_submission_tx_hash = h, pr_executed = False,
      pr_status = PROPOSAL_STATUS_ACTIVE, pr_status_height = height,
      pr_recipient_view_public_key = p_recipient_view_public_key p, pr_is_subaddress = p_is_subaddress p\<rparr>"

text \<open>
  The name that a change of an exact name locks, with the action, flag and tier; the outer \<open>None\<close> is a
  return of false, the inner one a change of another kind.
\<close>

definition locked_name :: "proposal \<Rightarrow> bytes \<Rightarrow> (string \<times> u8 \<times> bool \<times> u8) option option" where
  "locked_name p data_blob =
     (if p_action p = ACTION_parameter_change \<and> data_blob \<noteq> [] then
        (let pv = byte_val (hd data_blob) in
         if pv = 6 then
           (case parse_all get_domain_tier_update data_blob of
              None \<Rightarrow> None
            | Some payload \<Rightarrow>
                let normalized = normalize_vns_domain (edtu_domain payload) in
                if normalized = [] then None
                else Some (Some (normalized, 0, edtu_enable payload, edtu_tier payload)))
         else if pv = 7 then
           (case parse_all get_domain_ban_update data_blob of
              None \<Rightarrow> None
            | Some payload \<Rightarrow>
                let normalized = normalize_vns_domain (edbu_domain payload) in
                if normalized = [] then None
                else Some (Some (normalized, 1, edbu_enable payload, 0)))
         else Some None)
      else Some None)"

definition pending_record_of ::
  "hash32 \<Rightarrow> u64 \<Rightarrow> u64 \<Rightarrow> string \<times> u8 \<times> bool \<times> u8 \<Rightarrow> pending_domain_policy_record" where
  "pending_record_of h height end_height l =
     (case l of (normalized, action, enable, tier) \<Rightarrow>
        \<lparr>pd_domain = char_array 64 normalized, pd_proposal_id = h, pd_voting_end_height = end_height,
         pd_action = action, pd_enable = enable, pd_tier = tier, pd_submission_height = height\<rparr>)"

definition lock_name :: "hash32 \<Rightarrow> u64 \<Rightarrow> u64 \<Rightarrow> string \<times> u8 \<times> bool \<times> u8 \<Rightarrow> vns_db \<Rightarrow> vns_db step" where
  "lock_name h height end_height l db =
     (if get_pending_domain_policy (fst l) (db_pending_domain db) \<noteq> None then False_in db
      else case add_pending_domain_policy_record (pending_record_of h height end_height l) (db_pending_domain db) of
        None \<Rightarrow> Threw_in db
      | Some t \<Rightarrow> True_in (db\<lparr>db_pending_domain := t\<rparr>))"

definition index_proposal ::
  "(bool \<Rightarrow> bytes \<Rightarrow> bytes \<Rightarrow> string) \<Rightarrow> bytes \<Rightarrow> transaction \<Rightarrow> hash32 \<Rightarrow> u64 \<Rightarrow> vns_db \<Rightarrow> vns_db step" where
  "index_proposal addr junk tx h height db =
     (if \<not> is_proposal_tx tx then True_in db
      else case extract_proposal tx of
        None \<Rightarrow> False_in db
      | Some (p, data_blob) \<Rightarrow>
          if \<not> validate_proposal p height data_blob db then False_in db
          else
            let rec = proposal_record_of addr junk p h height in
            case locked_name p data_blob of
              None \<Rightarrow> False_in db
            | Some lock \<Rightarrow>
                and_then
                  (case lock of
                     None \<Rightarrow> True_in db
                   | Some l \<Rightarrow> lock_name h height (pr_voting_end_height rec) l db)
                  (\<lambda>db.
                     let db = add_proposal_record (pr_proposal_id rec) rec db;
                         db = (if p_action p = ACTION_parameter_change then set_proposal_data h data_blob db else db)
                     in case add_voting_end_entry (pr_voting_end_height rec + 1) h db of
                          None \<Rightarrow> Threw_in db
                        | Some db \<Rightarrow> True_in db))"

primrec proposals_process_block ::
  "(bool \<Rightarrow> bytes \<Rightarrow> bytes \<Rightarrow> string) \<Rightarrow> bytes \<Rightarrow> (hash32 \<Rightarrow> transaction option) \<Rightarrow> u64 \<Rightarrow> hash32 list \<Rightarrow>
   vns_db \<Rightarrow> vns_db step" where
  "proposals_process_block addr junk get_tx height [] db = True_in db"
| "proposals_process_block addr junk get_tx height (h # hs) db =
     (case get_tx h of
        None \<Rightarrow> False_in db
      | Some tx \<Rightarrow>
          if \<not> is_proposal_tx tx then proposals_process_block addr junk get_tx height hs db
          else and_then (index_proposal addr junk tx h height db)
                 (proposals_process_block addr junk get_tx height hs))"

definition proposal_exists :: "hash32 \<Rightarrow> vns_db \<Rightarrow> bool" where
  "proposal_exists pid db \<longleftrightarrow> get_proposal_record pid db \<noteq> None"

text \<open>
  The loop of \<^verbatim>\<open>reindex_governance\<close> over the heights: the second \<^verbatim>\<open>continue\<close> is not guarded by a
  condition. \<open>hash_at\<close> and \<open>block_at\<close> are the block store, whose exception is \<open>None\<close>.
\<close>

primrec reindex_governance ::
  "(u64 \<Rightarrow> hash32) \<Rightarrow> (hash32 \<Rightarrow> hash32 list option) \<Rightarrow> u64 list \<Rightarrow> vns_db \<Rightarrow> vns_db step" where
  "reindex_governance hash_at block_at [] db = True_in db"
| "reindex_governance hash_at block_at (h # hs) db =
     (if hash_at h = null_hash then reindex_governance hash_at block_at hs db
      else case block_at (hash_at h) of
        None \<Rightarrow> Threw_in db
      | Some blk \<Rightarrow> reindex_governance hash_at block_at hs db)"

section \<open>Rollback\<close>

definition rollback_proposal :: "hash32 \<Rightarrow> vns_db \<Rightarrow> vns_db" where
  "rollback_proposal h db =
     (let db = db\<lparr>db_pending_domain := remove_pending_domain_policy_by_proposal h (db_pending_domain db)\<rparr>;
          db = (case get_proposal_record h db of
                  None \<Rightarrow> db
                | Some rec \<Rightarrow> remove_voting_end_entry (pr_voting_end_height rec + 1) h db)
      in remove_proposal_record h db)"

definition proposals_rollback_block :: "(transaction \<Rightarrow> hash32) \<Rightarrow> transaction list \<Rightarrow> vns_db \<Rightarrow> vns_db" where
  "proposals_rollback_block tx_hash txs db =
     fold (\<lambda>tx db. if is_proposal_tx tx then rollback_proposal (tx_hash tx) db else db) txs db"

section \<open>What indexing writes\<close>

text \<open>The tables that indexing a proposal touches, besides the stored payload.\<close>

definition with_tables ::
  "(hash32 \<times> proposal_record) list \<Rightarrow> (hash32 \<rightharpoonup> bytes) \<Rightarrow> (u64 \<times> hash32) list \<Rightarrow>
   pending_domain_policy_record list \<Rightarrow> vns_db \<Rightarrow> vns_db" where
  "with_tables p d q t db =
     db\<lparr>db_proposals := p, db_proposal_data := d, db_voting_end_queue := q, db_pending_domain := t\<rparr>"

lemma with_tables_simps [simp]:
  "db_proposals (with_tables p d q t db) = p" "db_proposal_data (with_tables p d q t db) = d"
  "db_voting_end_queue (with_tables p d q t db) = q" "db_pending_domain (with_tables p d q t db) = t"
  "with_tables p' d' q' t' (with_tables p d q t db) = with_tables p' d' q' t' db"
  "with_tables (db_proposals db) (db_proposal_data db) (db_voting_end_queue db) (db_pending_domain db) db = db"
  by (simp_all add: with_tables_def)

lemma tables_wf_with:
  "tables_wf db \<Longrightarrow> tables_wf (with_tables p d q t db) \<longleftrightarrow>
     table_wf hash_place p \<and> (\<forall>e \<in> set p. length (fst e) = 32) \<and> table_wf queue_place q \<and> table_wf pending_place t"
  by (auto simp: tables_wf_def with_tables_def)

lemma index_cases:
  assumes "index_proposal addr junk tx h height db = True_in db'" "is_proposal_tx tx"
  obtains p blob d q t where
    "extract_proposal tx = Some (p, blob)" "validate_proposal p height blob db"
    "db' = with_tables (db_proposals (add_proposal_record h (proposal_record_of addr junk p h height) db)) d q t db"
    "cursor_put_new queue_place (voting_end p height + 1, h) (db_voting_end_queue db) = Some q"
    "t = db_pending_domain db \<or>
       (\<exists>r. pd_proposal_id r = h \<and> cursor_put_new pending_place r (db_pending_domain db) = Some t)"
proof -
  from assms obtain p blob lock where
    ex: "extract_proposal tx = Some (p, blob)" and va: "validate_proposal p height blob db"
    and lk: "locked_name p blob = Some lock"
    by (auto simp: index_proposal_def Let_def split: option.splits if_splits)
  define rec where "rec = proposal_record_of addr junk p h height"
  have sel: "pr_proposal_id rec = h" "pr_voting_end_height rec = voting_end p height"
    by (simp_all add: rec_def proposal_record_of_def)
  let ?lock = "case lock of None \<Rightarrow> True_in db | Some l \<Rightarrow> lock_name h height (voting_end p height) l db"
  obtain t where t: "?lock = True_in (db\<lparr>db_pending_domain := t\<rparr>)"
    and pend: "t = db_pending_domain db \<or>
       (\<exists>r. pd_proposal_id r = h \<and> cursor_put_new pending_place r (db_pending_domain db) = Some t)"
  proof (cases lock)
    case None
    then show ?thesis by (intro that [of "db_pending_domain db"]) simp_all
  next
    case (Some l)
    with assms ex va lk obtain t where
      "add_pending_domain_policy_record (pending_record_of h height (voting_end p height) l) (db_pending_domain db) = Some t"
      "lock_name h height (voting_end p height) l db = True_in (db\<lparr>db_pending_domain := t\<rparr>)"
      by (auto simp: index_proposal_def rec_def [symmetric] sel lock_name_def split: option.splits if_splits)
    with Some show ?thesis
      by (intro that [of t]) (auto simp: add_pending_domain_policy_record_def pending_record_of_def split: prod.splits)
  qed
  define db1 where "db1 = (if p_action p = ACTION_parameter_change
    then set_proposal_data h blob (add_proposal_record h rec (db\<lparr>db_pending_domain := t\<rparr>))
    else add_proposal_record h rec (db\<lparr>db_pending_domain := t\<rparr>))"
  have "add_voting_end_entry (voting_end p height + 1) h db1 = Some db'"
    using assms ex va lk t
    by (simp add: index_proposal_def rec_def [symmetric] sel db1_def Let_def split: option.splits if_splits)
  then obtain q where "cursor_put_new queue_place (voting_end p height + 1, h) (db_voting_end_queue db1) = Some q"
    "db' = db1\<lparr>db_voting_end_queue := q\<rparr>"
    by (auto simp: add_voting_end_entry_def)
  moreover have "db_voting_end_queue db1 = db_voting_end_queue db"
    by (simp add: db1_def set_proposal_data_def add_proposal_record_def)
  moreover have "db1\<lparr>db_voting_end_queue := q\<rparr> =
      with_tables (db_proposals (add_proposal_record h rec db)) (db_proposal_data db1) q t db" for q
    by (simp add: db1_def with_tables_def set_proposal_data_def add_proposal_record_def)
  ultimately show ?thesis using that [OF ex va _ _ pend] by (metis rec_def)
qed

section \<open>Indexed proposals can be removed in any order\<close>

text \<open>No table mentions the hash yet.\<close>

definition fresh_hash :: "hash32 \<Rightarrow> vns_db \<Rightarrow> bool" where
  "fresh_hash h db \<longleftrightarrow> length h = 32 \<and> (\<forall>e \<in> set (db_proposals db). fst e \<noteq> h)
     \<and> (\<forall>e \<in> set (db_voting_end_queue db). snd e \<noteq> h)
     \<and> (\<forall>r \<in> set (db_pending_domain db). pd_proposal_id r \<noteq> h)"

text \<open>\<open>d\<close> is \<open>db\<close> with the proposals \<open>H\<close> indexed on top.\<close>

definition extended :: "hash32 set \<Rightarrow> vns_db \<Rightarrow> vns_db \<Rightarrow> bool" where
  "extended H db d \<longleftrightarrow>
     tables_wf d
     \<and> d = with_tables (db_proposals d) (db_proposal_data d) (db_voting_end_queue d) (db_pending_domain d) db
     \<and> {e \<in> set (db_proposals d). fst e \<notin> H} = set (db_proposals db)
     \<and> {e \<in> set (db_voting_end_queue d). snd e \<notin> H} = set (db_voting_end_queue db)
     \<and> {r \<in> set (db_pending_domain d). pd_proposal_id r \<notin> H} = set (db_pending_domain db)
     \<and> (\<forall>e \<in> set (db_voting_end_queue d). snd e \<in> H \<longrightarrow>
          (\<exists>rec. (snd e, rec) \<in> set (db_proposals d) \<and> fst e = pr_voting_end_height rec + 1))"

lemma extended_refl: "tables_wf db \<Longrightarrow> extended {} db db"
  by (simp add: extended_def)

lemma extended_empty:
  assumes "tables_wf db" "extended {} db d"
  shows "d = db\<lparr>db_proposal_data := db_proposal_data d\<rparr>"
proof -
  from assms(2) have wf: "tables_wf d"
    and d: "d = with_tables (db_proposals d) (db_proposal_data d) (db_voting_end_queue d) (db_pending_domain d) db"
    and sets: "set (db_proposals d) = set (db_proposals db)" "set (db_voting_end_queue d) = set (db_voting_end_queue db)"
      "set (db_pending_domain d) = set (db_pending_domain db)"
    by (simp_all add: extended_def)
  have "db_proposals d = db_proposals db" "db_voting_end_queue d = db_voting_end_queue db"
    "db_pending_domain d = db_pending_domain db"
    using table_wf_ext [OF tables_wfD(11) [OF wf] tables_wfD(11) [OF assms(1)] sets(1)]
      table_wf_ext [OF tables_wfD(10) [OF wf] tables_wfD(10) [OF assms(1)] sets(2)]
      table_wf_ext [OF tables_wfD(8) [OF wf] tables_wfD(8) [OF assms(1)] sets(3)] by simp_all
  with d show ?thesis by (simp add: with_tables_def)
qed

lemma extended_fresh: "extended H db d \<Longrightarrow> h \<notin> H \<Longrightarrow> fresh_hash h db \<Longrightarrow> fresh_hash h d"
  unfolding extended_def fresh_hash_def by blast

lemma extended_index:
  assumes ext: "extended H db d" and h: "h \<notin> H" "fresh_hash h db"
    and idx: "index_proposal addr junk tx h height d = True_in d'" "is_proposal_tx tx"
  shows "extended (insert h H) db d'"
proof -
  from ext have wf: "tables_wf d"
    and d: "d = with_tables (db_proposals d) (db_proposal_data d) (db_voting_end_queue d) (db_pending_domain d) db"
    by (simp_all add: extended_def)
  note fr = extended_fresh [OF ext h]
  obtain p blob dat q t where
    d': "d' = with_tables (db_proposals (add_proposal_record h (proposal_record_of addr junk p h height) d)) dat q t d" and
    q: "cursor_put_new queue_place (voting_end p height + 1, h) (db_voting_end_queue d) = Some q" and
    t: "t = db_pending_domain d \<or>
       (\<exists>r. pd_proposal_id r = h \<and> cursor_put_new pending_place r (db_pending_domain d) = Some t)"
    by (rule index_cases [OF idx])
  define rec where "rec = proposal_record_of addr junk p h height"
  have props: "set (db_proposals d') = insert (h, rec) (set (db_proposals d))"
    using fr by (auto simp: d' rec_def set_add_proposal fresh_hash_def)
  have queue: "set (db_voting_end_queue d') = insert (pr_voting_end_height rec + 1, h) (set (db_voting_end_queue d))"
    using cursor_put_new_set [OF q] by (simp add: d' rec_def proposal_record_of_def)
  have pend: "set (db_pending_domain d') - {r. pd_proposal_id r = h} = set (db_pending_domain d) - {r. pd_proposal_id r = h}"
    using t cursor_put_new_set by (fastforce simp: d')
  have "table_wf pending_place t"
    using t tables_wfD(8) [OF wf] by (auto intro: cursor_put_new_wf)
  moreover have "table_wf queue_place q" by (rule cursor_put_new_wf [OF tables_wfD(10) [OF wf] q])
  moreover have "table_wf hash_place (db_proposals d')" "\<forall>e \<in> set (db_proposals d'). length (fst e) = 32"
    using wf_add_proposal [OF tables_wfD(11,12) [OF wf]] tables_wfD(12) [OF wf] fr props by (auto simp: d' fresh_hash_def)
  ultimately have "tables_wf d'" by (simp add: d' tables_wf_with [OF wf])
  moreover have "d' = with_tables (db_proposals d') (db_proposal_data d') (db_voting_end_queue d') (db_pending_domain d') db"
    by (subst (1) d', subst d) (simp add: d')
  moreover have "{r \<in> set (db_pending_domain d'). pd_proposal_id r \<notin> insert h H} = {r \<in> set (db_pending_domain d). pd_proposal_id r \<notin> H}"
    using pend fr by (auto simp: fresh_hash_def)
  ultimately show ?thesis
    using ext h fr props queue unfolding extended_def
    by (intro conjI) (auto simp: fresh_hash_def)
qed

lemma extended_rollback:
  assumes ext: "extended H db d" and h: "h \<in> H"
  shows "extended (H - {h}) db (rollback_proposal h d)"
proof -
  from ext have wf: "tables_wf d"
    and d: "d = with_tables (db_proposals d) (db_proposal_data d) (db_voting_end_queue d) (db_pending_domain d) db"
    by (simp_all add: extended_def)
  define q where "q = (case get_proposal_record h d of
      None \<Rightarrow> db_voting_end_queue d
    | Some rec \<Rightarrow> filter (\<lambda>e. e \<noteq> (pr_voting_end_height rec + 1, h)) (db_voting_end_queue d))"
  have r: "rollback_proposal h d = with_tables (filter (\<lambda>e. fst e \<noteq> h) (db_proposals d)) (db_proposal_data d) q
      (filter (\<lambda>r. pd_proposal_id r \<noteq> h) (db_pending_domain d)) d"
    by (simp add: rollback_proposal_def with_tables_def q_def remove_proposal_record_def remove_voting_end_entry_def
        remove_pending_domain_policy_by_proposal_def cursor_del_where_def get_proposal_record_def split: option.split)
  from ext have sets: "{e \<in> set (db_proposals d). fst e \<notin> H} = set (db_proposals db)"
      "{e \<in> set (db_voting_end_queue d). snd e \<notin> H} = set (db_voting_end_queue db)"
      "{r \<in> set (db_pending_domain d). pd_proposal_id r \<notin> H} = set (db_pending_domain db)"
    and ends: "\<And>e. e \<in> set (db_voting_end_queue d) \<Longrightarrow> snd e \<in> H \<Longrightarrow>
      \<exists>rec. (snd e, rec) \<in> set (db_proposals d) \<and> fst e = pr_voting_end_height rec + 1"
    unfolding extended_def by simp_all
  have "set q = {e \<in> set (db_voting_end_queue d). snd e \<noteq> h}"
  proof (intro set_eqI iffI)
    fix e
    assume e: "e \<in> set q"
    then have mem: "e \<in> set (db_voting_end_queue d)" by (simp add: q_def split: option.splits)
    have "snd e \<noteq> h"
    proof
      assume "snd e = h"
      with ends [OF mem] h obtain rec where "(h, rec) \<in> set (db_proposals d)" "fst e = pr_voting_end_height rec + 1" by auto
      with \<open>snd e = h\<close> e show False by (simp add: q_def prod_eq_iff get_proposal_in [OF wf, symmetric])
    qed
    with mem show "e \<in> {e \<in> set (db_voting_end_queue d). snd e \<noteq> h}" by simp
  qed (auto simp: q_def split: option.split)
  note q = this
  have "tables_wf (rollback_proposal h d)"
    using tables_wfD(8,10-12) [OF wf] by (simp add: r tables_wf_with [OF wf] q_def split: option.split)
  moreover have "rollback_proposal h d = with_tables (db_proposals (rollback_proposal h d)) (db_proposal_data (rollback_proposal h d))
      (db_voting_end_queue (rollback_proposal h d)) (db_pending_domain (rollback_proposal h d)) db"
    unfolding r by (subst d) simp
  moreover have "{e \<in> set (db_proposals (rollback_proposal h d)). fst e \<notin> H - {h}} = set (db_proposals db)"
    "{e \<in> set (db_voting_end_queue (rollback_proposal h d)). snd e \<notin> H - {h}} = set (db_voting_end_queue db)"
    "{x \<in> set (db_pending_domain (rollback_proposal h d)). pd_proposal_id x \<notin> H - {h}} = set (db_pending_domain db)"
    unfolding sets [symmetric] r with_tables_simps q using h by auto
  moreover have "\<exists>rec. (snd e, rec) \<in> set (db_proposals (rollback_proposal h d)) \<and> fst e = pr_voting_end_height rec + 1"
    if "e \<in> set (db_voting_end_queue (rollback_proposal h d))" "snd e \<in> H - {h}" for e
    using that ends [of e] by (auto simp: r q)
  ultimately show ?thesis unfolding extended_def by blast
qed

lemma process_extended:
  assumes "proposals_process_block addr junk get_tx height hs d = True_in d'" "extended H db d"
    and "distinct hs" "set hs \<inter> H = {}" "\<forall>h \<in> set hs. fresh_hash h db"
  shows "extended (H \<union> {h \<in> set hs. \<exists>tx. get_tx h = Some tx \<and> is_proposal_tx tx}) db d'"
  using assms
proof (induction hs arbitrary: d H)
  case (Cons h hs)
  obtain tx where tx: "get_tx h = Some tx" using Cons.prems(1) by (auto split: option.splits)
  show ?case
  proof (cases "is_proposal_tx tx")
    case False
    with Cons.IH [of d H] Cons.prems tx
    have "extended (H \<union> {h \<in> set hs. \<exists>tx. get_tx h = Some tx \<and> is_proposal_tx tx}) db d'" by auto
    moreover have "{x \<in> set (h # hs). \<exists>tx. get_tx x = Some tx \<and> is_proposal_tx tx} =
        {x \<in> set hs. \<exists>tx. get_tx x = Some tx \<and> is_proposal_tx tx}" using False tx by auto
    ultimately show ?thesis by (simp only:)
  next
    case True
    with Cons.prems(1) tx obtain d1 where d1: "index_proposal addr junk tx h height d = True_in d1"
      and rest: "proposals_process_block addr junk get_tx height hs d1 = True_in d'"
      by (cases "index_proposal addr junk tx h height d") auto
    have "extended (insert h H) db d1"
      using Cons.prems by (intro extended_index [OF _ _ _ d1 True]) auto
    from Cons.IH [OF rest this] Cons.prems
    have "extended (insert h H \<union> {h \<in> set hs. \<exists>tx. get_tx h = Some tx \<and> is_proposal_tx tx}) db d'" by auto
    moreover have "H \<union> {x \<in> set (h # hs). \<exists>tx. get_tx x = Some tx \<and> is_proposal_tx tx} =
        insert h H \<union> {x \<in> set hs. \<exists>tx. get_tx x = Some tx \<and> is_proposal_tx tx}" using True tx by auto
    ultimately show ?thesis by (simp only:)
  qed
qed simp

lemma rollback_extended:
  assumes "extended H db d" "distinct (map tx_hash txs)" "tx_hash ` {tx \<in> set txs. is_proposal_tx tx} \<subseteq> H"
  shows "extended (H - tx_hash ` {tx \<in> set txs. is_proposal_tx tx}) db (proposals_rollback_block tx_hash txs d)"
  using assms
proof (induction txs arbitrary: d H)
  case (Cons tx txs)
  show ?case
  proof (cases "is_proposal_tx tx")
    case True
    let ?P = "tx_hash ` {tx \<in> set txs. is_proposal_tx tx}"
    have "extended (H - {tx_hash tx}) db (rollback_proposal (tx_hash tx) d)"
      using Cons.prems True by (intro extended_rollback) auto
    moreover have "?P \<subseteq> H - {tx_hash tx}" using Cons.prems by (auto simp: image_subset_iff) (metis imageI)
    ultimately have "extended (H - {tx_hash tx} - ?P) db (proposals_rollback_block tx_hash txs (rollback_proposal (tx_hash tx) d))"
      using Cons.prems(2) by (intro Cons.IH) auto
    moreover have "H - tx_hash ` {t \<in> set (tx # txs). is_proposal_tx t} = H - {tx_hash tx} - ?P" using True by auto
    ultimately show ?thesis using True by (simp add: proposals_rollback_block_def)
  next
    case False
    then have "{t \<in> set (tx # txs). is_proposal_tx t} = {t \<in> set txs. is_proposal_tx t}" by auto
    with Cons False show ?thesis by (simp add: proposals_rollback_block_def)
  qed
qed (simp add: proposals_rollback_block_def)

section \<open>What validation promises\<close>

text \<open>A version below 128 is its own byte, so that the first byte of the data is the version that is parsed.\<close>

lemma version_byte:
  "byte_val c < 128 \<Longrightarrow> get_varint8 (c # bs) = Some (word_of_nat (byte_val c), bs)"
  by (simp add: get_varint8_def read_varint_def Let_def)

lemma parse_all_iff: "parse_all dec bs = Some x \<longleftrightarrow> dec bs = Some (x, [])"
  by (auto simp: parse_all_def split: option.splits list.splits)

lemma versions:
  assumes "blob \<noteq> []" "byte_val (hd blob) < 128"
  shows "parse_all get_parameter_update blob = Some p1 \<Longrightarrow> pup_version p1 = word_of_nat (byte_val (hd blob))"
    "parse_all get_extension_update blob = Some p2 \<Longrightarrow> eup_version p2 = word_of_nat (byte_val (hd blob))"
    "parse_all get_label_update blob = Some p3 \<Longrightarrow> lpu_version p3 = word_of_nat (byte_val (hd blob))"
  using assms
  by (cases blob; auto simp: parse_all_iff get_parameter_update_def get_extension_update_def get_label_update_def
      version_byte bind_eq_Some_conv)+

lemma normalized_lengths:
  "length (normalize_vns_label l) < 64" "length (normalize_vns_extension e) < 16"
  "length (normalize_vns_domain d) < 64"
proof -
  show "length (normalize_vns_label l) < 64" "length (normalize_vns_extension e) < 16"
    by (auto simp: normalize_vns_label_def is_valid_vns_label_def normalize_vns_extension_def
        is_valid_vns_extension_def Let_def)
  show "length (normalize_vns_domain d) < 64"
    using canonical_domain_length [OF normalize_vns_domain_canonical, of d] by (cases "normalize_vns_domain d = []") auto
qed

text \<open>What the change asks for is what the policies already say at the height.\<close>

definition already_so :: "governance_params \<Rightarrow> u64 \<Rightarrow> bytes \<Rightarrow> vns_db \<Rightarrow> bool" where
  "already_so gp height blob db \<longleftrightarrow>
     (let pv = byte_val (hd blob) in
      if pv \<in> {3, 4, 5} then
        (\<exists>u. parse_all get_label_update blob = Some u \<and>
           lpu_enable u =
             (if pv = 3 then label_premium gp db (normalize_vns_label (lpu_term u)) height
              else if pv = 4 then label_barred gp db (normalize_vns_label (lpu_term u)) height
              else extension_barred gp db (normalize_vns_extension (lpu_term u)) height))
      else if pv = 6 then
        (\<exists>u. parse_all get_domain_tier_update blob = Some u \<and>
           tier_override db (normalize_vns_domain (edtu_domain u)) height =
             (if edtu_enable u then Some (edtu_tier u) else None))
      else if pv = 7 then
        (\<exists>u. parse_all get_domain_ban_update blob = Some u \<and>
           edbu_enable u = (exact_ban db (normalize_vns_domain (edbu_domain u)) height \<noteq> None))
      else False)"

lemma written_not_rejected [simp]: "written r \<noteq> Rejected"
  by (simp add: written_def split: option.split)

lemma fee_not_rejected:
  assumes "blob \<noteq> []" "byte_val (hd blob) = 1" "validate_fee_payload blob"
  shows "execute_fee_update height rec junk blob db \<noteq> Rejected"
  using assms versions(1) [OF assms(1)]
  by (auto simp: validate_fee_payload_def execute_fee_update_def split: option.splits)

lemma extension_not_rejected:
  assumes "blob \<noteq> []" "byte_val (hd blob) = 2" "validate_extension_payload blob"
  shows "execute_extension_update height rec blob db \<noteq> Rejected"
  using assms versions(2) [OF assms(1)]
  by (auto simp: validate_extension_payload_def execute_extension_update_def Let_def split: option.splits)

lemma label_rejected:
  assumes "blob \<noteq> []" "byte_val (hd blob) = pv" "validate_label_payload pv blob"
  shows "pv = 3 \<Longrightarrow> execute_premium_update gp height rec blob db = Rejected \<Longrightarrow> already_so gp height blob db"
    "pv = 4 \<Longrightarrow> execute_label_ban_update gp height rec blob db = Rejected \<Longrightarrow> already_so gp height blob db"
    "pv = 5 \<Longrightarrow> execute_extension_ban_update gp height rec blob db = Rejected \<Longrightarrow> already_so gp height blob db"
proof -
  from assms(3) obtain u where u: "parse_all get_label_update blob = Some u" "unat (lpu_version u) = pv"
    and norm: "(if pv = 5 then normalize_vns_extension (lpu_term u) else normalize_vns_label (lpu_term u)) \<noteq> []"
    by (auto simp: validate_label_payload_def split: option.splits if_splits)
  have lens: "\<not> 64 \<le> length (normalize_vns_label (lpu_term u))" "\<not> 16 \<le> length (normalize_vns_extension (lpu_term u))"
    using normalized_lengths by (simp_all add: not_le)
  have v: "pv < 128 \<Longrightarrow> lpu_version u = word_of_nat pv" using versions(3) [OF assms(1) _ u(1)] assms(2) by simp
  show "pv = 3 \<Longrightarrow> execute_premium_update gp height rec blob db = Rejected \<Longrightarrow> already_so gp height blob db"
    using v norm lens assms(2) by (simp add: execute_premium_update_def u already_so_def label_premium_def Let_def split: if_splits)
  show "pv = 4 \<Longrightarrow> execute_label_ban_update gp height rec blob db = Rejected \<Longrightarrow> already_so gp height blob db"
    using v norm lens assms(2) by (simp add: execute_label_ban_update_def u already_so_def label_barred_def Let_def split: if_splits)
  show "pv = 5 \<Longrightarrow> execute_extension_ban_update gp height rec blob db = Rejected \<Longrightarrow> already_so gp height blob db"
    using v norm lens assms(2)
    by (simp add: execute_extension_ban_update_def u already_so_def extension_barred_def Let_def split: if_splits)
qed

lemma domain_tier_rejected:
  assumes "byte_val (hd blob) = 6" "validate_domain_tier_payload blob"
    and "execute_domain_tier_update height rec blob db = Rejected"
  shows "already_so gp height blob db"
proof -
  from assms(2) obtain u where u: "parse_all get_domain_tier_update blob = Some u" "edtu_version u = 6"
    "normalize_vns_domain (edtu_domain u) \<noteq> []" "\<not> 5 < edtu_tier u"
    by (auto simp: validate_domain_tier_payload_def Let_def split: option.splits)
  moreover have "\<not> 64 \<le> length (normalize_vns_domain (edtu_domain u))" using normalized_lengths(3) by (simp add: not_le)
  ultimately show ?thesis
    using assms(1,3)
    by (auto simp: execute_domain_tier_update_def already_so_def tier_override_def Let_def split: option.splits if_splits)
qed

lemma domain_ban_rejected:
  assumes "byte_val (hd blob) = 7" "validate_domain_ban_payload blob db0"
    and "execute_domain_ban_update height rec blob db = Rejected"
  shows "already_so gp height blob db
    \<or> (\<exists>u. parse_all get_domain_ban_update blob = Some u
         \<and> get_vns_domain_record (normalize_vns_domain (edbu_domain u)) db \<noteq> None)"
proof -
  from assms(2) obtain u where u: "parse_all get_domain_ban_update blob = Some u" "edbu_version u = 7"
    "normalize_vns_domain (edbu_domain u) \<noteq> []"
    by (auto simp: validate_domain_ban_payload_def Let_def split: option.splits)
  moreover have "\<not> 64 \<le> length (normalize_vns_domain (edbu_domain u))" using normalized_lengths(3) by (simp add: not_le)
  ultimately show ?thesis
    using assms(1,3)
    by (auto simp: execute_domain_ban_update_def already_so_def exact_ban_def Let_def split: option.splits if_splits)
qed

section \<open>Properties\<close>


text \<open>
  C15: what validation accepts, execution applies. If a change passed \<^verbatim>\<open>validate_proposal\<close> against one
  state of the database and is executed against any later one, then the execution refuses it in two
  cases only: the policies in force already say what the change asks for, or the name of an exact ban
  has been registered in the meantime. In particular a change of fees or of an extension's tier is
  never refused.
\<close>
theorem validated_change_executes:
  assumes "validate_change blob db0" "execute_payload gp height rec junk blob db = Rejected"
  shows "already_so gp height blob db
    \<or> (\<exists>u. byte_val (hd blob) = 7 \<and> parse_all get_domain_ban_update blob = Some u
         \<and> get_vns_domain_record (normalize_vns_domain (edbu_domain u)) db \<noteq> None)"
proof -
  from assms(1) have "blob \<noteq> []" by (auto simp: validate_change_def)
  note r = fee_not_rejected [OF this] extension_not_rejected [OF this] label_rejected [OF this]
    domain_tier_rejected [of blob] domain_ban_rejected [of blob]
  have "byte_val (hd blob) \<in> {1, 2, 3, 4, 5, 6, 7}"
    using assms(1) by (auto simp: validate_change_def Let_def split: if_splits)
  then consider "byte_val (hd blob) = 1" | "byte_val (hd blob) = 2" | "byte_val (hd blob) = 3"
    | "byte_val (hd blob) = 4" | "byte_val (hd blob) = 5" | "byte_val (hd blob) = 6" | "byte_val (hd blob) = 7" by blast
  then show ?thesis
    using assms \<open>blob \<noteq> []\<close>
    by cases (auto simp: validate_change_def execute_payload_def Let_def dest: r simp flip: One_nat_def)
qed

text \<open>
  C24: an indexed proposal is open for voting over the period it asks for. When the indexing of a proposal
  succeeds and its voting period ends below \<open>2\<^sup>6\<^sup>4\<close>, the table holds an active, unexecuted record under the
  hash of the transaction; voting starts after the block and ends later than it starts, after the chosen
  number of days of 720 blocks unless the proposal names the end itself; the queue of voting ends holds the
  block after the end; and the records of all other proposals are untouched.
\<close>
theorem proposal_indexed:
  assumes "is_proposal_tx tx" "index_proposal addr junk tx h height db = True_in db'"
    and "extract_proposal tx = Some (p, blob)" "unat (voting_start p height) + 30 * 720 < 2 ^ 64"
  shows "\<exists>rec. get_proposal_record h db' = Some rec \<and> open_record rec
    \<and> pr_submission_height rec = height \<and> height < voting_start p height
    \<and> voting_start p height < pr_voting_end_height rec
    \<and> (p_voting_end_height p = 0 \<longrightarrow>
         unat (pr_voting_end_height rec) = unat (voting_start p height) + unat (p_voting_period_days p) * 720)
    \<and> h \<in> set (get_voting_end_entries (pr_voting_end_height rec + 1) db')
    \<and> (\<forall>k. k \<noteq> h \<longrightarrow> get_proposal_record k db' = get_proposal_record k db)"
proof -
  from index_cases [OF assms(2,1)] assms(3) obtain d q t where va: "validate_proposal p height blob db"
    and db': "db' = with_tables (db_proposals (add_proposal_record h (proposal_record_of addr junk p h height) db)) d q t db"
    and q: "cursor_put_new queue_place (voting_end p height + 1, h) (db_voting_end_queue db) = Some q"
    by (metis (no_types, lifting) Pair_inject option.inject)
  define rec where "rec = proposal_record_of addr junk p h height"
  have sel: "pr_voting_end_height rec = voting_end p height" "pr_submission_height rec = height" "open_record rec"
    by (simp_all add: rec_def proposal_record_of_def open_record_def)
  have get: "get_proposal_record k db' = (if k = h then Some rec else get_proposal_record k db)" for k
    using get_add_proposal [of k h rec db] by (simp add: db' rec_def get_proposal_record_def)
  have days: "1 \<le> unat (p_voting_period_days p)" "unat (p_voting_period_days p) \<le> 30"
    and start: "height < voting_start p height"
    and "p_voting_end_height p \<noteq> 0 \<Longrightarrow> voting_start p height < p_voting_end_height p"
    using va by (auto simp: validate_proposal_def Let_def word_less_nat_alt word_le_nat_alt not_less split: if_splits)
  moreover have len: "unat (voting_start p height + ucast (p_voting_period_days p) * 720) =
      unat (voting_start p height) + unat (p_voting_period_days p) * 720"
    using days(2) assms(4) by (simp add: unat_word_ariths unsigned_ucast_eq take_bit_nat_eq_self)
  ultimately have "voting_start p height < voting_end p height"
    by (auto simp: voting_end_def word_less_nat_alt)
  moreover have "h \<in> set (get_voting_end_entries (voting_end p height + 1) db')"
    using cursor_put_new_set [OF q] by (force simp: get_voting_end_entries_def cursor_dups_def db')
  moreover have "p_voting_end_height p = 0 \<Longrightarrow> 
     unat (voting_end p height) = unat (voting_start p height) + unat (p_voting_period_days p) * 720"
    using len by (simp add: voting_end_def)
  ultimately show ?thesis
    using get start by (intro exI [of _ rec]) (simp add: sel)
qed

text \<open>
  The voting period of an accepted proposal can end before it begins. Validation compares the start with
  the current height but bounds it nowhere, so that adding the period to a start close to \<open>2\<^sup>6\<^sup>4\<close> wraps
  around: a payment proposal that starts at the last height and leaves the end to the code is accepted, and
  its voting end is one block short of the period, counted from zero. For any chain that is longer than thirty
  days this lies in the past, where no block will ever decide the proposal.
\<close>
theorem voting_end_wraps:
  assumes "p_version p = 1" "1 \<le> p_voting_period_days p" "p_voting_period_days p \<le> 30"
    and "p_voting_start_height p = 18446744073709551615" "p_voting_end_height p = 0"
    and "p_action p = ACTION_treasury_payment" "p_amount p \<noteq> 0" "p_metadata_hash p \<noteq> null_hash"
    and "p_view_public_key p \<noteq> null_hash" "p_spend_public_key p \<noteq> null_hash"
    and "30 * 720 \<le> height" "height < 18446744073709551615"
  shows "validate_proposal p height blob db \<and> voting_end p height < height"
proof -
  have max: "(18446744073709551615 :: u64) = - 1" by simp
  have "voting_start p height = - 1" using assms(4) by (simp add: voting_start_def)
  moreover have "ucast (p_voting_period_days p) * 720 - 1 < height"
  proof -
    have "unat (ucast (p_voting_period_days p) * 720 - 1 :: u64) = unat (p_voting_period_days p) * 720 - 1"
    proof -
      have days: "1 \<le> unat (p_voting_period_days p)" "unat (p_voting_period_days p) \<le> 30"
        using assms(2,3) by (simp_all add: word_le_nat_alt)
      then have "unat (ucast (p_voting_period_days p) * 720 :: u64) = unat (p_voting_period_days p) * 720"
        by (simp add: unat_word_ariths unsigned_ucast_eq take_bit_nat_eq_self)
      with days show ?thesis by (subst unat_sub) (simp_all add: word_le_nat_alt)
    qed
    with assms(3,11) show ?thesis by (simp add: word_less_nat_alt word_le_nat_alt)
  qed
  moreover have "\<not> - 1 \<le> height" "\<not> p_voting_period_days p < 1" "\<not> 30 < p_voting_period_days p"
    using assms(12) leD [OF assms(2)] leD [OF assms(3)] max by (simp_all only: not_le not_False_eq_True)
  ultimately show ?thesis
    using assms by (simp add: validate_proposal_def voting_end_def del: word_less_1)
qed

section \<open>Witnesses\<close>

lemma first_payload_put:
  assumes "fits64 (gpl_data g)" "tx_extra tx = put_tx_extra_field (tx_extra_governance_payload g)"
  shows "first_governance_payload (tx_extra tx) = Some g"
  using parse_put_fields [of "[tx_extra_governance_payload g]"] assms
  by (simp add: first_governance_payload_def governance_payloads_def)

definition ex_ban_proposal :: proposal where
  "ex_ban_proposal =
     \<lparr>p_version = 1, p_metadata_hash = ex_pid, p_action = ACTION_parameter_change, p_amount = 0,
      p_spend_public_key = null_hash, p_view_public_key = null_hash, p_recipient_view_public_key = null_hash,
      p_is_subaddress = False, p_voting_start_height = 0, p_voting_end_height = 0, p_voting_period_days = 7,
      p_title = ''ban'', p_description = []\<rparr>"

abbreviation ex_ban_blob :: bytes where "ex_ban_blob \<equiv> put_domain_ban_update ex_payload"

definition ex_proposal_tx :: transaction where
  "ex_proposal_tx = \<lparr>tx_version = 2, tx_vin = [], tx_vout = [], tx_extra = put_tx_extra_field
     (tx_extra_governance_payload \<lparr>gpl_type = GO_proposal, gpl_data = put_proposal ex_ban_proposal @ ex_ban_blob\<rparr>)\<rparr>"

lemma ex_proposal_tx_parsed: "is_proposal_tx ex_proposal_tx" "extract_proposal ex_proposal_tx = Some (ex_ban_proposal, ex_ban_blob)"
proof -
  have "length (put_proposal ex_ban_proposal @ ex_ban_blob) < 200"
    by (simp add: put_proposal_def ex_ban_proposal_def ex_pid_def put_u8_def put_bool_def put_varint8_def
        put_varint64_def put_string_def write_varint.simps put_domain_ban_update_def ex_payload_def)
  then have "first_governance_payload (tx_extra ex_proposal_tx) =
      Some \<lparr>gpl_type = GO_proposal, gpl_data = put_proposal ex_ban_proposal @ ex_ban_blob\<rparr>"
    by (intro first_payload_put) (simp_all add: ex_proposal_tx_def)
  then show "is_proposal_tx ex_proposal_tx" "extract_proposal ex_proposal_tx = Some (ex_ban_proposal, ex_ban_blob)"
    by (simp_all add: is_proposal_tx_def extract_proposal_def prop_codec.dec_enc proposal_fits_def ex_ban_proposal_def ex_pid_def)
qed

lemma ex_ban_blob_parsed: "parse_all get_domain_ban_update ex_ban_blob = Some ex_payload" "ex_ban_blob \<noteq> []"
  "byte_val (hd ex_ban_blob) = 7" "normalize_vns_domain (edbu_domain ex_payload) = ''scam..shop''"
  "edbu_version ex_payload = 7" "edbu_enable ex_payload"
proof -
  show "parse_all get_domain_ban_update ex_ban_blob = Some ex_payload"
    by (rule domain_ban_update.parse_all_enc) (simp add: ex_payload_def)
qed (use normalize_of_canonical [OF ex_domain_canonical] in
  \<open>simp_all add: ex_payload_def put_domain_ban_update_def put_varint8_def write_varint.simps\<close>)

lemma ex_validated: "validate_change ex_ban_blob empty_db" "validate_proposal ex_ban_proposal 100 ex_ban_blob empty_db"
proof -
  show "validate_change ex_ban_blob empty_db"
    by (simp add: validate_change_def validate_domain_ban_payload_def ex_ban_blob_parsed get_vns_domain_record_def empty_db_def)
  then show "validate_proposal ex_ban_proposal 100 ex_ban_blob empty_db"
    by (simp add: validate_proposal_def ex_ban_proposal_def voting_start_def ex_pid_def)
qed

lemma ex_indexed: "\<exists>db'. index_proposal addr [] ex_proposal_tx ex_pid 100 empty_db = True_in db'"
proof -
  let ?rec = "proposal_record_of addr [] ex_ban_proposal ex_pid 100"
  have "locked_name ex_ban_proposal ex_ban_blob = Some (Some (''scam..shop'', 1, True, 0))"
    by (simp add: locked_name_def ex_ban_blob_parsed ex_ban_proposal_def)
  moreover have "p_action ex_ban_proposal = 1" by (simp add: ex_ban_proposal_def)
  moreover have "db_pending_domain empty_db = []" "db_voting_end_queue empty_db = []" by (simp_all add: empty_db_def)
  ultimately show ?thesis
    by (simp add: index_proposal_def ex_proposal_tx_parsed ex_validated lock_name_def get_pending_domain_policy_def
        add_pending_domain_policy_record_def add_voting_end_entry_def cursor_put_new_def Let_def
        add_proposal_record_def set_proposal_data_def)
qed


theorem proposal_indexed_witness:
  "\<exists>db' rec. index_proposal (\<lambda>_ _ _. []) [] ex_proposal_tx ex_pid 100 empty_db = True_in db'
    \<and> get_proposal_record ex_pid db' = Some rec \<and> open_record rec \<and> unat (pr_voting_end_height rec) = 5141"
proof -
  from ex_indexed [of "\<lambda>_ _ _. []"] obtain db' where
    i: "index_proposal (\<lambda>_ _ _. []) [] ex_proposal_tx ex_pid 100 empty_db = True_in db'" ..
  have "voting_start ex_ban_proposal 100 = 101" by (simp add: voting_start_def ex_ban_proposal_def)
  with proposal_indexed [OF ex_proposal_tx_parsed(1) i ex_proposal_tx_parsed(2)] i show ?thesis
    by (auto simp: ex_ban_proposal_def)
qed

theorem validated_change_executes_witness:
  "execute_payload sample_params 6000 ex_proposal [] ex_ban_blob empty_db \<noteq> Rejected"
proof
  assume r: "execute_payload sample_params 6000 ex_proposal [] ex_ban_blob empty_db = Rejected"
  have "get_vns_domain_record d empty_db = None" "exact_ban empty_db d 6000 = None" for d
    by (simp_all add: get_vns_domain_record_def empty_db_def exact_ban_def get_exact_domain_ban_policy_def)
  with validated_change_executes [OF ex_validated(1) r] show False
    by (simp add: already_so_def ex_ban_blob_parsed)
qed

theorem voting_end_wraps_witness:
  "\<exists>p. validate_proposal p 30000 [] empty_db \<and> voting_end p 30000 < 30000"
  using voting_end_wraps [of "ex_ban_proposal\<lparr>p_action := ACTION_treasury_payment, p_amount := 5,
    p_view_public_key := ex_pid, p_spend_public_key := ex_pid, p_voting_start_height := 18446744073709551615\<rparr>" 30000 "[]" empty_db]
  by (intro exI) (auto simp: ex_ban_proposal_def ex_pid_def)

end
