(* ===== verification/Execution_Queue.thy ===== *)
theory Execution_Queue
  imports Lifecycle
begin

text \<open>
  The scans of \<^verbatim>\<open>src/src/governance/governance.cpp\<close> over all proposals: whether given tallies pass, which
  proposals are ready to be executed, and which executions were lost and must be scheduled again.
\<close>

section \<open>Scans over the proposals\<close>

text \<open>
  \<open>junk\<close> is the initial value of the parameters that the lookup overwrites, \<open>dflt\<close> a value of
  \<^const>\<open>default_params\<close>, which depends on the order of its containers.
\<close>

definition is_proposal_passed ::
  "chain \<Rightarrow> governance_params \<Rightarrow> governance_params \<Rightarrow> u64 \<Rightarrow> u64 \<Rightarrow> u64 \<Rightarrow> u64 \<Rightarrow> u64 \<Rightarrow> vns_db \<Rightarrow>
   bool option" where
  "is_proposal_passed ch junk dflt yes_w no_w yes_b no_b voting_end db =
     (let effective_height = min voting_end (ch_height ch) in
      case ch_generated_coins ch effective_height of
        None \<Rightarrow> None
      | Some minted \<Rightarrow>
          let gp = (case get_governance_params junk db of None \<Rightarrow> dflt | Some gp \<Rightarrow> gp) in
          Some (quorum_met yes_b no_b (voting_quorum_percent gp) minted
                  (get_treasury_balance db) (get_total_burned_fees db)
                \<and> no_w < yes_w))"

definition ready_delay :: "u64 \<Rightarrow> vns_db \<Rightarrow> u64" where
  "ready_delay height db =
     (case get_parameter execution_delay_param height (db_parameters db) of None \<Rightarrow> 720 | Some d \<Rightarrow> d)"

definition get_ready_executions :: "u64 \<Rightarrow> vns_db \<Rightarrow> proposal_record list" where
  "get_ready_executions current_height db =
     (let exec_delay = ready_delay current_height db in
      for_all_proposal_records
        (\<lambda>(pid, rec) ready.
           if pr_executed rec \<or> pr_status rec \<noteq> PROPOSAL_STATUS_PASSED then (True, ready)
           else (True, if pr_voting_end_height rec + exec_delay \<le> current_height then ready @ [rec] else ready))
        db [])"

text \<open>An overdue proposal: its id, its execution height, and whether its status must be set.\<close>

definition overdue_visit ::
  "u64 \<Rightarrow> u64 \<Rightarrow> hash32 set \<Rightarrow> vns_db \<Rightarrow> hash32 \<times> proposal_record \<Rightarrow>
   (hash32 \<times> u64 \<times> bool) list \<Rightarrow> bool \<times> (hash32 \<times> u64 \<times> bool) list" where
  "overdue_visit current_height exec_delay already_pending db e to_recover =
     (case e of (pid, rec) \<Rightarrow>
        if pr_executed rec then (True, to_recover)
        else
          let scheduled = pr_voting_end_height rec + exec_delay in
          if current_height < scheduled then (True, to_recover)
          else
            let passed = (pr_status rec = PROPOSAL_STATUS_PASSED);
                needs_fix = (\<not> passed \<and> pr_status rec = PROPOSAL_STATUS_ACTIVE
                  \<and> (case get_proposal_outcome pid db of
                       None \<Rightarrow> False | Some out \<Rightarrow> out_no_weight out < out_yes_weight out))
            in if \<not> passed \<and> \<not> needs_fix then (True, to_recover)
               else if pid \<notin> already_pending then (True, to_recover @ [(pid, scheduled, needs_fix)])
               else if needs_fix then (True, to_recover @ [(pid, scheduled, True)])
               else (True, to_recover))"

definition recover_item ::
  "u64 \<Rightarrow> hash32 set \<Rightarrow> hash32 \<times> u64 \<times> bool \<Rightarrow> vns_db \<Rightarrow> vns_db step" where
  "recover_item current_height already_pending item db =
     (case item of (pid, exec_height, needs_fix) \<Rightarrow>
        let db = (if needs_fix then
                    (case get_proposal_record pid db of
                       None \<Rightarrow> db
                     | Some rec \<Rightarrow>
                         if pr_status rec = PROPOSAL_STATUS_ACTIVE \<and> \<not> pr_executed rec
                         then add_proposal_record (pr_proposal_id rec)
                           (rec\<lparr>pr_status := PROPOSAL_STATUS_PASSED, pr_status_height := current_height\<rparr>) db
                         else db)
                  else db)
        in if pid \<notin> already_pending then
             (case add_pending_execution exec_height pid db of None \<Rightarrow> Threw_in db | Some db' \<Rightarrow> True_in db')
           else True_in db)"

primrec recover_loop ::
  "u64 \<Rightarrow> hash32 set \<Rightarrow> (hash32 \<times> u64 \<times> bool) list \<Rightarrow> vns_db \<Rightarrow> vns_db step" where
  "recover_loop current_height already_pending [] db = True_in db"
| "recover_loop current_height already_pending (item # items) db =
     and_then (recover_item current_height already_pending item db)
       (recover_loop current_height already_pending items)"

definition recover_overdue_executions :: "write_txn \<Rightarrow> u64 \<Rightarrow> vns_db \<Rightarrow> vns_db" where
  "recover_overdue_executions txn current_height db =
     (let exec_delay = lifecycle_delay current_height db;
          already_pending = snd ` set (get_pending_executions current_height db);
          to_recover = for_all_proposal_records
            (overdue_visit current_height exec_delay already_pending db) db []
      in if to_recover = [] then db
         else snd (in_write_txn txn (recover_loop current_height already_pending to_recover) db))"

section \<open>Ready and overdue executions\<close>

lemma cursor_for_all_total:
  "(\<And>e acc. f e acc = (True, g e acc)) \<Longrightarrow> cursor_for_all f t acc = fold g t acc"
  by (induction t arbitrary: acc) simp_all

lemma fold_append_filter: "fold (\<lambda>e acc. if p e then acc @ [f e] else acc) t acc = acc @ map f (filter p t)"
  by (induction t arbitrary: acc) simp_all

lemma ready_executions_eq:
  "get_ready_executions h db = map snd (filter (\<lambda>e. \<not> pr_executed (snd e)
     \<and> pr_status (snd e) = PROPOSAL_STATUS_PASSED \<and> pr_voting_end_height (snd e) + ready_delay h db \<le> h) (db_proposals db))"
proof -
  let ?p = "\<lambda>e. \<not> pr_executed (snd e) \<and> pr_status (snd e) = PROPOSAL_STATUS_PASSED
    \<and> pr_voting_end_height (snd e) + ready_delay h db \<le> h"
  have "get_ready_executions h db = fold (\<lambda>e acc. if ?p e then acc @ [snd e] else acc) (db_proposals db) []"
    unfolding get_ready_executions_def for_all_proposal_records_def Let_def
    by (intro cursor_for_all_total) (auto split: prod.split)
  then show ?thesis by (simp add: fold_append_filter)
qed

lemma delay_default: "get_governance_parameter execution_delay_param h db = ready_delay h db"
  by (simp add: get_governance_parameter_def ready_delay_def split: option.split)

lemma ids_ok_mem: "tables_wf db \<Longrightarrow> ids_ok db \<Longrightarrow> e \<in> set (db_proposals db) \<Longrightarrow> fst e = pr_proposal_id (snd e)"
  using ids_okD [of db "fst e" "snd e"] get_proposal_in [of db "fst e" "snd e"] by simp

lemma ready_distinct: "tables_wf db \<Longrightarrow> ids_ok db \<Longrightarrow> distinct (get_ready_executions h db)"
proof -
  assume wf: "tables_wf db" "ids_ok db"
  have "inj_on snd (set (db_proposals db))"
    using ids_ok_mem [OF wf] by (intro inj_onI prod_eqI) auto
  moreover have "distinct (db_proposals db)"
    using wf_distinct_keys [OF tables_wfD(11) [OF wf(1)]] by (simp add: distinct_map)
  ultimately show ?thesis
    unfolding ready_executions_eq by (auto simp: distinct_map intro: inj_on_subset)
qed

text \<open>
  C25: the block template offers a proposal for execution exactly when it is passed, unexecuted and
  its delay has run out, once each and in table order; and consensus agrees: an execution of a
  policy proposal that is not offered at a height is rejected at that height.
\<close>
theorem ready_executions_exact:
  assumes "tables_wf db" "ids_ok db" "get_proposal_record pid db = Some rec"
  shows "(rec \<in> set (get_ready_executions h db) \<longleftrightarrow>
      pr_status rec = PROPOSAL_STATUS_PASSED \<and> \<not> pr_executed rec
      \<and> pr_voting_end_height rec + get_governance_parameter execution_delay_param h db \<le> h)
    \<and> distinct (get_ready_executions h db)
    \<and> (rec \<notin> set (get_ready_executions h db) \<longrightarrow> process_parameter_execution gp h pid junk db = Rejected)"
proof -
  have mem: "rec \<in> set (get_ready_executions h db) \<longleftrightarrow> pr_status rec = PROPOSAL_STATUS_PASSED \<and> \<not> pr_executed rec
      \<and> pr_voting_end_height rec + ready_delay h db \<le> h"
    using assms by (force simp: ready_executions_eq get_proposal_in)
  with mem ready_distinct [OF assms(1,2)] show ?thesis
    by (auto simp: delay_default process_parameter_execution_def assms(3) not_le)
qed

text \<open>The overdue proposals that the scan collects.\<close>

definition recoverable :: "u64 \<Rightarrow> vns_db \<Rightarrow> hash32 \<times> proposal_record \<Rightarrow> bool" where
  "recoverable h db e \<longleftrightarrow>
     \<not> pr_executed (snd e) \<and> pr_voting_end_height (snd e) + lifecycle_delay h db \<le> h
     \<and> (pr_status (snd e) = PROPOSAL_STATUS_PASSED
        \<or> pr_status (snd e) = PROPOSAL_STATUS_ACTIVE
          \<and> (\<exists>out. get_proposal_outcome (fst e) db = Some out \<and> out_no_weight out < out_yes_weight out))"

lemma overdue_visit_eq:
  "overdue_visit h (lifecycle_delay h db) pend db e acc =
     (True, if recoverable h db e \<and> (fst e \<notin> pend \<or> pr_status (snd e) = PROPOSAL_STATUS_ACTIVE)
            then acc @ [(fst e, pr_voting_end_height (snd e) + lifecycle_delay h db, pr_status (snd e) = PROPOSAL_STATUS_ACTIVE)]
            else acc)"
  by (cases e) (auto simp: overdue_visit_def recoverable_def Let_def not_less not_le split: option.splits)

definition overdue_items :: "u64 \<Rightarrow> hash32 set \<Rightarrow> vns_db \<Rightarrow> (hash32 \<times> u64 \<times> bool) list" where
  "overdue_items h pend db =
     map (\<lambda>e. (fst e, pr_voting_end_height (snd e) + lifecycle_delay h db, pr_status (snd e) = PROPOSAL_STATUS_ACTIVE))
       (filter (\<lambda>e. recoverable h db e \<and> (fst e \<notin> pend \<or> pr_status (snd e) = PROPOSAL_STATUS_ACTIVE)) (db_proposals db))"

lemma overdue_scan:
  "for_all_proposal_records (overdue_visit h (lifecycle_delay h db) pend db) db [] = overdue_items h pend db"
proof -
  have "for_all_proposal_records (overdue_visit h (lifecycle_delay h db) pend db) db [] =
    fold (\<lambda>e acc. if recoverable h db e \<and> (fst e \<notin> pend \<or> pr_status (snd e) = PROPOSAL_STATUS_ACTIVE)
      then acc @ [(fst e, pr_voting_end_height (snd e) + lifecycle_delay h db, pr_status (snd e) = PROPOSAL_STATUS_ACTIVE)]
      else acc) (db_proposals db) []"
    unfolding for_all_proposal_records_def by (intro cursor_for_all_total) (simp add: overdue_visit_eq)
  then show ?thesis by (simp add: fold_append_filter overdue_items_def)
qed

text \<open>The status fix of one item.\<close>

definition mark_passed :: "u64 \<Rightarrow> bool \<Rightarrow> proposal_record \<Rightarrow> proposal_record" where
  "mark_passed h needs_fix rec =
     (if needs_fix \<and> open_record rec then rec\<lparr>pr_status := PROPOSAL_STATUS_PASSED, pr_status_height := h\<rparr> else rec)"

lemma recover_item_effect:
  assumes "ids_ok db" "pid \<in> pend \<or> (eh, pid) \<notin> set (db_pending_executions db)"
  shows "\<exists>db'. recover_item h pend (pid, eh, fx) db = True_in db' \<and> ids_ok db'
    \<and> (\<forall>k. get_proposal_record k db' =
        map_option (\<lambda>rec. if k = pid then mark_passed h fx rec else rec) (get_proposal_record k db))
    \<and> set (db_pending_executions db') = (if pid \<in> pend then {} else {(eh, pid)}) \<union> set (db_pending_executions db)"
proof -
  define db1 where "db1 = (if fx then
      (case get_proposal_record pid db of
         None \<Rightarrow> db
       | Some rec \<Rightarrow>
           if pr_status rec = PROPOSAL_STATUS_ACTIVE \<and> \<not> pr_executed rec
           then add_proposal_record (pr_proposal_id rec)
             (rec\<lparr>pr_status := PROPOSAL_STATUS_PASSED, pr_status_height := h\<rparr>) db
           else db)
    else db)"
  have q: "db_pending_executions db1 = db_pending_executions db"
    by (simp add: db1_def add_proposal_record_def split: option.split)
  have get: "get_proposal_record k db1 =
      map_option (\<lambda>rec. if k = pid then mark_passed h fx rec else rec) (get_proposal_record k db)" for k
  proof (cases "get_proposal_record pid db")
    case None
    then show ?thesis by (cases "k = pid") (simp_all add: db1_def option.map_ident)
  next
    case (Some rec)
    with ids_okD [OF assms(1)] have "pr_proposal_id rec = pid" by simp
    with Some show ?thesis
      by (cases "k = pid") (simp_all add: db1_def mark_passed_def open_record_def option.map_ident)
  qed
  have ids: "ids_ok db1"
    unfolding ids_ok_def
  proof (intro allI impI)
    fix k r
    assume "get_proposal_record k db1 = Some r"
    then obtain rec where "get_proposal_record k db = Some rec" "r = (if k = pid then mark_passed h fx rec else rec)"
      by (auto simp: get)
    with ids_okD [OF assms(1), of k rec] show "pr_proposal_id r = k" by (simp add: mark_passed_def)
  qed
  show ?thesis
  proof (cases "pid \<in> pend")
    case True
    then have "recover_item h pend (pid, eh, fx) db = True_in db1"
      by (simp add: recover_item_def db1_def)
    with True q get ids show ?thesis by simp
  next
    case False
    with assms(2) q obtain db2 where add: "add_pending_execution eh pid db1 = Some db2"
      by (auto simp: add_pending_execution_def cursor_put_new_def queue_place_def)
    with False have r: "recover_item h pend (pid, eh, fx) db = True_in db2"
      by (simp add: recover_item_def db1_def [symmetric])
    from add have "db_proposals db2 = db_proposals db1" by (auto simp: add_pending_execution_def)
    then have g2: "get_proposal_record k db2 = get_proposal_record k db1" for k by (rule frame_proposals)
    with ids have "ids_ok db2" by (simp add: ids_ok_def)
    with r False q get g2 queue_add [OF add] show ?thesis by auto
  qed
qed

lemma recover_loop_effect:
  assumes "ids_ok db" "distinct (map fst items)"
    and "\<forall>(pid, eh, fx) \<in> set items. pid \<in> pend \<or> (eh, pid) \<notin> set (db_pending_executions db)"
  shows "\<exists>db'. recover_loop h pend items db = True_in db'
    \<and> (\<forall>k. get_proposal_record k db' =
        map_option (\<lambda>rec. if \<exists>eh. (k, eh, True) \<in> set items then mark_passed h True rec else rec) (get_proposal_record k db))
    \<and> set (db_pending_executions db') =
        {(eh, pid). pid \<notin> pend \<and> (\<exists>fx. (pid, eh, fx) \<in> set items)} \<union> set (db_pending_executions db)"
  using assms
proof (induction items arbitrary: db)
  case Nil
  then show ?case by (simp add: option.map_ident)
next
  case (Cons item items)
  obtain pid eh fx where item: "item = (pid, eh, fx)" by (cases item)
  from Cons.prems(3) item have "pid \<in> pend \<or> (eh, pid) \<notin> set (db_pending_executions db)" by simp
  from recover_item_effect [OF Cons.prems(1) this] obtain db1 where
    one: "recover_item h pend (pid, eh, fx) db = True_in db1" "ids_ok db1" and
    get1: "\<And>k. get_proposal_record k db1 =
      map_option (\<lambda>rec. if k = pid then mark_passed h fx rec else rec) (get_proposal_record k db)" and
    q1: "set (db_pending_executions db1) = (if pid \<in> pend then {} else {(eh, pid)}) \<union> set (db_pending_executions db)"
    by blast
  have fresh: "pid' \<noteq> pid" if "(pid', eh', fx') \<in> set items" for pid' eh' fx'
  proof -
    have "pid' \<in> fst ` set items" using that by (rule image_eqI [rotated]) simp
    moreover have "pid \<notin> fst ` set items" using Cons.prems(2) by (simp add: item)
    ultimately show ?thesis by blast
  qed
  have "\<forall>(pid, eh, fx) \<in> set items. pid \<in> pend \<or> (eh, pid) \<notin> set (db_pending_executions db1)"
  proof (intro ballI)
    fix x
    assume x: "x \<in> set items"
    obtain p e f where p: "x = (p, e, f)" by (cases x)
    with x fresh have "p \<noteq> pid" by blast
    moreover have "p \<in> pend \<or> (e, p) \<notin> set (db_pending_executions db)" using Cons.prems(3) x p by auto
    ultimately show "case x of (pid, eh, fx) \<Rightarrow> pid \<in> pend \<or> (eh, pid) \<notin> set (db_pending_executions db1)"
      by (simp add: p q1)
  qed
  with Cons.IH [OF one(2)] Cons.prems(2) obtain db' where
    rest: "recover_loop h pend items db1 = True_in db'" and
    get2: "\<And>k. get_proposal_record k db' =
      map_option (\<lambda>rec. if \<exists>eh. (k, eh, True) \<in> set items then mark_passed h True rec else rec) (get_proposal_record k db1)" and
    q2: "set (db_pending_executions db') =
      {(eh, pid). pid \<notin> pend \<and> (\<exists>fx. (pid, eh, fx) \<in> set items)} \<union> set (db_pending_executions db1)"
    by auto
  have "get_proposal_record k db' =
      map_option (\<lambda>rec. if \<exists>eh. (k, eh, True) \<in> set (item # items) then mark_passed h True rec else rec)
        (get_proposal_record k db)" for k
  proof (cases "k = pid")
    case True
    then have "\<not> (\<exists>eh. (k, eh, True) \<in> set items)" using fresh by blast
    then show ?thesis
      using True by (cases fx) (auto simp: get2 get1 item mark_passed_def map_option_case split: option.split)
  next
    case False
    then show ?thesis by (auto simp: get2 get1 item option.map_ident)
  qed
  moreover have "set (db_pending_executions db') =
      {(eh, pid). pid \<notin> pend \<and> (\<exists>fx. (pid, eh, fx) \<in> set (item # items))} \<union> set (db_pending_executions db)"
    unfolding q2 q1 item by (intro set_eqI) auto
  moreover have "recover_loop h pend (item # items) db = True_in db'" by (simp add: item one(1) rest)
  ultimately show ?case by blast
qed

lemma takeWhile_ordered:
  "sorted_wrt (\<lambda>a b. f a \<le> f b) t \<Longrightarrow> set (takeWhile (\<lambda>e. f e \<le> (h :: u64)) t) = {e \<in> set t. f e \<le> h}"
  by (induction t) (auto intro: order_trans)

lemma pending_executions_iff:
  assumes "tables_wf db"
  shows "e \<in> set (get_pending_executions h db) \<longleftrightarrow> e \<in> set (db_pending_executions db) \<and> fst e \<le> h"
proof -
  have "sorted (db_pending_executions db)"
    using tables_wfD(9) [OF assms] by (simp add: table_wf_def queue_place_def [abs_def])
  then have "sorted_wrt (\<lambda>a b. fst a \<le> fst b) (db_pending_executions db)"
    by (rule sorted_wrt_mono_rel [rotated]) (auto simp: less_eq_prod_def)
  from takeWhile_ordered [OF this, of h] show ?thesis by (simp add: get_pending_executions_def)
qed

lemma overdue_items_iff:
  assumes "tables_wf db"
  shows "(pid, eh, fx) \<in> set (overdue_items h pend db) \<longleftrightarrow>
    (\<exists>rec. get_proposal_record pid db = Some rec \<and> recoverable h db (pid, rec)
       \<and> (pid \<notin> pend \<or> pr_status rec = PROPOSAL_STATUS_ACTIVE)
       \<and> eh = pr_voting_end_height rec + lifecycle_delay h db \<and> fx = (pr_status rec = PROPOSAL_STATUS_ACTIVE))"
  unfolding get_proposal_in [OF assms] overdue_items_def by (auto simp: image_iff Bex_def)

lemma overdue_items_distinct: "tables_wf db \<Longrightarrow> distinct (map fst (overdue_items h pend db))"
  using wf_distinct_keys [OF tables_wfD(11)] by (simp add: overdue_items_def o_def distinct_map_filter)

text \<open>
  C31: the recovery of lost executions completes and loses nothing. Unless a block transaction is
  open, afterwards every unexecuted proposal that is overdue and passed is in the execution queue at
  a height that has been reached, no queue entry is lost, and no other proposal changes. A proposal
  that is still active is treated as passed, and marked so, when the yes weight exceeds the no weight:
  the quorum is not asked for.
\<close>
theorem recovery_schedules:
  assumes "tables_wf db" "ids_ok db" "txn \<noteq> Block_txn"
    and "db' = recover_overdue_executions txn h db"
  shows "(\<forall>pid rec. get_proposal_record pid db = Some rec \<longrightarrow>
      get_proposal_record pid db' = Some (if recoverable h db (pid, rec) then mark_passed h True rec else rec)
      \<and> (recoverable h db (pid, rec) \<longrightarrow> (\<exists>eh \<le> h. (eh, pid) \<in> set (db_pending_executions db'))))
    \<and> set (db_pending_executions db) \<subseteq> set (db_pending_executions db')"
proof -
  define pend where "pend = snd ` set (get_pending_executions h db)"
  let ?items = "overdue_items h pend db"
  have pend: "pid \<in> pend \<longleftrightarrow> (\<exists>eh \<le> h. (eh, pid) \<in> set (db_pending_executions db))" for pid
    unfolding pend_def using pending_executions_iff [OF assms(1), of _ h] by force
  have "\<forall>(pid, eh, fx) \<in> set ?items. pid \<in> pend \<or> (eh, pid) \<notin> set (db_pending_executions db)"
    by (auto simp: overdue_items_iff [OF assms(1)] pend recoverable_def)
  from recover_loop_effect [OF assms(2) overdue_items_distinct [OF assms(1)] this, of h] obtain db2 where
    loop: "recover_loop h pend ?items db = True_in db2" and
    get: "\<And>k. get_proposal_record k db2 =
      map_option (\<lambda>rec. if \<exists>eh. (k, eh, True) \<in> set ?items then mark_passed h True rec else rec) (get_proposal_record k db)" and
    q: "set (db_pending_executions db2) =
      {(eh, pid). pid \<notin> pend \<and> (\<exists>fx. (pid, eh, fx) \<in> set ?items)} \<union> set (db_pending_executions db)"
    by blast
  have "db' = db2"
    using assms(3) loop unfolding assms(4) recover_overdue_executions_def Let_def pend_def [symmetric] overdue_scan
    by (auto simp: in_write_txn_def)
  moreover have "get_proposal_record pid db2 = Some (if recoverable h db (pid, rec) then mark_passed h True rec else rec)"
    if "get_proposal_record pid db = Some rec" for pid rec
    using that get [of pid]
    by (auto simp: overdue_items_iff [OF assms(1)] mark_passed_def open_record_def recoverable_def)
  moreover have "\<exists>eh \<le> h. (eh, pid) \<in> set (db_pending_executions db2)"
    if "get_proposal_record pid db = Some rec" "recoverable h db (pid, rec)" for pid rec
  proof (cases "pid \<in> pend")
    case True
    then show ?thesis by (auto simp: pend q)
  next
    case False
    let ?eh = "pr_voting_end_height rec + lifecycle_delay h db"
    have "(?eh, pid) \<in> set (db_pending_executions db2)"
      unfolding q using that False by (auto simp: overdue_items_iff [OF assms(1)])
    moreover have "?eh \<le> h" using that(2) by (simp add: recoverable_def)
    ultimately show ?thesis by blast
  qed
  ultimately show ?thesis by (simp add: q)
qed

section \<open>Witnesses\<close>

theorem ready_executions_exact_witness:
  "ex_proposal \<notin> set (get_ready_executions 5860 ex_db) \<and> ex_proposal \<in> set (get_ready_executions 5861 ex_db)
   \<and> process_parameter_execution sample_params 5860 ex_pid [] ex_db = Rejected"
proof -
  have ids: "ids_ok ex_db" by (simp add: ids_ok_def ex_db_def get_proposal_record_def ex_proposal_def)
  have "get_governance_parameter execution_delay_param h ex_db = 720" for h
    by (simp add: get_governance_parameter_def get_parameter_def ex_db_def empty_db_def)
  with ready_executions_exact [OF ex_db_wf(1) ids ex_db_wf(4), of 5860 sample_params "[]"]
    ready_executions_exact [OF ex_db_wf(1) ids ex_db_wf(4), of 5861 sample_params "[]"]
  show ?thesis by (simp add: ex_proposal_def)
qed

theorem recovery_schedules_witness:
  "get_proposal_record ex_pid (recover_overdue_executions No_txn 6000 (ex_due (Some ex_outcome))) =
     Some (ex_open\<lparr>pr_status := PROPOSAL_STATUS_PASSED, pr_status_height := 6000\<rparr>)"
proof -
  have "recoverable 6000 (ex_due (Some ex_outcome)) (ex_pid, ex_open)"
    using ex_due_facts(8) by (simp add: recoverable_def ex_due_facts ex_outcome_def open_record_def)
  with recovery_schedules [OF ex_due_facts(3,2), of No_txn _ 6000] show ?thesis
    by (simp add: ex_due_facts mark_passed_def)
qed

end
