(* ===== verification/Treasury_Flow.thy ===== *)
theory Treasury_Flow
  imports Proposals Execution_Queue "HOL-Library.Product_Lexorder" "HOL-Library.Multiset"
begin

text \<open>
  How coins enter and leave the treasury in \<^verbatim>\<open>src/src/cryptonote_core/blockchain.cpp\<close>: the execution
  transactions that a block template gets (\<^verbatim>\<open>build_execution_transaction\<close>), their validation
  (\<^verbatim>\<open>check_tx_inputs\<close>, \<^verbatim>\<open>validate_treasury_input\<close> and the checks for duplicates in
  \<^verbatim>\<open>handle_block_to_main_chain\<close>), what connecting a block does to the treasury, and what popping it does.

  The recipient of a grant is the argument \<open>payee\<close>, the one-time key that the address in the proposal and
  the hash of its id give; \<open>None\<close> stands for an address that does not parse or a failed derivation. The
  record \<open>deriver\<close> holds it with the other values derived from a proposal.
\<close>

section \<open>Inputs and outputs\<close>

definition treasury_ins :: "transaction \<Rightarrow> (hash32 \<times> u64) list" where
  "treasury_ins tx = concat (map (\<lambda>i. case i of txin_treasury pid oid \<Rightarrow> [(pid, oid)] | _ \<Rightarrow> []) (tx_vin tx))"

definition is_txout_treasury :: "txout_target \<Rightarrow> bool" where
  "is_txout_treasury t = (case t of txout_treasury _ \<Rightarrow> True | _ \<Rightarrow> False)"

definition treasury_outs :: "transaction \<Rightarrow> u64 list" where
  "treasury_outs tx = map fst (filter (is_txout_treasury \<circ> snd) (tx_vout tx))"

section \<open>Validation\<close>

definition validate_treasury_input :: "u64 \<Rightarrow> vns_db \<Rightarrow> hash32 \<times> u64 \<Rightarrow> bool" where
  "validate_treasury_input height db i =
     (case get_treasury_output (snd i) db of
        None \<Rightarrow> False
      | Some out \<Rightarrow>
          if to_spent out then False
          else case get_proposal_record (fst i) db of
            None \<Rightarrow> False
          | Some rec \<Rightarrow>
              pr_status rec = PROPOSAL_STATUS_PASSED \<and> \<not> height < pr_voting_end_height rec + 1)"

primrec input_total :: "vns_db \<Rightarrow> (hash32 \<times> u64) list \<Rightarrow> u64 \<Rightarrow> u64 option" where
  "input_total db [] total_in = Some total_in"
| "input_total db (i # is) total_in =
     (case get_treasury_output (snd i) db of
        None \<Rightarrow> None
      | Some out \<Rightarrow> input_total db is (total_in + to_amount out))"

definition output_key :: "txout_target \<Rightarrow> bytes option" where
  "output_key t = (case t of txout_to_key k \<Rightarrow> Some k | txout_to_tagged_key k _ \<Rightarrow> Some k | _ \<Rightarrow> None)"

text \<open>The first part of \<^verbatim>\<open>check_tx_inputs\<close>; \<open>block_height\<close> is zero for a transaction of the pool.\<close>

definition check_treasury_inputs ::
  "(proposal_record \<Rightarrow> bytes option) \<Rightarrow> u64 \<Rightarrow> u64 \<Rightarrow> transaction \<Rightarrow> vns_db \<Rightarrow> bool" where
  "check_treasury_inputs payee db_height block_height tx db =
     (let validation_height = (if 0 < block_height then block_height else db_height);
          ins = treasury_ins tx
      in if ins = [] then True
         else if \<not> list_all (validate_treasury_input validation_height db) ins then False
         else
           let pid = fst (hd ins) in
           if \<not> list_all (\<lambda>i. fst i = pid) ins then False
           else case get_proposal_record pid db of
             None \<Rightarrow> False
           | Some rec \<Rightarrow>
               (case input_total db ins 0 of
                  None \<Rightarrow> False
                | Some total_in \<Rightarrow>
                    (case tx_vout tx of
                       [] \<Rightarrow> False
                     | out # change \<Rightarrow>
                         if fst out \<noteq> pr_amount rec then False
                         else if \<not> list_all (is_txout_treasury \<circ> snd) change then False
                         else if total_in \<noteq> pr_amount rec + sum_list (map fst change) then False
                         else case payee rec of
                           None \<Rightarrow> False
                         | Some expected \<Rightarrow> output_key (snd out) = Some expected)))"

text \<open>
  \<^verbatim>\<open>ver_non_input_consensus_templated\<close> of \<^verbatim>\<open>tx_verification_utils.cpp\<close>: five kinds of transaction are
  exempt from the rules that do not depend on the inputs, among them the ones that spend treasury outputs. The
  rules themselves, from the size limit to the range proofs, are the argument \<open>standard\<close>.
\<close>

abbreviation (input) GO_tally_result :: u8 where "GO_tally_result \<equiv> 4"
abbreviation (input) GO_dkg_key_activation :: u8 where "GO_dkg_key_activation \<equiv> 5"
abbreviation (input) GO_node_ready :: u8 where "GO_node_ready \<equiv> 6"

definition exempt :: "transaction \<Rightarrow> bool" where
  "exempt tx =
     (case tx_vin tx of
        txin_vns_eligible _ _ _ _ _ # _ \<Rightarrow> True
      | txin_vns_vote _ _ _ _ # _ \<Rightarrow> True
      | txin_treasury _ _ # _ \<Rightarrow> True
      | [] \<Rightarrow>
          list_ex (\<lambda>out. snd out = txout_to_burn) (tx_vout tx)
          \<or> tx_vout tx = []
            \<and> (case parse_tx_extra (tx_extra tx) of
                 None \<Rightarrow> False
               | Some fs \<Rightarrow> list_ex (\<lambda>g. gpl_type g \<in> {GO_execution, GO_tally_result, GO_dkg_key_activation, GO_node_ready})
                   (governance_payloads fs))
      | _ \<Rightarrow> False)"

definition ver_non_input_consensus :: "(transaction list \<Rightarrow> bool) \<Rightarrow> transaction list \<Rightarrow> bool" where
  "ver_non_input_consensus standard txs =
     (case txs of [] \<Rightarrow> standard [] | tx # _ \<Rightarrow> if exempt tx then True else standard txs)"

text \<open>
  The checks of a block before it is added: no treasury output twice, no transaction for two proposals,
  no proposal twice.
\<close>

primrec dedup_inputs ::
  "(hash32 \<times> u64) list \<Rightarrow> u64 set \<Rightarrow> hash32 option \<Rightarrow> (u64 set \<times> hash32 option) option" where
  "dedup_inputs [] outs pid = Some (outs, pid)"
| "dedup_inputs (i # is) outs pid =
     (if snd i \<in> outs then None
      else if pid \<noteq> None \<and> Some (fst i) \<noteq> pid then None
      else dedup_inputs is (insert (snd i) outs) (Some (fst i)))"

primrec treasury_dedup :: "transaction list \<Rightarrow> u64 set \<Rightarrow> hash32 set \<Rightarrow> bool" where
  "treasury_dedup [] outs pids = True"
| "treasury_dedup (tx # txs) outs pids =
     (case dedup_inputs (treasury_ins tx) outs None of
        None \<Rightarrow> False
      | Some (outs, None) \<Rightarrow> treasury_dedup txs outs pids
      | Some (outs, Some pid) \<Rightarrow> pid \<notin> pids \<and> treasury_dedup txs outs (insert pid pids))"

section \<open>Building execution transactions\<close>

text \<open>The loop over the unspent outputs, with what it selects, the amount collected and the reservations.\<close>

primrec collect_outputs ::
  "u64 \<Rightarrow> treasury_output list \<Rightarrow> u64 set \<Rightarrow> u64 \<Rightarrow> treasury_output list \<times> u64 \<times> u64 set" where
  "collect_outputs amount [] reserved collected = ([], collected, reserved)"
| "collect_outputs amount (out # outs) reserved collected =
     (if to_output_id out \<in> reserved then collect_outputs amount outs reserved collected
      else
        let reserved = insert (to_output_id out) reserved;
            collected = collected + to_amount out
        in if amount \<le> collected then ([out], collected, reserved)
           else case collect_outputs amount outs reserved collected of
             (sel, collected, reserved) \<Rightarrow> (out # sel, collected, reserved))"

record deriver =
  dv_payee :: "proposal_record \<Rightarrow> bytes option"
  dv_tx_key :: "proposal_record \<Rightarrow> bytes"
  dv_view_tag :: "proposal_record \<Rightarrow> byte"

definition build_execution_transaction ::
  "deriver \<Rightarrow> proposal_record \<Rightarrow> nat \<Rightarrow> u64 set \<Rightarrow> vns_db \<Rightarrow> (transaction \<times> u64 set) option" where
  "build_execution_transaction dv rec hf_version reserved db =
     (if pr_type rec = 1 then
        Some (\<lparr>tx_version = 2, tx_vin = [], tx_vout = [],
          tx_extra = put_tx_extra_field (tx_extra_governance_payload
            \<lparr>gpl_type = GO_execution,
             gpl_data = put_execution_payload \<lparr>pex_version = 1, pex_proposal_id = pr_proposal_id rec\<rparr>\<rparr>)\<rparr>, reserved)
      else
        let sorted = sort_key (\<lambda>out. (to_height out, to_output_id out)) (get_unspent_treasury_outputs db) in
        case collect_outputs (pr_amount rec) sorted reserved 0 of
          (sel, collected, candidate_reserved) \<Rightarrow>
            if collected < pr_amount rec then None
            else case dv_payee dv rec of
              None \<Rightarrow> None
            | Some eph_key \<Rightarrow>
                Some (\<lparr>tx_version = 2,
                  tx_vin = map (\<lambda>out. txin_treasury (pr_proposal_id rec) (to_output_id out)) sel,
                  tx_vout = (pr_amount rec,
                      if 15 \<le> hf_version then txout_to_tagged_key eph_key (dv_view_tag dv rec) else txout_to_key eph_key)
                    # (if pr_amount rec < collected then [(collected - pr_amount rec, txout_treasury 0)] else []),
                  tx_extra = put_tx_extra_field (tx_extra_pub_key (dv_tx_key dv rec))\<rparr>, candidate_reserved))"

text \<open>The execution transactions of a block template; a proposal whose transaction cannot be built is skipped.\<close>

primrec template_loop ::
  "deriver \<Rightarrow> nat \<Rightarrow> vns_db \<Rightarrow> proposal_record list \<Rightarrow> u64 set \<Rightarrow> transaction list" where
  "template_loop dv hf_version db [] reserved = []"
| "template_loop dv hf_version db (rec # recs) reserved =
     (case build_execution_transaction dv rec hf_version reserved db of
        None \<Rightarrow> template_loop dv hf_version db recs reserved
      | Some (ex_tx, reserved) \<Rightarrow> ex_tx # template_loop dv hf_version db recs reserved)"

definition template_executions :: "deriver \<Rightarrow> u64 \<Rightarrow> nat \<Rightarrow> vns_db \<Rightarrow> transaction list" where
  "template_executions dv height hf_version db =
     (if 3 \<le> hf_version then template_loop dv hf_version db (get_ready_executions height db) {} else [])"

section \<open>Connecting a block\<close>

text \<open>An output that is stored and credited: of the miner's transaction, and a donation.\<close>

definition credit_output :: "u64 \<Rightarrow> u64 \<Rightarrow> vns_db \<Rightarrow> vns_db" where
  "credit_output height amount db =
     (let db = snd (add_treasury_output amount height db);
          bal = get_treasury_balance_in_txn db
      in set_treasury_balance_in_txn (bal + amount) db)"

definition credit_miner :: "u64 \<Rightarrow> transaction \<Rightarrow> vns_db \<Rightarrow> vns_db" where
  "credit_miner height miner_tx db = fold (credit_output height) (treasury_outs miner_tx) db"

text \<open>The loop over the inputs: the first proposal id and the database, or a return of false.\<close>

primrec spend_inputs ::
  "(hash32 \<times> u64) list \<Rightarrow> hash32 option \<times> vns_db \<Rightarrow> (hash32 option \<times> vns_db) step" where
  "spend_inputs [] s = True_in s"
| "spend_inputs (i # is) s =
     (if fst s \<noteq> None \<and> Some (fst i) \<noteq> fst s then False_in s
      else spend_inputs is
        (if fst s = None then Some (fst i) else fst s, mark_treasury_output_spent (snd i) True (snd s)))"

definition deduct_grant :: "u64 \<Rightarrow> hash32 \<Rightarrow> vns_db \<Rightarrow> vns_db step" where
  "deduct_grant height pid db =
     (case get_proposal_record_in_txn pid db of
        None \<Rightarrow> False_in db
      | Some rec \<Rightarrow>
          if pr_status rec \<noteq> PROPOSAL_STATUS_PASSED \<or> pr_executed rec then False_in db
          else
            let current_balance = get_treasury_balance_in_txn db;
                db = set_treasury_balance_in_txn (current_balance - pr_amount rec) db;
                db = add_proposal_execution_record
                  \<lparr>per_proposal_id = pid, per_execution_height = height, per_execution_tx_hash = null_hash,
                   per_pre_execution_status_height = pr_status_height rec\<rparr> db
            in True_in (add_proposal_record pid
                 (rec\<lparr>pr_status := PROPOSAL_STATUS_EXECUTED, pr_executed := True, pr_status_height := height\<rparr>) db))"

definition store_output :: "u64 \<Rightarrow> u64 \<Rightarrow> vns_db \<Rightarrow> vns_db" where
  "store_output height amount db = snd (add_treasury_output amount height db)"

definition execute_parameters ::
  "governance_params \<Rightarrow> bytes \<Rightarrow> u64 \<Rightarrow> transaction \<Rightarrow> vns_db \<Rightarrow> vns_db step" where
  "execute_parameters gp junk height tx db =
     (case is_parameter_execution_tx tx of
        None \<Rightarrow> True_in db
      | Some pid \<Rightarrow>
          (case process_parameter_execution gp height pid junk db of
             Threw \<Rightarrow> Threw_in db
           | Rejected \<Rightarrow> False_in db
           | Applied db \<Rightarrow> True_in db))"

text \<open>One round of the loop over the transactions: inputs, grant, outputs, and the execution of a policy.\<close>

definition treasury_tx ::
  "governance_params \<Rightarrow> bytes \<Rightarrow> u64 \<Rightarrow> transaction \<Rightarrow> vns_db \<Rightarrow> vns_db step" where
  "treasury_tx gp junk height tx db =
     (case spend_inputs (treasury_ins tx) (None, db) of
        Threw_in s \<Rightarrow> Threw_in (snd s)
      | False_in s \<Rightarrow> False_in (snd s)
      | True_in s \<Rightarrow>
          and_then (case fst s of None \<Rightarrow> True_in (snd s) | Some pid \<Rightarrow> deduct_grant height pid (snd s))
            (\<lambda>db. execute_parameters gp junk height tx (fold (store_output height) (treasury_outs tx) db)))"

primrec treasury_txs ::
  "governance_params \<Rightarrow> bytes \<Rightarrow> u64 \<Rightarrow> transaction list \<Rightarrow> vns_db \<Rightarrow> vns_db step" where
  "treasury_txs gp junk height [] db = True_in db"
| "treasury_txs gp junk height (tx # txs) db =
     and_then (treasury_tx gp junk height tx db) (treasury_txs gp junk height txs)"

definition is_execution :: "transaction \<Rightarrow> bool" where
  "is_execution tx = list_ex (\<lambda>i. case i of txin_treasury _ _ \<Rightarrow> True | _ \<Rightarrow> False) (tx_vin tx)"

definition credit_donations :: "u64 \<Rightarrow> transaction list \<Rightarrow> vns_db \<Rightarrow> vns_db" where
  "credit_donations height txs db =
     fold (\<lambda>tx db. if is_execution tx then db else fold (credit_output height) (treasury_outs tx) db) txs db"

definition connect_treasury ::
  "governance_params \<Rightarrow> bytes \<Rightarrow> u64 \<Rightarrow> transaction \<Rightarrow> transaction list \<Rightarrow> vns_db \<Rightarrow> vns_db step" where
  "connect_treasury gp junk height miner_tx txs db =
     and_then (treasury_txs gp junk height txs (credit_miner height miner_tx db))
       (\<lambda>db. True_in (credit_donations height txs db))"

section \<open>Popping a block\<close>

text \<open>The sum that the code computes, and does not use.\<close>

definition treasury_inflow :: "transaction \<Rightarrow> transaction list \<Rightarrow> u64" where
  "treasury_inflow miner_tx txs =
     sum_list (treasury_outs miner_tx)
     + sum_list (map (\<lambda>tx. if is_execution tx then 0 else sum_list (treasury_outs tx)) txs)"

definition restore_inputs :: "transaction list \<Rightarrow> vns_db \<Rightarrow> vns_db" where
  "restore_inputs txs db =
     fold (\<lambda>tx db. fold (\<lambda>i db. mark_treasury_output_spent (snd i) False db) (treasury_ins tx) db) txs db"

definition pop_treasury :: "u64 \<Rightarrow> u64 \<Rightarrow> transaction list \<Rightarrow> vns_db \<Rightarrow> vns_db" where
  "pop_treasury stray height txs db =
     restore_inputs txs (remove_treasury_outputs_by_height stray height db)"

section \<open>Built transactions\<close>

text \<open>Every output is stored under its own id.\<close>

definition outputs_ok :: "vns_db \<Rightarrow> bool" where
  "outputs_ok db \<longleftrightarrow> distinct (map fst (db_treasury_outputs db))
     \<and> (\<forall>e \<in> set (db_treasury_outputs db). to_output_id (snd e) = fst e)"

lemma unspent_output:
  assumes "outputs_ok db" "out \<in> set (get_unspent_treasury_outputs db)"
  shows "get_treasury_output (to_output_id out) db = Some out" "\<not> to_spent out"
proof -
  from assms(2) obtain k where "(k, out) \<in> set (db_treasury_outputs db)" "\<not> to_spent out"
    by (auto simp: get_unspent_treasury_outputs_def)
  with assms(1) show "get_treasury_output (to_output_id out) db = Some out" "\<not> to_spent out"
    by (auto simp: outputs_ok_def get_treasury_output_def)
qed

lemma collect_outputs_spec:
  assumes "collect_outputs amount outs reserved c = (sel, c', r')"
  shows "set sel \<subseteq> set outs" "r' = reserved \<union> to_output_id ` set sel" "to_output_id ` set sel \<inter> reserved = {}"
    "c' = c + sum_list (map to_amount sel)" "distinct (map to_output_id sel)"
proof -
  have "set sel \<subseteq> set outs \<and> r' = reserved \<union> to_output_id ` set sel \<and> to_output_id ` set sel \<inter> reserved = {}
      \<and> c' = c + sum_list (map to_amount sel) \<and> distinct (map to_output_id sel)"
    using assms
  proof (induction outs arbitrary: reserved c sel)
    case (Cons out outs)
    show ?case
    proof (cases "to_output_id out \<in> reserved \<or> amount \<le> c + to_amount out")
      case True
      with Cons.prems Cons.IH [of reserved c sel] show ?thesis
        by (auto simp: Let_def split: if_splits)
    next
      case False
      then obtain sel' where
        "collect_outputs amount outs (insert (to_output_id out) reserved) (c + to_amount out) = (sel', c', r')"
        "sel = out # sel'"
        using Cons.prems by (auto simp: Let_def split: prod.splits)
      with Cons.IH [OF this(1)] False show ?thesis by (auto simp: add.assoc)
    qed
  qed auto
  then show "set sel \<subseteq> set outs" "r' = reserved \<union> to_output_id ` set sel" "to_output_id ` set sel \<inter> reserved = {}"
    "c' = c + sum_list (map to_amount sel)" "distinct (map to_output_id sel)" by blast+
qed

lemma treasury_ins_map: "tx_vin tx = map (\<lambda>out. txin_treasury pid (to_output_id out)) sel \<Longrightarrow>
  treasury_ins tx = map (\<lambda>out. (pid, to_output_id out)) sel"
  by (simp add: treasury_ins_def o_def)

text \<open>What a built transaction spends and pays.\<close>

lemma built_transaction:
  assumes "build_execution_transaction dv rec hf reserved db = Some (tx, r')"
  obtains sel where "treasury_ins tx = map (\<lambda>out. (pr_proposal_id rec, to_output_id out)) sel"
    "set sel \<subseteq> set (get_unspent_treasury_outputs db)" "distinct (map to_output_id sel)"
    "to_output_id ` set sel \<inter> reserved = {}" "r' = reserved \<union> to_output_id ` set sel"
    "sel \<noteq> [] \<Longrightarrow> \<exists>key t. dv_payee dv rec = Some key \<and> output_key t = Some key \<and> pr_amount rec \<le> sum_list (map to_amount sel)
       \<and> tx_vout tx = (pr_amount rec, t) #
           (if pr_amount rec < sum_list (map to_amount sel)
            then [(sum_list (map to_amount sel) - pr_amount rec, txout_treasury 0)] else [])"
proof (cases "pr_type rec = 1")
  case True
  with assms show ?thesis
    by (intro that [of "[]"]) (auto simp: build_execution_transaction_def treasury_ins_def)
next
  case False
  let ?outs = "sort_key (\<lambda>out. (to_height out, to_output_id out)) (get_unspent_treasury_outputs db)"
  obtain sel c where col: "collect_outputs (pr_amount rec) ?outs reserved 0 = (sel, c, r')" and "pr_amount rec \<le> c"
    and tx: "tx_vin tx = map (\<lambda>out. txin_treasury (pr_proposal_id rec) (to_output_id out)) sel"
    "\<exists>key. dv_payee dv rec = Some key \<and> tx_vout tx =
      (pr_amount rec, if 15 \<le> hf then txout_to_tagged_key key (dv_view_tag dv rec) else txout_to_key key)
      # (if pr_amount rec < c then [(c - pr_amount rec, txout_treasury 0)] else [])"
    using False assms
    by (auto simp: build_execution_transaction_def not_less Let_def split: prod.splits if_splits option.splits)
  note spec = collect_outputs_spec [OF col]
  have "output_key (if 15 \<le> hf then txout_to_tagged_key key (dv_view_tag dv rec) else txout_to_key key) = Some key" for key
    by (simp add: output_key_def)
  with tx(2) \<open>pr_amount rec \<le> c\<close> spec(4)
  have "\<exists>key t. dv_payee dv rec = Some key \<and> output_key t = Some key \<and> pr_amount rec \<le> sum_list (map to_amount sel)
      \<and> tx_vout tx = (pr_amount rec, t) # (if pr_amount rec < sum_list (map to_amount sel)
            then [(sum_list (map to_amount sel) - pr_amount rec, txout_treasury 0)] else [])"
    by auto
  with spec treasury_ins_map [OF tx(1)] show ?thesis by (intro that [of sel]) auto
qed

lemma input_total_selected:
  assumes "outputs_ok db" "set sel \<subseteq> set (get_unspent_treasury_outputs db)"
  shows "input_total db (map (\<lambda>out. (pid, to_output_id out)) sel) c = Some (c + sum_list (map to_amount sel))"
  using assms(2) by (induction sel arbitrary: c) (simp_all add: unspent_output [OF assms(1)] add.assoc)

lemma built_accepted:
  assumes "build_execution_transaction dv rec hf reserved db = Some (tx, r')" "outputs_ok db"
    and "get_proposal_record (pr_proposal_id rec) db = Some rec" "pr_status rec = PROPOSAL_STATUS_PASSED"
    and "pr_voting_end_height rec + 1 \<le> height" "0 < height"
  shows "check_treasury_inputs (dv_payee dv) db_height height tx db"
proof -
  from built_transaction [OF assms(1)] obtain sel where
    ins: "treasury_ins tx = map (\<lambda>out. (pr_proposal_id rec, to_output_id out)) sel"
    and sel: "set sel \<subseteq> set (get_unspent_treasury_outputs db)"
    and pay: "sel \<noteq> [] \<Longrightarrow> \<exists>key t. dv_payee dv rec = Some key \<and> output_key t = Some key \<and> pr_amount rec \<le> sum_list (map to_amount sel)
       \<and> tx_vout tx = (pr_amount rec, t) # (if pr_amount rec < sum_list (map to_amount sel)
            then [(sum_list (map to_amount sel) - pr_amount rec, txout_treasury 0)] else [])" by metis
  show ?thesis
  proof (cases "sel = []")
    case False
    have "list_all (validate_treasury_input height db) (treasury_ins tx)"
      using sel assms(3-5) unspent_output [OF assms(2)]
      by (auto simp: ins list_all_iff validate_treasury_input_def not_less)
    moreover have "fst (hd (treasury_ins tx)) = pr_proposal_id rec" using False by (cases sel) (simp_all add: ins)
    moreover have "input_total db (treasury_ins tx) 0 = Some (sum_list (map to_amount sel))"
      using input_total_selected [OF assms(2) sel, of _ 0] by (simp add: ins)
    ultimately show ?thesis
      using pay [OF False] False assms(3,6)
      by (auto simp: check_treasury_inputs_def ins list_all_iff is_txout_treasury_def)
  qed (simp add: check_treasury_inputs_def ins)
qed

lemma check_cases:
  assumes "check_treasury_inputs payee db_height height tx db" "treasury_ins tx \<noteq> []"
  obtains pid rec total out change where
    "list_all (validate_treasury_input (if 0 < height then height else db_height) db) (treasury_ins tx)"
    "pid = fst (hd (treasury_ins tx))" "list_all (\<lambda>i. fst i = pid) (treasury_ins tx)"
    "get_proposal_record pid db = Some rec" "input_total db (treasury_ins tx) 0 = Some total"
    "tx_vout tx = out # change" "fst out = pr_amount rec" "list_all (is_txout_treasury \<circ> snd) change"
    "total = pr_amount rec + sum_list (map fst change)" "payee rec \<noteq> None" "output_key (snd out) = payee rec"
  using assms that
  by (auto simp: check_treasury_inputs_def Let_def split: if_split_asm option.split_asm list.split_asm)

lemma validated_inputs:
  assumes "list_all (validate_treasury_input height db) is"
  shows "\<exists>ins. map (\<lambda>i. get_treasury_output (snd i) db) is = map Some ins \<and> (\<forall>x \<in> set ins. \<not> to_spent x)
    \<and> (\<forall>c. input_total db is c = Some (c + sum_list (map to_amount ins)))"
  using assms
proof (induction "is")
  case (Cons i "is")
  then obtain ins where ins: "map (\<lambda>i. get_treasury_output (snd i) db) is = map Some ins" "\<forall>x \<in> set ins. \<not> to_spent x"
    "\<forall>c. input_total db is c = Some (c + sum_list (map to_amount ins))" by auto
  moreover obtain out where "get_treasury_output (snd i) db = Some out" "\<not> to_spent out"
    using Cons.prems by (auto simp: validate_treasury_input_def split: option.splits if_splits)
  ultimately show ?case by (intro exI [of _ "out # ins"]) (simp add: add.assoc)
qed simp

lemma unat_sum_list: "(\<Sum>x\<leftarrow>xs. unat (f x)) < 2 ^ 64 \<Longrightarrow> unat (\<Sum>x\<leftarrow>xs. f x :: u64) = (\<Sum>x\<leftarrow>xs. unat (f x))"
  by (induction xs) (simp_all add: unat_word_ariths)

lemma dedup_inputs_same:
  assumes "distinct (map to_output_id sel)" "to_output_id ` set sel \<inter> outs = {}" "p = None \<or> p = Some pid"
  shows "dedup_inputs (map (\<lambda>out. (pid, to_output_id out)) sel) outs p =
    Some (outs \<union> to_output_id ` set sel, if sel = [] then p else Some pid)"
  using assms by (induction sel arbitrary: outs p) auto

lemma template_dedup:
  assumes "distinct (map pr_proposal_id recs)" "outs \<subseteq> reserved" "pids \<inter> pr_proposal_id ` set recs = {}"
  shows "treasury_dedup (template_loop dv hf db recs reserved) outs pids"
  using assms
proof (induction recs arbitrary: reserved outs pids)
  case (Cons rec recs)
  show ?case
  proof (cases "build_execution_transaction dv rec hf reserved db")
    case (Some b)
    then obtain tx r' where b: "build_execution_transaction dv rec hf reserved db = Some (tx, r')" by (cases b) simp
    show ?thesis
    proof (rule built_transaction [OF b])
      fix sel
      assume ins: "treasury_ins tx = map (\<lambda>out. (pr_proposal_id rec, to_output_id out)) sel"
        and d: "distinct (map to_output_id sel)" "to_output_id ` set sel \<inter> reserved = {}"
          "r' = reserved \<union> to_output_id ` set sel"
      have "dedup_inputs (treasury_ins tx) outs None =
          Some (outs \<union> to_output_id ` set sel, if sel = [] then None else Some (pr_proposal_id rec))"
        unfolding ins using d Cons.prems(2) by (intro dedup_inputs_same) auto
      moreover have "treasury_dedup (template_loop dv hf db recs r') (outs \<union> to_output_id ` set sel) pids'"
        if "pids' \<inter> pr_proposal_id ` set recs = {}" for pids'
        using Cons.prems(1,2) d(3) that by (intro Cons.IH) auto
      moreover have "pids \<inter> pr_proposal_id ` set recs = {}" "insert (pr_proposal_id rec) pids \<inter> pr_proposal_id ` set recs = {}"
        using Cons.prems(1,3) by auto
      ultimately show ?thesis using Cons.prems(3) by (simp add: b)
    qed
  next
    case None
    with Cons show ?thesis by simp
  qed
qed simp

section \<open>What connecting a block does to proposals and balance\<close>

lemma execute_payload_frame:
  assumes "execute_payload gp height rec junk blob db = Applied db'"
  shows "db_proposals db' = db_proposals db" "db_treasury_balance db' = db_treasury_balance db"
    "db_treasury_outputs db' = db_treasury_outputs db" "db_treasury_counter db' = db_treasury_counter db"
  using assms
  by (auto simp: execute_payload_def execute_fee_update_def execute_extension_update_def execute_premium_update_def
      execute_label_ban_update_def execute_extension_ban_update_def execute_domain_tier_update_def
      execute_domain_ban_update_def Let_def split: if_splits option.splits prod.splits)

lemma put_output_frame [simp]:
  "db_proposals (put_treasury_output k out db) = db_proposals db"
  "db_treasury_balance (put_treasury_output k out db) = db_treasury_balance db"
  "db_treasury_counter (put_treasury_output k out db) = db_treasury_counter db"
  by (simp_all add: put_treasury_output_def)

lemma store_output_frame [simp]:
  "db_proposals (store_output h a db) = db_proposals db" "db_treasury_balance (store_output h a db) = db_treasury_balance db"
  by (simp_all add: store_output_def add_treasury_output_def Let_def)

lemma mark_spent_frame [simp]:
  "db_proposals (mark_treasury_output_spent k b db) = db_proposals db"
  "db_treasury_balance (mark_treasury_output_spent k b db) = db_treasury_balance db"
  "db_treasury_counter (mark_treasury_output_spent k b db) = db_treasury_counter db"
  by (simp_all add: mark_treasury_output_spent_def split: option.split)

lemma fold_store_frame [simp]:
  "db_proposals (fold (store_output h) as db) = db_proposals db"
  "db_treasury_balance (fold (store_output h) as db) = db_treasury_balance db"
  by (induction as arbitrary: db) simp_all

lemma credit_output_eq: "credit_output h a db = set_treasury_balance (get_treasury_balance db + a) (store_output h a db)"
  by (simp add: credit_output_def store_output_def get_treasury_balance_in_txn_def get_treasury_balance_def
      set_treasury_balance_in_txn_def set_treasury_balance_def add_treasury_output_def put_treasury_output_def Let_def)

lemma set_balance [simp]:
  "get_treasury_balance (set_treasury_balance b db) = b" "db_proposals (set_treasury_balance b db) = db_proposals db"
  by (simp_all add: get_treasury_balance_def set_treasury_balance_def)

lemma fold_credit:
  "get_treasury_balance (fold (credit_output h) as db) = get_treasury_balance db + sum_list as"
  "db_proposals (fold (credit_output h) as db) = db_proposals db"
  by (induction as arbitrary: db) (simp_all add: credit_output_eq add.assoc)

lemma balance_cong: "db_treasury_balance db' = db_treasury_balance db \<Longrightarrow> get_treasury_balance db' = get_treasury_balance db"
  by (simp add: get_treasury_balance_def)

lemma is_execution_iff: "is_execution tx \<longleftrightarrow> treasury_ins tx \<noteq> []"
proof -
  have "list_ex (\<lambda>i. case i of txin_treasury _ _ \<Rightarrow> True | _ \<Rightarrow> False) is \<longleftrightarrow>
      concat (map (\<lambda>i. case i of txin_treasury pid oid \<Rightarrow> [(pid, oid)] | _ \<Rightarrow> []) is) \<noteq> []" for "is"
    by (induction "is") (auto split: txin.splits)
  then show ?thesis by (simp add: is_execution_def treasury_ins_def)
qed

lemma spend_inputs_effect:
  assumes "spend_inputs is s = True_in s'" "fst s = None \<or> fst s = Some p" "\<forall>i \<in> set (take 1 is). fst s = None \<longrightarrow> fst i = p"
  shows "fst s' = (if is = [] then fst s else Some p)" "\<forall>i \<in> set is. fst i = p"
    "db_proposals (snd s') = db_proposals (snd s)" "db_treasury_balance (snd s') = db_treasury_balance (snd s)"
proof -
  have "fst s' = (if is = [] then fst s else Some p) \<and> (\<forall>i \<in> set is. fst i = p)
      \<and> db_proposals (snd s') = db_proposals (snd s) \<and> db_treasury_balance (snd s') = db_treasury_balance (snd s)"
    using assms
  proof (induction "is" arbitrary: s)
    case (Cons i "is")
    let ?s = "(Some p, mark_treasury_output_spent (snd i) True (snd s))"
    from Cons.prems have "fst i = p" "spend_inputs is ?s = True_in s'" by (auto split: if_splits)
    with Cons.IH [OF this(2)] show ?case by (auto split: if_splits)
  qed simp
  then show "fst s' = (if is = [] then fst s else Some p)" "\<forall>i \<in> set is. fst i = p"
    "db_proposals (snd s') = db_proposals (snd s)" "db_treasury_balance (snd s') = db_treasury_balance (snd s)" by blast+
qed

text \<open>The proposals that a transaction executes, and the record that an execution leaves.\<close>

definition executes :: "transaction \<Rightarrow> hash32 \<Rightarrow> bool" where
  "executes tx k \<longleftrightarrow> k \<in> fst ` set (treasury_ins tx) \<or> is_parameter_execution_tx tx = Some k"

definition executed_at :: "u64 \<Rightarrow> proposal_record \<Rightarrow> proposal_record" where
  "executed_at height rec = rec\<lparr>pr_status := PROPOSAL_STATUS_EXECUTED, pr_executed := True, pr_status_height := height\<rparr>"

definition granted :: "vns_db \<Rightarrow> transaction \<Rightarrow> u64" where
  "granted db tx =
     (case treasury_ins tx of
        [] \<Rightarrow> 0
      | i # _ \<Rightarrow> (case get_proposal_record (fst i) db of None \<Rightarrow> 0 | Some rec \<Rightarrow> pr_amount rec))"

definition executable :: "vns_db \<Rightarrow> hash32 \<Rightarrow> bool" where
  "executable db k \<longleftrightarrow>
     (\<exists>rec. get_proposal_record k db = Some rec \<and> pr_status rec = PROPOSAL_STATUS_PASSED \<and> \<not> pr_executed rec)"

lemma get_proposal_same [simp]:
  "get_proposal_record k (set_treasury_balance_in_txn b db) = get_proposal_record k db"
  "db_treasury_balance (set_treasury_balance_in_txn b db) = Some b"
  "db_treasury_balance (add_proposal_execution_record r db) = db_treasury_balance db"
  "db_treasury_balance (add_proposal_record k rec db) = db_treasury_balance db"
  by (simp_all add: get_proposal_record_def set_treasury_balance_in_txn_def add_proposal_execution_record_def
      add_proposal_record_def)

lemma deduct_effect:
  assumes "deduct_grant height pid db = True_in db'"
  shows "executable db pid"
    "get_proposal_record k db' = (if k = pid then map_option (executed_at height) (get_proposal_record k db)
       else get_proposal_record k db)"
    "get_proposal_record pid db = Some rec \<Longrightarrow> get_treasury_balance db' = get_treasury_balance db - pr_amount rec"
  using assms
  by (auto simp: deduct_grant_def Let_def executable_def executed_at_def get_proposal_record_in_txn_def
      get_proposal_record_def [symmetric] get_treasury_balance_def get_treasury_balance_in_txn_def
      split: option.splits if_splits)

lemma parameters_effect:
  assumes "execute_parameters gp junk height tx db = True_in db'" "ids_ok db"
  shows "is_parameter_execution_tx tx = Some pid \<Longrightarrow> executable db pid"
    "get_proposal_record k db' = (if is_parameter_execution_tx tx = Some k
       then map_option (executed_at height) (get_proposal_record k db) else get_proposal_record k db)"
    "get_treasury_balance db' = get_treasury_balance db"
proof -
  have "(\<forall>pid. is_parameter_execution_tx tx = Some pid \<longrightarrow> executable db pid)
      \<and> get_proposal_record k db' = (if is_parameter_execution_tx tx = Some k
           then map_option (executed_at height) (get_proposal_record k db) else get_proposal_record k db)
      \<and> get_treasury_balance db' = get_treasury_balance db"
  proof (cases "is_parameter_execution_tx tx")
    case None
    with assms(1) show ?thesis by (simp add: execute_parameters_def)
  next
    case (Some pid)
    with assms(1) have "process_parameter_execution gp height pid junk db = Applied db'"
      by (auto simp: execute_parameters_def split: exec_result.splits)
    then obtain rec blob db1 where rec: "get_proposal_record pid db = Some rec" "pr_status rec = PROPOSAL_STATUS_PASSED"
      "\<not> pr_executed rec" and ex: "execute_payload gp height rec junk blob db = Applied db1"
      and db': "db' = mark_executed height rec db1"
      by (rule execution_cases)
    have id: "pr_proposal_id rec = pid" by (rule ids_okD [OF assms(2) rec(1)])
    note fr = execute_payload_frame [OF ex]
    have "get_proposal_record k db' = (if k = pid then Some (executed_at height rec) else get_proposal_record k db)"
      using get_proposal_cong [OF fr(1)] by (simp add: db' mark_executed_def id executed_at_def)
    moreover have "get_treasury_balance db' = get_treasury_balance db"
      using fr(2) by (intro balance_cong) (simp add: db' mark_executed_def)
    ultimately show ?thesis using Some rec by (auto simp: executable_def)
  qed
  then show "is_parameter_execution_tx tx = Some pid \<Longrightarrow> executable db pid"
    "get_proposal_record k db' = (if is_parameter_execution_tx tx = Some k
       then map_option (executed_at height) (get_proposal_record k db) else get_proposal_record k db)"
    "get_treasury_balance db' = get_treasury_balance db" by blast+
qed

lemma ids_ok_executed:
  assumes "ids_ok db" "\<And>k. get_proposal_record k db' = (if P k then map_option (executed_at h) (get_proposal_record k db)
    else get_proposal_record k db)"
  shows "ids_ok db'"
  using assms by (auto simp: ids_ok_def executed_at_def)

lemma ids_ok_cong: "db_proposals db' = db_proposals db \<Longrightarrow> ids_ok db' = ids_ok db"
  by (simp add: ids_ok_def get_proposal_record_def)

lemma grant_effect:
  assumes "spend_inputs (treasury_ins tx) (None, db) = True_in s"
    and "(case fst s of None \<Rightarrow> True_in (snd s) | Some pid \<Rightarrow> deduct_grant height pid (snd s)) = True_in db1"
  shows "k \<in> fst ` set (treasury_ins tx) \<Longrightarrow> executable db k"
    "get_proposal_record k db1 = (if k \<in> fst ` set (treasury_ins tx)
       then map_option (executed_at height) (get_proposal_record k db) else get_proposal_record k db)"
    "get_treasury_balance db1 = get_treasury_balance db - granted db tx"
proof -
  have "(k \<in> fst ` set (treasury_ins tx) \<longrightarrow> executable db k)
    \<and> get_proposal_record k db1 = (if k \<in> fst ` set (treasury_ins tx)
       then map_option (executed_at height) (get_proposal_record k db) else get_proposal_record k db)
    \<and> get_treasury_balance db1 = get_treasury_balance db - granted db tx"
  proof (cases "treasury_ins tx")
    case Nil
    with assms show ?thesis by (auto simp: granted_def)
  next
    case (Cons i "is")
    have "fst (None :: hash32 option, db) = None \<or> fst (None :: hash32 option, db) = Some (fst i)"
      "\<forall>j \<in> set (take 1 (treasury_ins tx)). fst (None :: hash32 option, db) = None \<longrightarrow> fst j = fst i"
      by (simp_all add: Cons)
    note eff = spend_inputs_effect [OF assms(1) this]
    have s: "fst s = Some (fst i)" "db_proposals (snd s) = db_proposals db"
      "get_treasury_balance (snd s) = get_treasury_balance db"
      using eff(1,3) balance_cong [OF eff(4)] Cons by simp_all
    have d: "deduct_grant height (fst i) (snd s) = True_in db1" using assms(2) s(1) by simp
    note get = get_proposal_cong [OF s(2)]
    obtain rec where rec: "get_proposal_record (fst i) db = Some rec" "pr_status rec = PROPOSAL_STATUS_PASSED" "\<not> pr_executed rec"
      using deduct_effect(1) [OF d] by (auto simp: executable_def get)
    have ins: "fst ` set (treasury_ins tx) = {fst i}" using eff(2) unfolding Cons by auto
    moreover have "granted db tx = pr_amount rec" by (simp add: granted_def Cons rec)
    moreover have "get_treasury_balance db1 = get_treasury_balance db - pr_amount rec"
      using deduct_effect(3) [OF d, of rec] rec(1) by (simp add: get s(3))
    ultimately show ?thesis
      using deduct_effect(2) [OF d, of k] rec by (simp add: get executable_def)
  qed
  then show "k \<in> fst ` set (treasury_ins tx) \<Longrightarrow> executable db k"
    "get_proposal_record k db1 = (if k \<in> fst ` set (treasury_ins tx)
       then map_option (executed_at height) (get_proposal_record k db) else get_proposal_record k db)"
    "get_treasury_balance db1 = get_treasury_balance db - granted db tx" by blast+
qed

lemma parameter_execution_no_inputs: "is_parameter_execution_tx tx = Some k \<Longrightarrow> treasury_ins tx = []"
  by (simp add: is_parameter_execution_tx_def treasury_ins_def split: if_splits)

lemma treasury_tx_effect:
  assumes "treasury_tx gp junk height tx db = True_in db'" "ids_ok db"
  shows "executes tx k \<Longrightarrow> executable db k"
    "get_proposal_record k db' = (if executes tx k then map_option (executed_at height) (get_proposal_record k db)
       else get_proposal_record k db)"
    "get_treasury_balance db' = get_treasury_balance db - granted db tx"
proof -
  obtain s where s: "spend_inputs (treasury_ins tx) (None, db) = True_in s"
    using assms(1) by (auto simp: treasury_tx_def split: step.splits)
  then obtain db1 where d: "(case fst s of None \<Rightarrow> True_in (snd s) | Some pid \<Rightarrow> deduct_grant height pid (snd s)) = True_in db1"
    and p: "execute_parameters gp junk height tx (fold (store_output height) (treasury_outs tx) db1) = True_in db'"
    using assms(1)
    by (cases "case fst s of None \<Rightarrow> True_in (snd s) | Some pid \<Rightarrow> deduct_grant height pid (snd s)")
      (auto simp: treasury_tx_def)
  let ?db2 = "fold (store_output height) (treasury_outs tx) db1"
  note g = grant_effect [OF s d]
  have get2: "get_proposal_record k ?db2 = get_proposal_record k db1" for k
    by (simp add: get_proposal_record_def)
  have "ids_ok ?db2"
    using ids_ok_executed [OF assms(2) g(2)] ids_ok_cong [of ?db2 db1] by simp
  note e = parameters_effect [OF p this]
  have param: "executable ?db2 k = executable db k" if "is_parameter_execution_tx tx = Some k'" for k k'
    using parameter_execution_no_inputs [OF that] g(2) [of k] by (simp add: executable_def get2)
  show "executes tx k \<Longrightarrow> executable db k"
    using g(1) e(1) param by (auto simp: executes_def)
  show "get_proposal_record k db' = (if executes tx k then map_option (executed_at height) (get_proposal_record k db)
       else get_proposal_record k db)"
    using e(2) [of k] g(2) [of k] parameter_execution_no_inputs [of tx k] by (auto simp: executes_def get2)
  show "get_treasury_balance db' = get_treasury_balance db - granted db tx"
    using e(3) g(3) balance_cong [of ?db2 db1] by simp
qed

text \<open>A loop that succeeds executes each proposal once, since an executed one is not executable any more.\<close>

lemma treasury_txs_effect:
  assumes "treasury_txs gp junk height txs db = True_in db'" "ids_ok db"
  shows "ids_ok db' \<and> (\<forall>k. (\<exists>tx \<in> set txs. executes tx k) \<longrightarrow> executable db k)
    \<and> (\<forall>k. get_proposal_record k db' =
         (if \<exists>tx \<in> set txs. executes tx k then map_option (executed_at height) (get_proposal_record k db)
          else get_proposal_record k db))
    \<and> get_treasury_balance db' = get_treasury_balance db - sum_list (map (granted db) txs)"
  using assms
proof (induction txs arbitrary: db)
  case (Cons tx txs)
  then obtain db1 where t: "treasury_tx gp junk height tx db = True_in db1"
    and rest: "treasury_txs gp junk height txs db1 = True_in db'"
    by (cases "treasury_tx gp junk height tx db") auto
  note e = treasury_tx_effect [OF t Cons.prems(2)]
  have ok: "ids_ok db1" by (rule ids_ok_executed [OF Cons.prems(2) e(2)])
  note IH = Cons.IH [OF rest ok]
  have "executable db1 k \<Longrightarrow> executable db k \<and> \<not> executes tx k" for k
    using e(2) [of k] by (auto simp: executable_def executed_at_def split: if_splits)
  moreover have "granted db1 t = granted db t" for t
    using e(2) by (auto simp: granted_def executed_at_def split: list.split option.split)
  ultimately show ?case using IH e by (auto simp: diff_diff_eq)
qed simp

section \<open>What connecting a block does to the stored outputs\<close>

definition stored_amounts :: "vns_db \<Rightarrow> u64 multiset" where
  "stored_amounts db = image_mset (to_amount \<circ> snd) (mset (db_treasury_outputs db))"

definition last_output :: "vns_db \<Rightarrow> nat" where
  "last_output db = (case db_treasury_counter db of None \<Rightarrow> 0 | Some c \<Rightarrow> unat c)"

text \<open>The counter is above all ids in use and there is room for \<open>n\<close> more.\<close>

definition room_for :: "nat \<Rightarrow> vns_db \<Rightarrow> bool" where
  "room_for n db \<longleftrightarrow> outputs_ok db \<and> last_output db + n < 2 ^ 64
     \<and> (\<forall>e \<in> set (db_treasury_outputs db). unat (fst e) \<le> last_output db)"

text \<open>From \<open>db\<close> to \<open>db'\<close> outputs with the amounts \<open>A\<close> are stored and none is removed.\<close>

definition stores :: "u64 multiset \<Rightarrow> vns_db \<Rightarrow> vns_db \<Rightarrow> bool" where
  "stores A db db' \<longleftrightarrow> (\<forall>n. room_for (size A + n) db \<longrightarrow>
     room_for n db' \<and> stored_amounts db' = stored_amounts db + A)"

lemma stores_trans: "stores A db db1 \<Longrightarrow> stores B db1 db2 \<Longrightarrow> stores (A + B) db db2"
  unfolding stores_def by (metis add.assoc size_union)

lemma stores_same:
  "db_treasury_outputs db' = db_treasury_outputs db \<Longrightarrow> db_treasury_counter db' = db_treasury_counter db \<Longrightarrow> stores {#} db db'"
  by (simp add: stores_def room_for_def outputs_ok_def last_output_def stored_amounts_def)

lemma mset_insort_key [simp]: "mset (insort_key f x xs) = add_mset x (mset xs)"
  by (induction xs) auto

lemma mset_split_key:
  "distinct (map fst xs) \<Longrightarrow> (k, v) \<in> set xs \<Longrightarrow> mset xs = add_mset (k, v) (mset (filter (\<lambda>e. fst e \<noteq> k) xs))"
proof (induction xs)
  case (Cons e xs)
  show ?case
  proof (cases "e = (k, v)")
    case True
    then have "filter (\<lambda>e. fst e \<noteq> k) xs = xs" using Cons.prems(1) by (intro filter_True) force
    with True show ?thesis by (simp only: filter.simps mset.simps) simp
  next
    case False
    then have "(k, v) \<in> set xs" using Cons.prems(2) by simp
    then have "k \<in> fst ` set xs" by force
    then have "fst e \<noteq> k" using Cons.prems(1) by auto
    with False show ?thesis using Cons by (simp del: mset_filter)
  qed
qed simp

lemma put_output_ok:
  assumes "outputs_ok db" "to_output_id out = k"
  shows "outputs_ok (put_treasury_output k out db)"
proof -
  let ?t = "filter (\<lambda>e. fst e \<noteq> k) (db_treasury_outputs db)"
  have "mset (map fst (insort_key id_place (k, out) ?t)) = add_mset k (mset (map fst ?t))"
    by (simp add: mset_map del: mset_map [symmetric])
  then have "distinct (map fst (insort_key id_place (k, out) ?t)) \<longleftrightarrow> distinct (k # map fst ?t)"
    by (metis mset.simps(2) mset_eq_imp_distinct_iff)
  moreover have "distinct (k # map fst ?t)" using assms(1) by (auto simp: outputs_ok_def distinct_map_filter)
  ultimately show ?thesis
    using assms by (auto simp: outputs_ok_def put_treasury_output_def set_insort_key)
qed

lemma put_output_set:
  "set (db_treasury_outputs (put_treasury_output k out db)) = insert (k, out) {e \<in> set (db_treasury_outputs db). fst e \<noteq> k}"
  by (simp add: put_treasury_output_def set_insort_key)

lemma stores_store_output: "stores {#a#} db (store_output h a db)"
  unfolding stores_def
proof (intro allI impI)
  fix n
  assume r: "room_for (size {#a#} + n) db"
  define c where "c = (case db_treasury_counter db of None \<Rightarrow> 0 | Some c \<Rightarrow> c) + (1 :: u64)"
  have c: "unat c = last_output db + 1"
    using r by (auto simp: c_def room_for_def last_output_def unat_word_ariths split: option.splits)
  let ?out = "\<lparr>to_output_id = c, to_amount = a, to_height = h, to_spent = False\<rparr>"
  let ?db = "db\<lparr>db_treasury_counter := Some c\<rparr>"
  have s: "store_output h a db = put_treasury_output c ?out ?db"
    by (simp add: store_output_def add_treasury_output_def c_def Let_def)
  have new: "\<forall>e \<in> set (db_treasury_outputs db). fst e \<noteq> c" using r c by (force simp: room_for_def)
  have "outputs_ok (store_output h a db)"
    unfolding s using r by (intro put_output_ok) (simp_all add: room_for_def outputs_ok_def)
  moreover have "last_output (store_output h a db) = last_output db + 1" by (simp add: s last_output_def c)
  moreover have "stored_amounts (store_output h a db) = add_mset a (stored_amounts db)"
    using new by (simp add: s stored_amounts_def put_treasury_output_def filter_True)
  ultimately show "room_for n (store_output h a db) \<and> stored_amounts (store_output h a db) = stored_amounts db + {#a#}"
    using r c by (auto simp: room_for_def s put_output_set)
qed

lemma stores_mark: "stores {#} db (mark_treasury_output_spent k b db)"
proof (cases "get_treasury_output k db")
  case (Some out)
  let ?db' = "put_treasury_output k (out\<lparr>to_spent := b\<rparr>) db"
  {
    fix n assume r: "room_for n db"
    have k: "(k, out) \<in> set (db_treasury_outputs db)" using Some by (simp add: get_treasury_output_def map_of_SomeD)
    have d: "distinct (map fst (db_treasury_outputs db))" using r by (simp add: room_for_def outputs_ok_def)
    have "stored_amounts ?db' = stored_amounts db"
      unfolding stored_amounts_def mset_split_key [OF d k] by (simp add: put_treasury_output_def)
    moreover have "outputs_ok ?db'"
      using r k by (intro put_output_ok) (auto simp: room_for_def outputs_ok_def)
    ultimately have "room_for n ?db' \<and> stored_amounts ?db' = stored_amounts db"
      using r k by (auto simp: room_for_def put_output_set last_output_def)
  }
  with Some show ?thesis by (simp add: stores_def mark_treasury_output_spent_def)
qed (simp add: stores_same mark_treasury_output_spent_def)

lemma stores_fold:
  assumes "\<And>x db. stores (A x) db (f x db)"
  shows "stores (\<Sum>x\<leftarrow>xs. A x) db (fold f xs db)"
proof (induction xs arbitrary: db)
  case (Cons x xs)
  then show ?case using stores_trans [OF assms [of x db] Cons] by simp
qed (simp add: stores_same)

lemma mset_sum_single: "(\<Sum>a\<leftarrow>as. {#a#}) = mset as"
  by (induction as) simp_all

lemma stores_credit: "stores {#a#} db (credit_output h a db)"
  using stores_trans [OF stores_store_output stores_same, of "credit_output h a db" h a db]
  by (simp add: credit_output_eq set_treasury_balance_def)

lemma stores_outputs:
  "stores (mset as) db (fold (store_output h) as db)" "stores (mset as) db (fold (credit_output h) as db)"
  using stores_fold [of "\<lambda>a. {#a#}" "store_output h" as db] stores_fold [of "\<lambda>a. {#a#}" "credit_output h" as db]
  by (simp_all add: stores_store_output stores_credit mset_sum_single)

lemma stores_spend: "spend_inputs is s = True_in s' \<Longrightarrow> stores {#} (snd s) (snd s')"
proof (induction "is" arbitrary: s)
  case (Cons i "is")
  let ?s = "(if fst s = None then Some (fst i) else fst s, mark_treasury_output_spent (snd i) True (snd s))"
  from Cons.prems have "spend_inputs is ?s = True_in s'" by (auto split: if_splits)
  from Cons.IH [OF this] stores_trans [OF stores_mark] show ?case by fastforce
qed (simp add: stores_same)

lemma stores_deduct: "deduct_grant h pid db = True_in db' \<Longrightarrow> stores {#} db db'"
  by (rule stores_same)
    (auto simp: deduct_grant_def Let_def set_treasury_balance_in_txn_def add_proposal_execution_record_def
      add_proposal_record_def split: option.splits if_splits)

lemma stores_parameters: "execute_parameters gp junk h tx db = True_in db' \<Longrightarrow> stores {#} db db'"
proof (cases "is_parameter_execution_tx tx")
  case (Some pid)
  assume "execute_parameters gp junk h tx db = True_in db'"
  with Some have "process_parameter_execution gp h pid junk db = Applied db'"
    by (auto simp: execute_parameters_def split: exec_result.splits)
  then obtain rec blob db1 where "execute_payload gp h rec junk blob db = Applied db1" "db' = mark_executed h rec db1"
    by (rule execution_cases)
  then show ?thesis
    using execute_payload_frame(3,4)
    by (intro stores_same) (auto simp: mark_executed_def add_proposal_execution_record_def add_proposal_record_def)
qed (simp add: execute_parameters_def stores_same)

lemma stores_tx:
  assumes "treasury_tx gp junk height tx db = True_in db'"
  shows "stores (mset (treasury_outs tx)) db db'"
proof -
  obtain s where s: "spend_inputs (treasury_ins tx) (None, db) = True_in s"
    using assms by (auto simp: treasury_tx_def split: step.splits)
  then obtain db1 where d: "(case fst s of None \<Rightarrow> True_in (snd s) | Some pid \<Rightarrow> deduct_grant height pid (snd s)) = True_in db1"
    and p: "execute_parameters gp junk height tx (fold (store_output height) (treasury_outs tx) db1) = True_in db'"
    using assms
    by (cases "case fst s of None \<Rightarrow> True_in (snd s) | Some pid \<Rightarrow> deduct_grant height pid (snd s)")
      (auto simp: treasury_tx_def)
  have "stores {#} (snd s) db1" using d stores_deduct by (cases "fst s") (auto simp: stores_same)
  from stores_trans [OF stores_trans [OF stores_trans [OF stores_spend [OF s] this] stores_outputs(1)] stores_parameters [OF p]]
  show ?thesis by simp
qed

lemma stores_txs:
  "treasury_txs gp junk height txs db = True_in db' \<Longrightarrow> stores (\<Sum>tx\<leftarrow>txs. mset (treasury_outs tx)) db db'"
proof (induction txs arbitrary: db)
  case (Cons tx txs)
  then obtain db1 where "treasury_tx gp junk height tx db = True_in db1" "treasury_txs gp junk height txs db1 = True_in db'"
    by (cases "treasury_tx gp junk height tx db") auto
  with stores_trans [OF stores_tx Cons.IH] show ?case by simp
qed (simp add: stores_same)

lemma connect_cases:
  assumes "connect_treasury gp junk height miner_tx txs db = True_in db'"
  obtains db1 where "treasury_txs gp junk height txs (credit_miner height miner_tx db) = True_in db1"
    "db' = credit_donations height txs db1"
  using assms that
  by (cases "treasury_txs gp junk height txs (credit_miner height miner_tx db)") (auto simp: connect_treasury_def)

lemma donations_effect:
  "get_treasury_balance (credit_donations h txs db) =
     get_treasury_balance db + (\<Sum>tx\<leftarrow>txs. if is_execution tx then 0 else sum_list (treasury_outs tx))"
  "db_proposals (credit_donations h txs db) = db_proposals db"
  "stores (\<Sum>tx\<leftarrow>filter (Not \<circ> is_execution) txs. mset (treasury_outs tx)) db (credit_donations h txs db)"
proof -
  show "get_treasury_balance (credit_donations h txs db) =
     get_treasury_balance db + (\<Sum>tx\<leftarrow>txs. if is_execution tx then 0 else sum_list (treasury_outs tx))"
    "db_proposals (credit_donations h txs db) = db_proposals db"
    unfolding credit_donations_def by (induction txs arbitrary: db) (simp_all add: fold_credit add.assoc)
  have "fold (\<lambda>tx db. if is_execution tx then db else fold (credit_output h) (treasury_outs tx) db) txs db =
      fold (\<lambda>tx. fold (credit_output h) (treasury_outs tx)) (filter (Not \<circ> is_execution) txs) db"
    by (induction txs arbitrary: db) simp_all
  then show "stores (\<Sum>tx\<leftarrow>filter (Not \<circ> is_execution) txs. mset (treasury_outs tx)) db (credit_donations h txs db)"
    unfolding credit_donations_def by (simp only:) (rule stores_fold [OF stores_outputs(2)])
qed

text \<open>What connecting the treasury part of a block does to the balance and to the proposal records.\<close>

lemma connect_effect:
  assumes "connect_treasury gp junk height miner_tx txs db = True_in db'" "ids_ok db"
  shows "get_treasury_balance db' =
      get_treasury_balance db + treasury_inflow miner_tx txs - sum_list (map (granted db) txs)
    \<and> (\<forall>k. if \<exists>tx \<in> set txs. executes tx k
           then \<exists>rec. get_proposal_record k db = Some rec \<and> pr_status rec = PROPOSAL_STATUS_PASSED \<and> \<not> pr_executed rec
             \<and> get_proposal_record k db' = Some (executed_at height rec)
           else get_proposal_record k db' = get_proposal_record k db)"
proof (rule connect_cases [OF assms(1)])
  fix db1
  assume t: "treasury_txs gp junk height txs (credit_miner height miner_tx db) = True_in db1"
    and db': "db' = credit_donations height txs db1"
  let ?db0 = "credit_miner height miner_tx db"
  have props: "db_proposals ?db0 = db_proposals db" and bal: "get_treasury_balance ?db0 = get_treasury_balance db + sum_list (treasury_outs miner_tx)"
    by (simp_all add: credit_miner_def fold_credit)
  note get0 = get_proposal_cong [OF props]
  have "granted ?db0 = granted db" by (rule ext) (simp add: granted_def get0 split: list.split)
  moreover have "ids_ok ?db0" using assms(2) by (simp add: ids_ok_cong [OF props])
  note e = treasury_txs_effect [OF t this]
  moreover have "get_proposal_record k db' = get_proposal_record k db1" for k
    by (rule get_proposal_cong) (simp add: db' donations_effect)
  ultimately show ?thesis
    by (auto simp: db' donations_effect bal get0 treasury_inflow_def executable_def algebra_simps)
qed

lemma connect_granted:
  assumes "connect_treasury gp junk height miner_tx txs db = True_in db'" "ids_ok db"
  shows "granted db' = granted db"
proof
  fix tx
  have "(case get_proposal_record k db' of None \<Rightarrow> 0 | Some rec \<Rightarrow> pr_amount rec) =
    (case get_proposal_record k db of None \<Rightarrow> 0 | Some rec \<Rightarrow> pr_amount rec)" for k
    using connect_effect [OF assms, THEN conjunct2, THEN spec, of k] by (auto simp: executed_at_def split: if_splits)
  then show "granted db' tx = granted db tx" by (simp add: granted_def split: list.split)
qed

section \<open>Properties\<close>


text \<open>
  C12: connecting a block moves the treasury by what its transactions say. When the treasury step of a block
  succeeds, the balance has grown by the treasury outputs of the miner and the donations, less the amounts of
  the proposals that the block pays, in 64-bit arithmetic. Every proposal that a transaction of the block
  executes was passed and unexecuted before and is marked executed at the height of the block; every other
  proposal is as it was.
\<close>
theorem connect_balance:
  assumes "ids_ok db" "connect_treasury gp junk height miner_tx txs db = True_in db'"
  shows "get_treasury_balance db' =
      get_treasury_balance db + treasury_inflow miner_tx txs - sum_list (map (granted db) txs)
    \<and> (\<forall>k. if \<exists>tx \<in> set txs. executes tx k
           then \<exists>rec. get_proposal_record k db = Some rec \<and> pr_status rec = PROPOSAL_STATUS_PASSED \<and> \<not> pr_executed rec
             \<and> get_proposal_record k db' = Some (executed_at height rec)
           else get_proposal_record k db' = get_proposal_record k db)"
  using connect_effect [OF assms(2,1)] .

text \<open>
  A donation is stored twice. The outputs that a block leaves in the table are those that were there, the
  miner's, those of all transactions, and once more those of the transactions that are no executions: the loop
  over the execution transactions stores the treasury outputs of every transaction, and the loop over the
  donations stores those of ordinary transactions again. The balance counts them once, so that the table
  offers more coins for spending than the treasury has received.
\<close>
theorem donations_stored_twice:
  assumes "connect_treasury gp junk height miner_tx txs db = True_in db'"
    and "room_for (length (treasury_outs miner_tx) + 2 * sum_list (map (length \<circ> treasury_outs) txs)) db"
  shows "stored_amounts db' = stored_amounts db + mset (treasury_outs miner_tx) + (\<Sum>tx\<leftarrow>txs. mset (treasury_outs tx))
    + (\<Sum>tx\<leftarrow>filter (Not \<circ> is_execution) txs. mset (treasury_outs tx)) \<and> outputs_ok db'"
proof (rule connect_cases [OF assms(1)])
  fix db1
  assume t: "treasury_txs gp junk height txs (credit_miner height miner_tx db) = True_in db1"
    and db': "db' = credit_donations height txs db1"
  let ?A = "\<Sum>tx\<leftarrow>txs. mset (treasury_outs tx)" and ?D = "\<Sum>tx\<leftarrow>filter (Not \<circ> is_execution) txs. mset (treasury_outs tx)"
  have st: "stores (mset (treasury_outs miner_tx) + ?A + ?D) db db'"
    unfolding db' using stores_trans [OF stores_trans [OF stores_outputs(2) stores_txs [OF t [unfolded credit_miner_def]]] donations_effect(3)] .
  have "size ?A = sum_list (map (length \<circ> treasury_outs) txs)" "size ?D \<le> sum_list (map (length \<circ> treasury_outs) txs)"
    by (induction txs) auto
  then have "size (mset (treasury_outs miner_tx) + ?A + ?D) \<le> length (treasury_outs miner_tx) + 2 * sum_list (map (length \<circ> treasury_outs) txs)"
    by simp
  then obtain n where "room_for (size (mset (treasury_outs miner_tx) + ?A + ?D) + n) db"
    using assms(2) by (metis le_add_diff_inverse)
  with st show ?thesis by (auto simp: stores_def room_for_def add.assoc)
qed

text \<open>
  C13: an accepted execution transaction conserves the coins of the treasury. If a transaction with treasury
  inputs is accepted, all its inputs belong to one proposal, which is passed and whose voting has ended, and are
  unspent; its first output pays the granted amount to the recipient, the others go back to the treasury; and
  as long as neither side of the account exceeds 64 bits, the inputs are worth exactly the grant plus the change.
\<close>
theorem execution_conserves:
  assumes "check_treasury_inputs payee db_height height tx db" "treasury_ins tx \<noteq> []" "0 < height"
  shows "\<exists>pid rec ins out change. get_proposal_record pid db = Some rec \<and> pr_status rec = PROPOSAL_STATUS_PASSED
    \<and> pr_voting_end_height rec + 1 \<le> height
    \<and> (\<forall>i \<in> set (treasury_ins tx). fst i = pid)
    \<and> map (\<lambda>i. get_treasury_output (snd i) db) (treasury_ins tx) = map Some ins \<and> (\<forall>x \<in> set ins. \<not> to_spent x)
    \<and> tx_vout tx = out # change \<and> fst out = pr_amount rec \<and> output_key (snd out) = payee rec \<and> payee rec \<noteq> None
    \<and> (\<forall>x \<in> set change. is_txout_treasury (snd x))
    \<and> ((\<Sum>x\<leftarrow>ins. unat (to_amount x)) < 2 ^ 64 \<and> unat (pr_amount rec) + (\<Sum>x\<leftarrow>change. unat (fst x)) < 2 ^ 64 \<longrightarrow>
         (\<Sum>x\<leftarrow>ins. unat (to_amount x)) = unat (pr_amount rec) + (\<Sum>x\<leftarrow>change. unat (fst x)))"
proof (rule check_cases [OF assms(1,2)])
  fix pid rec total out change
  assume "list_all (validate_treasury_input (if 0 < height then height else db_height) db) (treasury_ins tx)"
    and pids: "list_all (\<lambda>i. fst i = pid) (treasury_ins tx)"
    and rec: "get_proposal_record pid db = Some rec" and total: "input_total db (treasury_ins tx) 0 = Some total"
    and vout: "tx_vout tx = out # change" "fst out = pr_amount rec" "list_all (is_txout_treasury \<circ> snd) change"
      "total = pr_amount rec + sum_list (map fst change)" "payee rec \<noteq> None" "output_key (snd out) = payee rec"
  then have val: "list_all (validate_treasury_input height db) (treasury_ins tx)" using assms(3) by simp
  obtain ins where ins: "map (\<lambda>i. get_treasury_output (snd i) db) (treasury_ins tx) = map Some ins" "\<forall>x \<in> set ins. \<not> to_spent x"
    and sum: "total = sum_list (map to_amount ins)"
    using validated_inputs [OF val] total by auto
  have "pr_status rec = PROPOSAL_STATUS_PASSED \<and> pr_voting_end_height rec + 1 \<le> height"
    using val pids rec assms(2) by (cases "treasury_ins tx") (auto simp: validate_treasury_input_def not_less split: option.splits if_splits)
  moreover have "(\<Sum>x\<leftarrow>ins. unat (to_amount x)) = unat (pr_amount rec) + (\<Sum>x\<leftarrow>change. unat (fst x))"
    if "(\<Sum>x\<leftarrow>ins. unat (to_amount x)) < 2 ^ 64" "unat (pr_amount rec) + (\<Sum>x\<leftarrow>change. unat (fst x)) < 2 ^ 64"
    using that unat_sum_list [of to_amount ins] unat_sum_list [of fst change] vout(4) sum
    by (simp add: unat_word_ariths)
  ultimately show ?thesis
    using rec pids ins vout
    by (intro exI [of _ pid] exI [of _ rec] exI [of _ ins] exI [of _ out] exI [of _ change]) (simp add: list_all_iff)
qed

text \<open>
  The sums of that account wrap around and nothing else bounds them. To any accepted execution transaction
  two change outputs of \<open>2\<^sup>6\<^sup>3\<close> atomic units each can be added: the transaction is still accepted, by the
  checks of its inputs as well as by the rules that do not depend on inputs, from which it is exempt. Each of the
  added outputs becomes a spendable treasury output.
\<close>
theorem execution_change_wraps:
  assumes "check_treasury_inputs payee db_height height tx db" "tx_vin tx = txin_treasury pid oid # vin"
    and "tx' = tx\<lparr>tx_vout := tx_vout tx @ [(9223372036854775808, txout_treasury 0), (9223372036854775808, txout_treasury 0)]\<rparr>"
  shows "check_treasury_inputs payee db_height height tx' db \<and> ver_non_input_consensus standard [tx']
    \<and> treasury_outs tx' = treasury_outs tx @ [9223372036854775808, 9223372036854775808]"
proof (intro conjI)
  have ins: "treasury_ins tx' = treasury_ins tx" by (simp add: assms(3) treasury_ins_def)
  have vout: "tx_vout tx' = tx_vout tx @ [(9223372036854775808, txout_treasury 0), (9223372036854775808, txout_treasury 0)]"
    by (simp add: assms(3))
  have "treasury_ins tx \<noteq> []" by (simp add: treasury_ins_def assms(2))
  then show "check_treasury_inputs payee db_height height tx' db"
    by (rule check_cases [OF assms(1)])
      (auto simp: check_treasury_inputs_def ins vout is_txout_treasury_def Let_def)
  show "ver_non_input_consensus standard [tx']"
    by (simp add: ver_non_input_consensus_def exempt_def assms(2,3))
  show "treasury_outs tx' = treasury_outs tx @ [9223372036854775808, 9223372036854775808]"
    by (simp add: treasury_outs_def assms(3) is_txout_treasury_def)
qed

section \<open>Witnesses\<close>

definition ex_granted :: proposal_record where
  "ex_granted = ex_proposal\<lparr>pr_type := 0, pr_amount := 300\<rparr>"

definition ex_treasury :: vns_db where
  "ex_treasury = empty_db\<lparr>db_proposals := [(ex_pid, ex_granted)], db_treasury_balance := Some 1000,
     db_treasury_counter := Some 1,
     db_treasury_outputs := [(1, \<lparr>to_output_id = 1, to_amount = 1000, to_height = 5, to_spent = False\<rparr>)]\<rparr>"

definition ex_deriver :: deriver where
  "ex_deriver = \<lparr>dv_payee = (\<lambda>rec. Some ex_pid), dv_tx_key = (\<lambda>rec. ex_pid), dv_view_tag = (\<lambda>rec. CHR 0x00)\<rparr>"

definition ex_execution_tx :: transaction where
  "ex_execution_tx = \<lparr>tx_version = 2, tx_vin = [txin_treasury ex_pid 1],
     tx_vout = [(300, txout_to_tagged_key ex_pid (CHR 0x00)), (700, txout_treasury 0)],
     tx_extra = put_tx_extra_field (tx_extra_pub_key ex_pid)\<rparr>"

definition ex_donation_tx :: transaction where
  "ex_donation_tx = \<lparr>tx_version = 2, tx_vin = [txin_to_key 0 [] []], tx_vout = [(7, txout_treasury 0)], tx_extra = []\<rparr>"

definition ex_miner_tx :: transaction where
  "ex_miner_tx = \<lparr>tx_version = 2, tx_vin = [txin_gen 6000], tx_vout = [(50, txout_treasury 0)], tx_extra = []\<rparr>"

lemma ex_treasury_facts:
  "tables_wf ex_treasury" "ids_ok ex_treasury" "outputs_ok ex_treasury"
  "get_proposal_record ex_pid ex_treasury = Some ex_granted" "get_ready_executions 6000 ex_treasury = [ex_granted]"
  "get_unspent_treasury_outputs ex_treasury = [\<lparr>to_output_id = 1, to_amount = 1000, to_height = 5, to_spent = False\<rparr>]"
  "pr_voting_end_height ex_granted = 5141" "pr_status ex_granted = PROPOSAL_STATUS_PASSED" "\<not> pr_executed ex_granted"
  "pr_amount ex_granted = 300" "pr_type ex_granted = 0" "pr_proposal_id ex_granted = ex_pid"
  "get_treasury_balance ex_treasury = 1000"
  by (simp_all add: ex_treasury_def ex_granted_def ex_proposal_def empty_db_def get_proposal_record_def ids_ok_def ex_pid_def
      tables_wf_def table_wf_def outputs_ok_def ready_executions_eq ready_delay_def get_parameter_def
      get_unspent_treasury_outputs_def get_treasury_balance_def)

lemma ex_template: "template_executions ex_deriver 6000 16 ex_treasury = [ex_execution_tx]"
  by (simp add: template_executions_def ex_treasury_facts build_execution_transaction_def ex_deriver_def ex_execution_tx_def)


lemma ex_ins: "treasury_ins ex_execution_tx = [(ex_pid, 1)]" "treasury_ins ex_donation_tx = []"
  "treasury_outs ex_execution_tx = [700]" "treasury_outs ex_donation_tx = [7]" "treasury_outs ex_miner_tx = [50]"
  "is_parameter_execution_tx ex_execution_tx = None" "is_parameter_execution_tx ex_donation_tx = None"
  "is_execution ex_execution_tx" "\<not> is_execution ex_donation_tx"
  by (simp_all add: treasury_ins_def treasury_outs_def is_txout_treasury_def is_execution_def is_parameter_execution_tx_def
      ex_execution_tx_def ex_donation_tx_def ex_miner_tx_def)

lemma ex_connected: "\<exists>db'. connect_treasury gp [] 6000 ex_miner_tx [ex_execution_tx, ex_donation_tx] ex_treasury = True_in db'"
proof -
  let ?db = "credit_miner 6000 ex_miner_tx ex_treasury"
  have "db_proposals (mark_treasury_output_spent 1 True ?db) = db_proposals ex_treasury"
    by (simp add: credit_miner_def fold_credit)
  from get_proposal_cong [OF this] have "\<exists>db1. deduct_grant 6000 ex_pid (mark_treasury_output_spent 1 True ?db) = True_in db1"
    by (simp add: deduct_grant_def get_proposal_record_in_txn_def get_proposal_record_def [symmetric] ex_treasury_facts Let_def)
  then obtain db1 where "deduct_grant 6000 ex_pid (mark_treasury_output_spent 1 True ?db) = True_in db1" ..
  then show ?thesis
    by (simp add: connect_treasury_def treasury_tx_def ex_ins execute_parameters_def)
qed

theorem connect_balance_witness:
  "\<exists>db'. connect_treasury sample_params [] 6000 ex_miner_tx [ex_execution_tx, ex_donation_tx] ex_treasury = True_in db'
    \<and> get_treasury_balance db' = 757 \<and> get_proposal_record ex_pid db' = Some (executed_at 6000 ex_granted)"
proof -
  from ex_connected obtain db' where
    c: "connect_treasury sample_params [] 6000 ex_miner_tx [ex_execution_tx, ex_donation_tx] ex_treasury = True_in db'" ..
  have "\<exists>tx \<in> set [ex_execution_tx, ex_donation_tx]. executes tx ex_pid" by (simp add: executes_def ex_ins)
  moreover note connect_balance [OF ex_treasury_facts(2) c, THEN conjunct2, THEN spec, of ex_pid]
  moreover have "get_treasury_balance db' = 757"
    using connect_balance [OF ex_treasury_facts(2) c, THEN conjunct1]
    by (simp add: ex_treasury_facts treasury_inflow_def ex_ins granted_def)
  ultimately show ?thesis using c ex_treasury_facts(4) by simp
qed

theorem donations_stored_twice_witness:
  "\<exists>db'. connect_treasury sample_params [] 6000 ex_miner_tx [ex_execution_tx, ex_donation_tx] ex_treasury = True_in db'
    \<and> stored_amounts db' = {#1000, 50, 700, 7, 7#}"
proof -
  from ex_connected obtain db' where
    c: "connect_treasury sample_params [] 6000 ex_miner_tx [ex_execution_tx, ex_donation_tx] ex_treasury = True_in db'" ..
  have "room_for 5 ex_treasury" using ex_treasury_facts(3) by (simp add: room_for_def last_output_def ex_treasury_def)
  moreover have "stored_amounts ex_treasury = {#1000#}" by (simp add: stored_amounts_def ex_treasury_def)
  ultimately show ?thesis
    using donations_stored_twice [OF c] c by (auto simp: ex_ins)
qed

lemma ex_checked: "check_treasury_inputs (dv_payee ex_deriver) 5999 6000 ex_execution_tx ex_treasury"
  using built_accepted [of ex_deriver ex_granted 16 "{}" ex_treasury ex_execution_tx "{1}" 6000 5999]
  by (simp add: ex_treasury_facts build_execution_transaction_def ex_deriver_def ex_execution_tx_def)

theorem execution_conserves_witness:
  "\<exists>rec. get_proposal_record ex_pid ex_treasury = Some rec \<and> pr_status rec = PROPOSAL_STATUS_PASSED
    \<and> map_option to_amount (get_treasury_output 1 ex_treasury) = Some (pr_amount rec + 700)"
proof -
  have "tx_vout ex_execution_tx = [(300, txout_to_tagged_key ex_pid (CHR 0x00)), (700, txout_treasury 0)]"
    by (simp add: ex_execution_tx_def)
  moreover have "get_treasury_output 1 ex_treasury = Some \<lparr>to_output_id = 1, to_amount = 1000, to_height = 5, to_spent = False\<rparr>"
    by (simp add: get_treasury_output_def ex_treasury_def)
  ultimately show ?thesis
    using execution_conserves [OF ex_checked] by (auto simp: ex_ins)
qed

theorem execution_change_wraps_witness:
  "\<exists>tx. check_treasury_inputs (dv_payee ex_deriver) 5999 6000 tx ex_treasury
    \<and> treasury_outs tx = [700, 9223372036854775808, 9223372036854775808]"
proof -
  have "tx_vin ex_execution_tx = txin_treasury ex_pid 1 # []" by (simp add: ex_execution_tx_def)
  from execution_change_wraps [OF ex_checked this refl] show ?thesis by (auto simp: ex_ins)
qed

end
