(* ===== verification/Voting_Weight.thy ===== *)
theory Voting_Weight
  imports VNS_Prelude Byte_Codecs
begin

text \<open>
  \<^verbatim>\<open>src/src/governance/voting_weight.cpp\<close>: the weight of an output in a vote. Heights and amounts
  are 64-bit; the weight is a 128-bit integer in the code, and the product of a 64-bit amount with
  an age factor of at most 12 stays below that, so that it is a natural number here.
\<close>

abbreviation (input) DAO_BLOCKS_PER_DAY :: nat where "DAO_BLOCKS_PER_DAY \<equiv> 720"
abbreviation (input) DAO_AGE_MAX_DAYS :: nat where "DAO_AGE_MAX_DAYS \<equiv> 7300"

definition governance_w_max :: nat where
  "governance_w_max = 240000000000000000000"

fun floor_log2 :: "nat \<Rightarrow> nat" where
  "floor_log2 n = (if 1 < n then Suc (floor_log2 (n div 2)) else 0)"

declare floor_log2.simps [simp del]

definition calculate_voting_weight :: "u64 \<Rightarrow> u64 \<Rightarrow> u64 \<Rightarrow> nat option" where
  "calculate_voting_weight amount output_height vote_height =
     (if vote_height < output_height then None
      else
        let age_blocks = unat (vote_height - output_height);
            raw_age_days = age_blocks div DAO_BLOCKS_PER_DAY;
            age_days = (if DAO_AGE_MAX_DAYS < raw_age_days then DAO_AGE_MAX_DAYS else raw_age_days);
            age_factor = floor_log2 (age_days + 1);
            w = unat amount * age_factor
        in if governance_w_max < w then None else Some w)"

section \<open>The logarithm\<close>

lemma floor_log2_bounds: "0 < n \<Longrightarrow> 2 ^ floor_log2 n \<le> n \<and> n < 2 ^ Suc (floor_log2 n)"
proof (induction n rule: floor_log2.induct)
  case (1 n)
  show ?case
  proof (cases "1 < n")
    case True
    then have "2 ^ floor_log2 (n div 2) \<le> n div 2 \<and> n div 2 < 2 ^ Suc (floor_log2 (n div 2))"
      using "1.IH" by simp
    with True show ?thesis by (simp add: floor_log2.simps [of n]) linarith
  next
    case False
    with "1.prems" have "n = 1" by simp
    then show ?thesis by (simp add: floor_log2.simps)
  qed
qed

lemma floor_log2_unique:
  assumes "2 ^ k \<le> n" "n < 2 ^ Suc k"
  shows "floor_log2 n = k"
proof -
  have "0 < n" using assms(1) by (metis gr0I le_zero_eq power_not_zero zero_neq_numeral)
  from floor_log2_bounds [OF this] assms have "2 ^ floor_log2 n < (2::nat) ^ Suc k"
    "(2::nat) ^ k < 2 ^ Suc (floor_log2 n)" by linarith+
  then have "floor_log2 n < Suc k" "k < Suc (floor_log2 n)"
    by (auto intro: power_less_imp_less_exp [of "2::nat"])
  then show ?thesis by simp
qed

lemma floor_log2_mono: "0 < m \<Longrightarrow> m \<le> n \<Longrightarrow> floor_log2 m \<le> floor_log2 n"
proof -
  assume "0 < m" "m \<le> n"
  with floor_log2_bounds [of m] floor_log2_bounds [of n] have "(2::nat) ^ floor_log2 m < 2 ^ Suc (floor_log2 n)"
    by linarith
  then have "floor_log2 m < Suc (floor_log2 n)" by (rule power_less_imp_less_exp [rotated]) simp
  then show ?thesis by simp
qed

definition age_factor :: "u64 \<Rightarrow> u64 \<Rightarrow> nat" where
  "age_factor output_height vote_height =
     floor_log2 (min 7300 ((unat vote_height - unat output_height) div 720) + 1)"

lemma age_factor_le: "age_factor oh h \<le> 12"
proof -
  have "min 7300 ((unat h - unat oh) div 720) + 1 \<le> 7301" by simp
  then have "age_factor oh h \<le> floor_log2 7301"
    unfolding age_factor_def by (intro floor_log2_mono) auto
  also have "floor_log2 7301 = 12" by (rule floor_log2_unique) simp_all
  finally show ?thesis .
qed

lemma weight_below_max: "unat (a :: u64) * age_factor oh h \<le> governance_w_max"
proof -
  have "unat a * age_factor oh h \<le> 18446744073709551615 * 12"
    using unat_bounds(3) [of a] age_factor_le by (intro mult_le_mono) linarith+
  then show ?thesis by (simp add: governance_w_max_def)
qed

lemma weight_eq:
  "calculate_voting_weight a oh h = (if h < oh then None else Some (unat a * age_factor oh h))"
proof -
  have "unat (h - oh) = unat h - unat oh" if "\<not> h < oh"
    using that by (simp add: unat_sub_if' word_le_nat_alt not_less)
  moreover have "(if 7300 < x then 7300 else x) = min 7300 x" for x :: nat
    by (simp add: min_def)
  ultimately show ?thesis
    using weight_below_max [of a oh h]
    by (cases "h < oh") (simp_all add: calculate_voting_weight_def Let_def age_factor_def not_less)
qed

section \<open>Properties\<close>

text \<open>
  C33: the voting weight is total on every output that is not younger than the vote, and exact. It
  is the amount times \<open>k\<close>, where \<open>2 ^ k\<close> is the largest power of two that does not exceed the age
  in days, capped at 7300, plus one; \<open>k\<close> is at most 12, so that the check against the maximal
  weight never fails, and the weight grows with the amount and with the age.
\<close>
theorem voting_weight_exact:
  "(calculate_voting_weight amount out_h vote_h = None \<longleftrightarrow> vote_h < out_h)
   \<and> (\<forall>w. calculate_voting_weight amount out_h vote_h = Some w \<longrightarrow>
        (\<exists>k \<le> 12. w = unat amount * k
           \<and> 2 ^ k \<le> min 7300 ((unat vote_h - unat out_h) div 720) + 1
           \<and> min 7300 ((unat vote_h - unat out_h) div 720) + 1 < 2 ^ Suc k)
        \<and> w \<le> governance_w_max
        \<and> (\<forall>amount' out_h' w'. amount \<le> amount' \<and> out_h' \<le> out_h
             \<and> calculate_voting_weight amount' out_h' vote_h = Some w' \<longrightarrow> w \<le> w'))"
proof (intro conjI allI impI)
  show "calculate_voting_weight amount out_h vote_h = None \<longleftrightarrow> vote_h < out_h"
    by (simp add: weight_eq)
next
  fix w
  assume "calculate_voting_weight amount out_h vote_h = Some w"
  then have w: "w = unat amount * age_factor out_h vote_h"
    by (simp add: weight_eq split: if_splits)
  then show "w \<le> governance_w_max" using weight_below_max by simp
  show "\<exists>k \<le> 12. w = unat amount * k
      \<and> 2 ^ k \<le> min 7300 ((unat vote_h - unat out_h) div 720) + 1
      \<and> min 7300 ((unat vote_h - unat out_h) div 720) + 1 < 2 ^ Suc k"
    using w age_factor_le [of out_h vote_h]
      floor_log2_bounds [of "min 7300 ((unat vote_h - unat out_h) div 720) + 1"]
    by (intro exI [of _ "age_factor out_h vote_h"]) (simp add: age_factor_def)
  fix amount' out_h' w'
  assume a: "amount \<le> amount' \<and> out_h' \<le> out_h
    \<and> calculate_voting_weight amount' out_h' vote_h = Some w'"
  then have w': "w' = unat amount' * age_factor out_h' vote_h"
    by (simp add: weight_eq split: if_splits)
  have "unat vote_h - unat out_h \<le> unat vote_h - unat out_h'"
    using a by (simp add: word_le_nat_alt diff_le_mono2)
  then have "min 7300 ((unat vote_h - unat out_h) div 720) \<le> min 7300 ((unat vote_h - unat out_h') div 720)"
    by (intro min.mono div_le_mono) auto
  then have "age_factor out_h vote_h \<le> age_factor out_h' vote_h"
    unfolding age_factor_def by (intro floor_log2_mono) auto
  with a show "w \<le> w'" unfolding w w' by (intro mult_le_mono) (auto simp: word_le_nat_alt)
qed

theorem voting_weight_exact_witness:
  "\<exists>k \<le> 12. (7000000000000 :: nat) = unat (1000000000000 :: u64) * k
     \<and> 2 ^ k \<le> min 7300 ((unat (100000 :: u64) - unat (1000 :: u64)) div 720) + 1"
proof -
  have "calculate_voting_weight 1000000000000 1000 100000 = Some 7000000000000"
    by (simp add: calculate_voting_weight_def floor_log2.simps governance_w_max_def)
  with voting_weight_exact [of 1000000000000 1000 100000] show ?thesis by blast
qed

end
