(* ===== verification/Votes.thy ===== *)
theory Votes
  imports Parameter_Execution Voting_Weight
begin

text \<open>
  \<^verbatim>\<open>src/src/governance/vote_manager.cpp\<close>: the classification of the governance objects of a
  transaction, the counting of a V1 vote, and its rollback. \<^verbatim>\<open>GovernanceDB::get_transaction\<close> and
  \<^verbatim>\<open>get_transaction_hash\<close> read the block store and hash a blob; they are the arguments \<open>get_tx\<close> and
  \<open>tx_hash\<close>. The V2 votes carry encrypted weights; the operations on them are the arguments \<open>v2\<close>
  and \<open>undo_v2\<close> of the block loops, over a state of their own.
\<close>

section \<open>Classification\<close>

datatype vote_result =
    success | missing_vote_tag | invalid_format | invalid_proposal_id | invalid_direction
  | voting_period_closed | already_voted | invalid_signature

datatype vote_kind = vote_none | vote_v1 | vote_v2 | vote_malformed | vote_multiple

definition dao_v2_active :: "u64 \<Rightarrow> bool" where
  "dao_v2_active block_height \<longleftrightarrow> 82000 \<le> block_height"

definition is_vote_tx :: "transaction \<Rightarrow> bool" where
  "is_vote_tx tx =
     (case dropWhile (\<lambda>c. byte_val c \<noteq> 64) (tx_extra tx) of
        [] \<Rightarrow> False
      | _ # data \<Rightarrow>
          (case parse_all get_governance_payload data of
             None \<Rightarrow> False
           | Some gp \<Rightarrow> gpl_type gp = GO_vote))"

definition extract_vote :: "transaction \<Rightarrow> vote_proof option" where
  "extract_vote tx =
     (case first_governance_payload (tx_extra tx) of
        None \<Rightarrow> None
      | Some gp \<Rightarrow> if gpl_type gp \<noteq> GO_vote then None else parse_all get_vote_proof (gpl_data gp))"

text \<open>The counting loop of the classification: \<open>None\<close> is the early return on another object.\<close>

fun count_vote_objects :: "governance_payload list \<Rightarrow> nat \<times> nat \<Rightarrow> (nat \<times> nat) option" where
  "count_vote_objects [] vs = Some vs"
| "count_vote_objects (gp # gps) (v1, v2) =
     (if gpl_type gp = GO_proposal \<or> gpl_type gp = GO_execution then count_vote_objects gps (v1, v2)
      else if gpl_type gp = GO_vote then count_vote_objects gps (v1 + 1, v2)
      else if gpl_type gp = GO_vote_v2 then count_vote_objects gps (v1, v2 + 1)
      else None)"

definition classify_vote_tx :: "transaction \<Rightarrow> vote_kind" where
  "classify_vote_tx tx =
     (case parse_tx_extra (tx_extra tx) of
        None \<Rightarrow> vote_malformed
      | Some fs \<Rightarrow>
          (case count_vote_objects (governance_payloads fs) (0, 0) of
             None \<Rightarrow> vote_malformed
           | Some (v1, v2) \<Rightarrow>
               if v1 + v2 = 0 then vote_none
               else if 1 < v1 + v2 then vote_multiple
               else if v2 = 1 then vote_v2 else vote_v1))"

section \<open>Counting a V1 vote\<close>

definition validate_vote :: "vote_proof \<Rightarrow> u64 \<Rightarrow> vns_db \<Rightarrow> bool" where
  "validate_vote vp height db =
     (if vp_version vp \<noteq> 1 then False
      else case get_proposal_record (vp_proposal_id vp) db of
             None \<Rightarrow> False
           | Some rec \<Rightarrow> \<not> (height < pr_submission_height rec \<or> pr_voting_end_height rec < height))"

primrec add_output_weights :: "u64 \<Rightarrow> u64 \<Rightarrow> u64 list \<Rightarrow> nat \<Rightarrow> nat option" where
  "add_output_weights share height [] acc = Some acc"
| "add_output_weights share height (oh # ohs) acc =
     (case calculate_voting_weight share oh height of
        None \<Rightarrow> None
      | Some w \<Rightarrow> add_output_weights share height ohs (acc + w))"

text \<open>The weight of a vote, narrowed to 64 bits; \<open>None\<close> is a return of \<^verbatim>\<open>invalid_format\<close>.\<close>

definition vote_weight :: "vote_proof \<Rightarrow> u64 \<Rightarrow> u64 option" where
  "vote_weight vp height =
     (if vp_output_heights vp \<noteq> [] \<and> length (vp_output_heights vp) = length (vp_voting_nullifiers vp) then
        (case add_output_weights
                (word_of_nat (unat (vp_participation_balance vp) div length (vp_voting_nullifiers vp)))
                height (vp_output_heights vp) 0 of
           None \<Rightarrow> None
         | Some wide_total_weight \<Rightarrow>
             if wide_total_weight > 2 ^ 64 - 1 then None else Some (word_of_nat wide_total_weight))
      else None)"

definition add_to_outcome :: "bool \<Rightarrow> u64 \<Rightarrow> u64 \<Rightarrow> outcome \<Rightarrow> outcome" where
  "add_to_outcome yes w b out =
     (if yes then out\<lparr>out_yes_weight := out_yes_weight out + w, out_yes_balance := out_yes_balance out + b\<rparr>
      else out\<lparr>out_no_weight := out_no_weight out + w, out_no_balance := out_no_balance out + b\<rparr>)"

definition zero_outcome :: outcome where
  "zero_outcome = \<lparr>out_yes_weight = 0, out_no_weight = 0, out_yes_balance = 0, out_no_balance = 0\<rparr>"

definition vote_nullifier :: "vote_proof \<Rightarrow> hash32" where
  "vote_nullifier vp = (case vp_voting_nullifiers vp of [] \<Rightarrow> null_hash | n # _ \<Rightarrow> n)"

definition count_vote :: "vote_proof \<Rightarrow> u64 \<Rightarrow> vns_db \<Rightarrow> vote_result \<times> vns_db" where
  "count_vote vp height db =
     (let pid = vp_proposal_id vp; nullifier = vote_nullifier vp; total_balance = vp_participation_balance vp in
      if nullifier = null_hash then (invalid_format, db)
      else if has_vote_nullifier pid nullifier db then (already_voted, db)
      else case vote_weight vp height of
        None \<Rightarrow> (invalid_format, db)
      | Some total_weight \<Rightarrow>
          if total_balance = 0 \<or> total_weight = 0 then (invalid_format, db)
          else
            let out = (case get_proposal_outcome pid db of None \<Rightarrow> zero_outcome | Some o' \<Rightarrow> o') in
            (success,
             set_proposal_outcome pid (add_to_outcome (vp_direction_yes vp) total_weight total_balance out)
               (add_vote_nullifier pid nullifier db)))"

definition process_v1_vote :: "transaction \<Rightarrow> u64 \<Rightarrow> bool \<Rightarrow> vns_db \<Rightarrow> vote_result \<times> vns_db" where
  "process_v1_vote tx height dry_run db =
     (if \<not> is_vote_tx tx then (missing_vote_tag, db)
      else case extract_vote tx of
        None \<Rightarrow> (invalid_format, db)
      | Some vp \<Rightarrow>
          if vp_version vp \<noteq> 1 then (invalid_format, db)
          else case get_proposal_record (vp_proposal_id vp) db of
            None \<Rightarrow> (invalid_proposal_id, db)
          | Some rec \<Rightarrow>
              if dao_v2_active height then (invalid_format, db)
              else if pr_voting_end_height rec < height \<or> height < pr_submission_height rec
                then (voting_period_closed, db)
              else if dry_run then (success, db)
              else count_vote vp height db)"

definition process_vote ::
  "(transaction \<Rightarrow> u64 \<Rightarrow> bool \<Rightarrow> 'v \<times> vns_db \<Rightarrow> vote_result \<times> 'v \<times> vns_db) \<Rightarrow>
   transaction \<Rightarrow> u64 \<Rightarrow> bool \<Rightarrow> 'v \<times> vns_db \<Rightarrow> vote_result \<times> 'v \<times> vns_db" where
  "process_vote v2 tx height dry_run s =
     (case classify_vote_tx tx of
        vote_none \<Rightarrow> (missing_vote_tag, s)
      | vote_malformed \<Rightarrow> (invalid_format, s)
      | vote_multiple \<Rightarrow> (invalid_format, s)
      | vote_v1 \<Rightarrow> (case process_v1_vote tx height dry_run (snd s) of (r, db) \<Rightarrow> (r, fst s, db))
      | vote_v2 \<Rightarrow> v2 tx height dry_run s)"

text \<open>
  One round of \<^verbatim>\<open>VoteManager::process_block\<close>; the flag is false where the loop returns false. The
  state is that of the V2 votes, with the nullifiers of the block, and the database.
\<close>

definition process_vote_tx ::
  "(transaction \<Rightarrow> hash32 \<Rightarrow> u64 \<Rightarrow> 'v \<times> vns_db \<Rightarrow> vote_result \<times> 'v \<times> vns_db) \<Rightarrow>
   (hash32 \<Rightarrow> transaction option) \<Rightarrow> u64 \<Rightarrow> hash32 \<Rightarrow> 'v \<times> vns_db \<Rightarrow> bool \<times> 'v \<times> vns_db" where
  "process_vote_tx v2 get_tx height h s =
     (case get_tx h of
        None \<Rightarrow> (False, s)
      | Some tx \<Rightarrow>
          (case classify_vote_tx tx of
             vote_none \<Rightarrow> (True, s)
           | vote_malformed \<Rightarrow> (False, s)
           | vote_multiple \<Rightarrow> (False, s)
           | vote_v1 \<Rightarrow>
               (case process_v1_vote tx height False (snd s) of
                  (r, db) \<Rightarrow> (r = missing_vote_tag \<or> r = success, fst s, db))
           | vote_v2 \<Rightarrow> (case v2 tx h height s of (r, s') \<Rightarrow> (r = success, s'))))"

primrec votes_process_block ::
  "(transaction \<Rightarrow> hash32 \<Rightarrow> u64 \<Rightarrow> 'v \<times> vns_db \<Rightarrow> vote_result \<times> 'v \<times> vns_db) \<Rightarrow>
   (hash32 \<Rightarrow> transaction option) \<Rightarrow> u64 \<Rightarrow> hash32 list \<Rightarrow> 'v \<times> vns_db \<Rightarrow> bool \<times> 'v \<times> vns_db" where
  "votes_process_block v2 get_tx height [] s = (True, s)"
| "votes_process_block v2 get_tx height (h # hs) s =
     (case process_vote_tx v2 get_tx height h s of
        (ok, s') \<Rightarrow> if ok then votes_process_block v2 get_tx height hs s' else (False, s'))"

section \<open>Rollback\<close>

definition saturating_sub :: "u64 \<Rightarrow> u64 \<Rightarrow> u64" where
  "saturating_sub a b = a - (if b \<le> a then b else a)"

definition take_from_outcome :: "bool \<Rightarrow> u64 \<Rightarrow> u64 \<Rightarrow> outcome \<Rightarrow> outcome" where
  "take_from_outcome yes w b out =
     (if yes then out\<lparr>out_yes_weight := saturating_sub (out_yes_weight out) w,
                      out_yes_balance := saturating_sub (out_yes_balance out) b\<rparr>
      else out\<lparr>out_no_weight := saturating_sub (out_no_weight out) w,
               out_no_balance := saturating_sub (out_no_balance out) b\<rparr>)"

definition rollback_v1_vote :: "transaction \<Rightarrow> vns_db \<Rightarrow> vns_db" where
  "rollback_v1_vote tx db =
     (case extract_vote tx of
        None \<Rightarrow> db
      | Some vp \<Rightarrow>
          let pid = vp_proposal_id vp;
              db = (case tx_vin tx of [txin_vns_vote _ _ k_image _] \<Rightarrow> remove_vote_record pid k_image db | _ \<Rightarrow> db);
              nullifier = vote_nullifier vp
          in if nullifier = null_hash then db
             else
               let db = remove_vote_nullifier pid nullifier db in
               case get_proposal_outcome pid db of
                 None \<Rightarrow> db
               | Some out \<Rightarrow>
                   set_proposal_outcome pid
                     (take_from_outcome (vp_direction_yes vp) (vp_voting_weight vp)
                        (vp_participation_balance vp) out) db)"

definition rollback_vote_tx ::
  "(transaction \<Rightarrow> hash32 \<Rightarrow> 'v \<times> vns_db \<Rightarrow> 'v \<times> vns_db) \<Rightarrow>
   (hash32 \<Rightarrow> transaction option) \<Rightarrow> hash32 \<Rightarrow> 'v \<times> vns_db \<Rightarrow> 'v \<times> vns_db" where
  "rollback_vote_tx undo_v2 find_tx h s =
     (case find_tx h of
        None \<Rightarrow> s
      | Some tx \<Rightarrow>
          (case classify_vote_tx tx of
             vote_v1 \<Rightarrow> (fst s, rollback_v1_vote tx (snd s))
           | vote_v2 \<Rightarrow> undo_v2 tx h s
           | _ \<Rightarrow> s))"

text \<open>The popped transactions come first, the later of two with one hash; then the block store.\<close>

definition find_popped ::
  "(transaction \<Rightarrow> hash32) \<Rightarrow> (hash32 \<Rightarrow> transaction option) \<Rightarrow> transaction list \<Rightarrow> hash32 \<Rightarrow> transaction option" where
  "find_popped tx_hash get_tx txs h =
     (case find (\<lambda>tx. tx_hash tx = h) (rev txs) of Some tx \<Rightarrow> Some tx | None \<Rightarrow> get_tx h)"

definition votes_rollback_block ::
  "(transaction \<Rightarrow> hash32 \<Rightarrow> 'v \<times> vns_db \<Rightarrow> 'v \<times> vns_db) \<Rightarrow> (transaction \<Rightarrow> hash32) \<Rightarrow>
   (hash32 \<Rightarrow> transaction option) \<Rightarrow> hash32 list \<Rightarrow> transaction list \<Rightarrow> 'v \<times> vns_db \<Rightarrow> 'v \<times> vns_db" where
  "votes_rollback_block undo_v2 tx_hash get_tx hs txs s =
     fold (rollback_vote_tx undo_v2 (find_popped tx_hash get_tx txs)) hs s"

section \<open>The weight of a vote\<close>

lemma add_output_weights_eq:
  "add_output_weights share h ohs acc =
     (if \<forall>oh \<in> set ohs. oh \<le> h then Some (acc + (\<Sum>oh\<leftarrow>ohs. unat share * age_factor oh h)) else None)"
  by (induction ohs arbitrary: acc) (auto simp: weight_eq not_less [symmetric])

lemma unat_word_of_nat: "n < 18446744073709551616 \<Longrightarrow> unat (word_of_nat n :: u64) = n"
  by (simp add: unat_of_nat take_bit_eq_mod)

lemma unat_share: "unat (word_of_nat (unat (b :: u64) div n) :: u64) = unat b div n"
  by (rule unat_word_of_nat) (rule le_less_trans [OF div_le_dividend unat_bounds(3)])

text \<open>
  The loop computes in 128 bits: each output gets an equal share of the balance and a factor of at
  most 12, so that the sum stays below \<open>12 * 2 ^ 64\<close>.
\<close>

lemma output_weights_bound:
  "(\<Sum>oh\<leftarrow>ohs. unat (word_of_nat (unat (b :: u64) div length ohs) :: u64) * age_factor oh h) \<le> 12 * unat b"
proof -
  let ?s = "unat b div length ohs"
  have "(\<Sum>oh\<leftarrow>ohs. ?s * age_factor oh h) \<le> (\<Sum>oh\<leftarrow>ohs. ?s * 12)"
    by (intro sum_list_mono mult_le_mono2 age_factor_le)
  also have "\<dots> = 12 * (?s * length ohs)" by (simp add: sum_list_triv)
  also have "\<dots> \<le> 12 * unat b" by simp
  finally show ?thesis by (simp add: unat_share)
qed

lemma vote_weightD:
  assumes "vote_weight vp h = Some w"
  shows "length (vp_output_heights vp) = length (vp_voting_nullifiers vp)" "vp_output_heights vp \<noteq> []"
    "\<forall>oh \<in> set (vp_output_heights vp). oh \<le> h"
    "unat w = (\<Sum>oh\<leftarrow>vp_output_heights vp.
       (unat (vp_participation_balance vp) div length (vp_voting_nullifiers vp)) * age_factor oh h)"
  using assms
  by (auto simp: vote_weight_def add_output_weights_eq unat_share unat_word_of_nat split: if_splits)

lemma count_vote_cases:
  "count_vote vp h db = (r, db') \<Longrightarrow>
     (r = success \<and> (\<exists>w. vote_weight vp h = Some w \<and> w \<noteq> 0 \<and> vp_participation_balance vp \<noteq> 0
        \<and> vote_nullifier vp \<noteq> null_hash \<and> (vp_proposal_id vp, vote_nullifier vp) \<notin> db_nullifiers db
        \<and> db' = set_proposal_outcome (vp_proposal_id vp)
            (add_to_outcome (vp_direction_yes vp) w (vp_participation_balance vp)
               (case get_proposal_outcome (vp_proposal_id vp) db of None \<Rightarrow> zero_outcome | Some o' \<Rightarrow> o'))
            (add_vote_nullifier (vp_proposal_id vp) (vote_nullifier vp) db)))
     \<or> (r \<noteq> success \<and> db' = db)"
  by (auto simp: count_vote_def Let_def has_vote_nullifier_def split: if_splits option.splits)

lemma process_v1_cases:
  assumes "process_v1_vote tx h False db = (r, db')"
  shows "(r \<noteq> success \<and> db' = db)
    \<or> (\<exists>vp rec. is_vote_tx tx \<and> extract_vote tx = Some vp \<and> vp_version vp = 1
        \<and> get_proposal_record (vp_proposal_id vp) db = Some rec \<and> \<not> dao_v2_active h
        \<and> pr_submission_height rec \<le> h \<and> h \<le> pr_voting_end_height rec
        \<and> count_vote vp h db = (r, db'))"
  using assms by (auto simp: process_v1_vote_def not_less split: if_splits option.splits)

text \<open>
  C5: counting a V1 vote changes the database only when it succeeds. Then the proposal exists and
  is in its voting window, DAO V2 is not active, the vote's first nullifier was neither null nor
  spent for the proposal, and exactly two things are written: that nullifier, and the tally of the
  vote's direction, increased by the claimed balance and by the age-weighted sum of the equal
  shares of the balance, which is not zero, fits 64 bits and is at most
  twelve times the balance.
\<close>
theorem v1_vote_effect:
  assumes "process_v1_vote tx h False db = (r, db')"
  shows "(r \<noteq> success \<longrightarrow> db' = db)
    \<and> (r = success \<longrightarrow>
        (\<exists>vp rec w. extract_vote tx = Some vp
          \<and> get_proposal_record (vp_proposal_id vp) db = Some rec
          \<and> pr_submission_height rec \<le> h \<and> h \<le> pr_voting_end_height rec \<and> h < 82000
          \<and> vote_nullifier vp \<noteq> null_hash
          \<and> \<not> has_vote_nullifier (vp_proposal_id vp) (vote_nullifier vp) db
          \<and> w \<noteq> 0 \<and> unat w \<le> 12 * unat (vp_participation_balance vp)
          \<and> unat w = (\<Sum>oh\<leftarrow>vp_output_heights vp.
              (unat (vp_participation_balance vp) div length (vp_output_heights vp)) * age_factor oh h)
          \<and> db' = set_proposal_outcome (vp_proposal_id vp)
              (add_to_outcome (vp_direction_yes vp) w (vp_participation_balance vp)
                (case get_proposal_outcome (vp_proposal_id vp) db of None \<Rightarrow> zero_outcome | Some o' \<Rightarrow> o'))
              (add_vote_nullifier (vp_proposal_id vp) (vote_nullifier vp) db)))"
proof (cases "r = success")
  case True
  with process_v1_cases [OF assms] obtain vp rec where
    v: "extract_vote tx = Some vp" "get_proposal_record (vp_proposal_id vp) db = Some rec"
      "\<not> dao_v2_active h" "pr_submission_height rec \<le> h" "h \<le> pr_voting_end_height rec"
    and c: "count_vote vp h db = (success, db')" by auto
  from count_vote_cases [OF c] obtain w where
    w: "vote_weight vp h = Some w" "w \<noteq> 0" "vote_nullifier vp \<noteq> null_hash"
      "(vp_proposal_id vp, vote_nullifier vp) \<notin> db_nullifiers db"
    and db': "db' = set_proposal_outcome (vp_proposal_id vp)
      (add_to_outcome (vp_direction_yes vp) w (vp_participation_balance vp)
        (case get_proposal_outcome (vp_proposal_id vp) db of None \<Rightarrow> zero_outcome | Some o' \<Rightarrow> o'))
      (add_vote_nullifier (vp_proposal_id vp) (vote_nullifier vp) db)" by auto
  have "unat w = (\<Sum>oh\<leftarrow>vp_output_heights vp.
      (unat (vp_participation_balance vp) div length (vp_output_heights vp)) * age_factor oh h)"
    using vote_weightD [OF w(1)] by simp
  moreover from this have "unat w \<le> 12 * unat (vp_participation_balance vp)"
    using output_weights_bound [of "vp_participation_balance vp" "vp_output_heights vp" h]
    by (simp add: unat_share)
  ultimately show ?thesis
    using v w(2-4) db' \<open>r = success\<close>
    by (auto simp: dao_v2_active_def has_vote_nullifier_def not_le intro!: exI [of _ vp] exI [of _ rec] exI [of _ w])
next
  case False
  with process_v1_cases [OF assms] count_vote_cases show ?thesis by blast
qed

section \<open>Vote transactions\<close>

text \<open>The extra field of a transaction that carries the fields \<open>fs\<close> and then a V1 vote.\<close>

abbreviation vote_payload :: "vote_proof \<Rightarrow> governance_payload" where
  "vote_payload vp \<equiv> \<lparr>gpl_type = GO_vote, gpl_data = put_vote_proof vp\<rparr>"

definition vote_extra :: "tx_extra_field list \<Rightarrow> vote_proof \<Rightarrow> bytes" where
  "vote_extra fs vp = concat (map put_tx_extra_field (fs @ [tx_extra_governance_payload (vote_payload vp)]))"

definition vote_sendable :: "vote_proof \<Rightarrow> bool" where
  "vote_sendable vp \<longleftrightarrow> vote_fits vp \<and> fits64 (put_vote_proof vp)"

lemma vote_extra_parsed:
  assumes "\<forall>f \<in> set fs. field_fits f" "governance_payloads fs = []" "vote_sendable vp"
    "tx_extra tx = vote_extra fs vp"
  shows "classify_vote_tx tx = vote_v1" "extract_vote tx = Some vp"
proof -
  let ?fs = "fs @ [tx_extra_governance_payload (vote_payload vp)]"
  have parse: "parse_tx_extra (tx_extra tx) = Some ?fs"
    unfolding assms(4) vote_extra_def using assms(1,3)
    by (intro parse_put_fields) (auto simp: vote_sendable_def)
  have gps: "governance_payloads ?fs = [vote_payload vp]"
    using assms(2) by (simp add: governance_payloads_def)
  show "classify_vote_tx tx = vote_v1" by (simp add: classify_vote_tx_def parse gps)
  show "extract_vote tx = Some vp"
    using assms(3) by (simp add: extract_vote_def first_governance_payload_def parse gps vote_sendable_def vote_codec.parse_all_enc)
qed

lemma dropWhile_tag:
  "byte_of 64 \<notin> set p \<Longrightarrow> dropWhile (\<lambda>c. byte_val c \<noteq> 64) (p @ byte_of 64 # r) = byte_of 64 # r"
proof -
  have "byte_val c = 64 \<longleftrightarrow> c = byte_of 64" for c
    using byte_val_inject [of c "byte_of 64"] by (simp del: byte_val_inject)
  moreover assume "byte_of 64 \<notin> set p"
  ultimately show ?thesis by (subst dropWhile_append2) auto
qed

lemma is_vote_tx_tagged:
  "tx_extra tx = p @ byte_of 64 # r \<Longrightarrow> byte_of 64 \<notin> set p \<Longrightarrow>
     is_vote_tx tx \<longleftrightarrow> (\<exists>gp. parse_all get_governance_payload r = Some gp \<and> gpl_type gp = GO_vote)"
  by (simp add: is_vote_tx_def dropWhile_tag split: option.splits)

text \<open>Read one byte early, the tag is a type of 64 and the type a data length of 1.\<close>

lemma shifted_payload_rejected:
  "1 < length d \<Longrightarrow> parse_all get_governance_payload (byte_of 64 # put_governance_payload \<lparr>gpl_type = GO_vote, gpl_data = d\<rparr>) = None"
proof -
  assume d: "1 < length d"
  have w: "put_governance_payload \<lparr>gpl_type = GO_vote, gpl_data = d\<rparr> = byte_of 1 # write_varint (length d) @ d"
    by (simp add: put_governance_payload_def put_varint8_def put_string_def write_varint.simps [of "Suc 0"])
  obtain c cs where c: "write_varint (length d) = c # cs"
    by (cases "write_varint (length d)") (simp_all add: write_varint.simps [of "length d"] split: if_splits)
  have "d \<noteq> []" using d by auto
  with d show ?thesis
    by (simp add: parse_all_def get_governance_payload_def w c get_varint8_def get_string_def read_varint_def split: list.split)
qed

text \<open>
  A transaction with a public key and then a V1 vote is classified as a V1 vote and its vote is
  read back whatever the key is; but the vote is recognised by a scan for the first byte 0x40 of
  the raw extra field. If the key has no such byte, the vote is found. If its last byte is the
  first such byte, the vote is passed over: \<^verbatim>\<open>process_v1_vote\<close> reports a missing tag, at any height
  and in any state, and nothing is counted.
\<close>
theorem vote_tag_scan:
  assumes "length k = 32" "vote_sendable vp" "tx_extra tx = vote_extra [tx_extra_pub_key k] vp"
  shows "classify_vote_tx tx = vote_v1 \<and> extract_vote tx = Some vp
    \<and> (byte_of 64 \<notin> set k \<longrightarrow> is_vote_tx tx)
    \<and> (byte_of 64 \<notin> set (butlast k) \<and> last k = byte_of 64 \<longrightarrow>
         process_v1_vote tx h dry_run db = (missing_vote_tag, db))"
proof (intro conjI impI)
  show "classify_vote_tx tx = vote_v1" "extract_vote tx = Some vp"
    using assms by (auto intro!: vote_extra_parsed [of "[tx_extra_pub_key k]"] simp: governance_payloads_def)
  have extra: "tx_extra tx = byte_of 1 # k @ byte_of 64 # put_governance_payload (vote_payload vp)"
    using assms(3) by (simp add: vote_extra_def)
  have tags: "byte_of 64 \<noteq> byte_of 1" by (simp add: byte_of_eval)
  {
    assume "byte_of 64 \<notin> set k"
    then show "is_vote_tx tx"
      using extra tags assms(2)
      by (subst is_vote_tx_tagged [of _ "byte_of 1 # k"]) (auto simp: vote_sendable_def envelope.parse_all_enc)
  next
    assume k: "byte_of 64 \<notin> set (butlast k) \<and> last k = byte_of 64"
    then have "k = butlast k @ [byte_of 64]" using assms(1) by (metis append_butlast_last_id length_0_conv zero_neq_numeral)
    then have "tx_extra tx = (byte_of 1 # butlast k) @ byte_of 64 # byte_of 64 # put_governance_payload (vote_payload vp)"
      using extra by (metis append.assoc append_Cons append_Nil)
    moreover have "1 < length (put_vote_proof vp)"
      using assms(2) by (simp add: put_vote_proof_def vote_sendable_def vote_fits_def)
    ultimately have "\<not> is_vote_tx tx"
      using k tags by (subst is_vote_tx_tagged [of _ "byte_of 1 # butlast k"]) (auto simp: shifted_payload_rejected)
    then show "process_v1_vote tx h dry_run db = (missing_vote_tag, db)" by (simp add: process_v1_vote_def)
  }
qed

section \<open>One vote per nullifier, and rollback\<close>

text \<open>
  A counted nullifier is spent for its proposal. As long as it stays in the table, no V1 vote
  with the same first nullifier is counted for that proposal again, whatever else it claims, at any
  height and in any later state of the other tables.
\<close>
theorem v1_vote_once:
  assumes "process_v1_vote tx h False db = (success, db1)" "extract_vote tx = Some vp"
    and "db_nullifiers db1 \<subseteq> db_nullifiers db2"
    and "extract_vote tx' = Some vp'" "vp_proposal_id vp' = vp_proposal_id vp"
    and "vote_nullifier vp' = vote_nullifier vp"
    and "process_v1_vote tx' h' False db2 = (r, db3)"
  shows "r \<noteq> success \<and> db3 = db2"
proof -
  from process_v1_cases [OF assms(1)] assms(2) have "count_vote vp h db = (success, db1)" by auto
  from count_vote_cases [OF this] have "(vp_proposal_id vp, vote_nullifier vp) \<in> db_nullifiers db1"
    by (auto simp: set_proposal_outcome_def add_vote_nullifier_def)
  with assms(3,5,6) have spent: "(vp_proposal_id vp', vote_nullifier vp') \<in> db_nullifiers db2" by auto
  from process_v1_cases [OF assms(7)] assms(4) count_vote_cases [of vp' h' db2 r db3] spent
  show ?thesis by auto
qed

lemma saturating_sub_add:
  assumes "unat (a :: u64) + unat b < 2 ^ 64"
  shows "saturating_sub (a + b) c = a \<longleftrightarrow> c = b \<or> a = 0 \<and> b \<le> c"
proof -
  have "unat (a + b) = unat a + unat b" using assms by (simp add: unat_word_ariths)
  then have le: "c \<le> a + b \<longleftrightarrow> unat c \<le> unat a + unat b" by (simp add: word_le_nat_alt)
  have "a + b - c = a \<longleftrightarrow> c = b" by (metis add_diff_cancel_left' diff_add_cancel add.commute)
  moreover have "b \<le> a + b" using assms by (simp add: word_le_nat_alt unat_word_ariths)
  moreover have "c \<le> a + b \<Longrightarrow> a = 0 \<and> b \<le> c \<Longrightarrow> c = b" by simp
  ultimately show ?thesis
    using le by (auto simp: saturating_sub_def word_le_nat_alt)
qed

lemma outcome_take_add:
  assumes "unat (if yes then out_yes_weight out else out_no_weight out) + unat w < 2 ^ 64"
    and "unat (if yes then out_yes_balance out else out_no_balance out) + unat b < 2 ^ 64"
  shows "take_from_outcome yes c b (add_to_outcome yes w b out) = out
    \<longleftrightarrow> c = w \<or> (if yes then out_yes_weight out else out_no_weight out) = 0 \<and> w \<le> c"
  using assms
  by (cases out) (auto simp: take_from_outcome_def add_to_outcome_def saturating_sub_add split: if_splits)

text \<open>
  C27: rolling a counted vote back restores the database exactly when the weight that the vote
  claims equals the weight that was counted (or the direction had no weight before, and the vote
  claims more than was counted): the rollback subtracts the claimed weight, not the counted one.
  The proposal must have had a tally, the tally must not have wrapped, and the vote must have had
  no entry in the older table of vote records.
\<close>
theorem v1_rollback_exact:
  assumes "process_v1_vote tx h False db = (success, db')" "extract_vote tx = Some vp"
    and w: "vote_weight vp h = Some w"
    and out: "get_proposal_outcome (vp_proposal_id vp) db = Some out"
    and "\<forall>ki. (vp_proposal_id vp, ki) \<notin> db_votes db"
    and "unat (if vp_direction_yes vp then out_yes_weight out else out_no_weight out) + unat w < 2 ^ 64"
    and "unat (if vp_direction_yes vp then out_yes_balance out else out_no_balance out)
          + unat (vp_participation_balance vp) < 2 ^ 64"
  shows "rollback_v1_vote tx db' = db \<longleftrightarrow>
    vp_voting_weight vp = w
    \<or> (if vp_direction_yes vp then out_yes_weight out else out_no_weight out) = 0 \<and> w \<le> vp_voting_weight vp"
proof -
  from process_v1_cases [OF assms(1)] assms(2) have "count_vote vp h db = (success, db')" by auto
  from count_vote_cases [OF this] w out have nf: "vote_nullifier vp \<noteq> null_hash"
      "(vp_proposal_id vp, vote_nullifier vp) \<notin> db_nullifiers db"
    and db': "db' = set_proposal_outcome (vp_proposal_id vp)
      (add_to_outcome (vp_direction_yes vp) w (vp_participation_balance vp) out)
      (add_vote_nullifier (vp_proposal_id vp) (vote_nullifier vp) db)" by auto
  have rec: "(case tx_vin tx of [txin_vns_vote _ _ ki _] \<Rightarrow> remove_vote_record (vp_proposal_id vp) ki db' | _ \<Rightarrow> db') = db'"
    using assms(5)
    by (auto simp: db' remove_vote_record_def set_proposal_outcome_def add_vote_nullifier_def split: list.split txin.split)
  have "rollback_v1_vote tx db' = db\<lparr>db_outcomes := (db_outcomes db)(vp_proposal_id vp \<mapsto>
      take_from_outcome (vp_direction_yes vp) (vp_voting_weight vp) (vp_participation_balance vp)
        (add_to_outcome (vp_direction_yes vp) w (vp_participation_balance vp) out))\<rparr>"
    using nf unfolding rollback_v1_vote_def assms(2) option.case Let_def rec
    by (simp add: db' remove_vote_nullifier_def set_proposal_outcome_def add_vote_nullifier_def get_proposal_outcome_def)
  then have "rollback_v1_vote tx db' = db \<longleftrightarrow>
      take_from_outcome (vp_direction_yes vp) (vp_voting_weight vp) (vp_participation_balance vp)
        (add_to_outcome (vp_direction_yes vp) w (vp_participation_balance vp) out) = out"
    using out by (auto simp: get_proposal_outcome_def fun_upd_idem dest!: arg_cong [of _ _ "\<lambda>d. db_outcomes d (vp_proposal_id vp)"])
  then show ?thesis by (simp add: outcome_take_add [OF assms(6,7)])
qed

text \<open>
  C36: only the first nullifier of a V1 vote is checked and recorded. A counted vote with at least
  two nullifiers is counted a second time, in the state that the first one left, when its first two
  nullifiers change places and the second one is still unspent: the same outputs add their weight
  and balance twice.
\<close>
theorem v1_vote_counted_twice:
  assumes "count_vote vp h db = (success, db1)" "vote_weight vp h = Some w"
    and "vp_voting_nullifiers vp = n1 # n2 # ns" "n2 \<noteq> n1" "n2 \<noteq> null_hash"
    and "\<not> has_vote_nullifier (vp_proposal_id vp) n2 db"
  shows "\<exists>db2 out. count_vote (vp\<lparr>vp_voting_nullifiers := n2 # n1 # ns\<rparr>) h db1 = (success, db2)
    \<and> get_proposal_outcome (vp_proposal_id vp) db1 =
        Some (add_to_outcome (vp_direction_yes vp) w (vp_participation_balance vp) out)
    \<and> get_proposal_outcome (vp_proposal_id vp) db2 =
        Some (add_to_outcome (vp_direction_yes vp) w (vp_participation_balance vp)
               (add_to_outcome (vp_direction_yes vp) w (vp_participation_balance vp) out))"
proof -
  let ?vp = "vp\<lparr>vp_voting_nullifiers := n2 # n1 # ns\<rparr>" and ?pid = "vp_proposal_id vp"
  define out where "out = (case get_proposal_outcome ?pid db of None \<Rightarrow> zero_outcome | Some o' \<Rightarrow> o')"
  from count_vote_cases [OF assms(1)] assms(2,3) have
    pos: "w \<noteq> 0" "vp_participation_balance vp \<noteq> 0" and
    db1: "db1 = set_proposal_outcome ?pid
      (add_to_outcome (vp_direction_yes vp) w (vp_participation_balance vp) out)
      (add_vote_nullifier ?pid n1 db)"
    by (auto simp: out_def vote_nullifier_def)
  have "vote_weight ?vp h = vote_weight vp h" unfolding vote_weight_def by (simp cong: if_cong) (simp add: assms(3))
  with assms(2) have "vote_weight ?vp h = Some w" by simp
  moreover have "\<not> has_vote_nullifier ?pid n2 db1"
    using assms(4,6) by (simp add: db1 has_vote_nullifier_def set_proposal_outcome_def add_vote_nullifier_def)
  moreover have "get_proposal_outcome ?pid db1 = Some (add_to_outcome (vp_direction_yes vp) w (vp_participation_balance vp) out)"
    by (simp add: db1 get_proposal_outcome_def set_proposal_outcome_def)
  ultimately show ?thesis
    using pos assms(5)
    by (simp add: count_vote_def Let_def vote_nullifier_def get_proposal_outcome_def set_proposal_outcome_def)
      (blast intro: refl)
qed

section \<open>An example\<close>

definition ex_vote :: vote_proof where
  "ex_vote =
     \<lparr>vp_version = 1, vp_proposal_id = ex_pid, vp_direction_yes = True, vp_snapshot_height = 0,
      vp_participation_balance = 1000000, vp_voting_weight = 7, vp_voting_nullifiers = [replicate 32 (CHR 0x02)],
      vp_output_heights = [100], vp_balance_commitment = replicate 32 NUL,
      vp_weight_commitment = replicate 32 NUL, vp_aggregate_proof = []\<rparr>"

definition ex_vote_tx :: transaction where
  "ex_vote_tx = \<lparr>tx_version = 2, tx_vin = [], tx_vout = [], tx_extra = vote_extra [] ex_vote\<rparr>"

definition ex_vote_db :: vns_db where
  "ex_vote_db = ex_db\<lparr>db_outcomes := [ex_pid \<mapsto>
     \<lparr>out_yes_weight = 5, out_no_weight = 0, out_yes_balance = 3, out_no_balance = 0\<rparr>]\<rparr>"

lemma ex_vote_sendable: "vote_sendable ex_vote"
proof -
  have "length (put_vote_proof ex_vote) = 139"
    by (simp add: put_vote_proof_def ex_vote_def ex_pid_def put_u8_def put_bool_def put_varint64_def
        put_vector_def put_string_def write_varint.simps)
  then show ?thesis by (simp add: vote_sendable_def vote_fits_def ex_vote_def ex_pid_def)
qed

lemma ex_vote_sel:
  "vp_version ex_vote = 1" "vp_proposal_id ex_vote = ex_pid" "vp_direction_yes ex_vote"
  "vp_participation_balance ex_vote = 1000000" "vp_voting_weight ex_vote = 7"
  "vote_nullifier ex_vote = replicate 32 (CHR 0x02)" "vote_nullifier ex_vote \<noteq> null_hash"
  by (simp_all add: ex_vote_def vote_nullifier_def)

lemma ex_vote_weight: "vote_weight ex_vote 5000 = Some 2000000"
proof -
  have "calculate_voting_weight 1000000 100 5000 = Some 2000000"
    by (simp add: calculate_voting_weight_def floor_log2.simps governance_w_max_def)
  then show ?thesis by (simp add: vote_weight_def ex_vote_def)
qed

lemma ex_vote_tx_parsed: "extract_vote ex_vote_tx = Some ex_vote" "is_vote_tx ex_vote_tx"
proof -
  show "extract_vote ex_vote_tx = Some ex_vote"
    by (rule vote_extra_parsed(2) [of "[]"]) (simp_all add: ex_vote_sendable ex_vote_tx_def governance_payloads_def)
  have "tx_extra ex_vote_tx = [] @ byte_of 64 # put_governance_payload (vote_payload ex_vote)"
    by (simp add: ex_vote_tx_def vote_extra_def)
  from is_vote_tx_tagged [OF this] show "is_vote_tx ex_vote_tx"
    using ex_vote_sendable by (simp add: vote_sendable_def envelope.parse_all_enc)
qed

lemma ex_vote_counted: "\<exists>db'. process_v1_vote ex_vote_tx 5000 False ex_vote_db = (success, db')"
proof -
  have "get_proposal_record ex_pid ex_vote_db = Some ex_proposal"
    using ex_db_wf(4) by (simp add: ex_vote_db_def get_proposal_record_def)
  moreover have "\<not> has_vote_nullifier ex_pid n ex_vote_db" for n
    by (simp add: has_vote_nullifier_def ex_vote_db_def ex_db_def empty_db_def)
  ultimately show ?thesis
    by (simp add: process_v1_vote_def ex_vote_tx_parsed ex_vote_sel ex_proposal_def dao_v2_active_def
        count_vote_def ex_vote_weight)
qed

theorem v1_vote_effect_witness:
  "\<exists>vp (w :: u64). extract_vote ex_vote_tx = Some vp \<and> w \<noteq> 0 \<and> unat w \<le> 12 * unat (vp_participation_balance vp)"
proof -
  from ex_vote_counted obtain db' where "process_v1_vote ex_vote_tx 5000 False ex_vote_db = (success, db')" ..
  from v1_vote_effect [OF this] show ?thesis by blast
qed

theorem v1_vote_once_witness:
  "\<exists>db1. process_v1_vote ex_vote_tx 5000 False ex_vote_db = (success, db1)
    \<and> snd (process_v1_vote ex_vote_tx 5001 False db1) = db1"
proof -
  from ex_vote_counted obtain db' where p: "process_v1_vote ex_vote_tx 5000 False ex_vote_db = (success, db')" ..
  obtain r db3 where q: "process_v1_vote ex_vote_tx 5001 False db' = (r, db3)" by fastforce
  from v1_vote_once [OF p ex_vote_tx_parsed(1) subset_refl ex_vote_tx_parsed(1) refl refl q] p q
  show ?thesis by auto
qed

theorem v1_rollback_exact_witness:
  "\<exists>db'. process_v1_vote ex_vote_tx 5000 False ex_vote_db = (success, db')
    \<and> rollback_v1_vote ex_vote_tx db' \<noteq> ex_vote_db"
proof -
  let ?out = "\<lparr>out_yes_weight = 5, out_no_weight = 0, out_yes_balance = 3, out_no_balance = 0\<rparr>"
  from ex_vote_counted obtain db' where p: "process_v1_vote ex_vote_tx 5000 False ex_vote_db = (success, db')" ..
  have "get_proposal_outcome (vp_proposal_id ex_vote) ex_vote_db = Some ?out"
    by (simp add: get_proposal_outcome_def ex_vote_db_def ex_vote_sel)
  moreover have "\<forall>ki. (vp_proposal_id ex_vote, ki) \<notin> db_votes ex_vote_db"
    by (simp add: ex_vote_db_def ex_db_def empty_db_def)
  ultimately have "rollback_v1_vote ex_vote_tx db' = ex_vote_db \<longleftrightarrow> (7 :: u64) = 2000000 \<or> (5 :: u64) = 0 \<and> 2000000 \<le> (7 :: u64)"
    using v1_rollback_exact [OF p ex_vote_tx_parsed(1) ex_vote_weight] by (simp add: ex_vote_sel)
  with p show ?thesis by simp
qed

theorem vote_tag_scan_witness:
  "\<exists>tx. classify_vote_tx tx = vote_v1
    \<and> process_v1_vote tx 5000 False ex_vote_db = (missing_vote_tag, ex_vote_db)"
proof -
  let ?k = "replicate 31 (CHR 0x05) @ [byte_of 64]"
  define tx where "tx = ex_vote_tx\<lparr>tx_extra := vote_extra [tx_extra_pub_key ?k] ex_vote\<rparr>"
  have "byte_of 64 \<noteq> CHR 0x05" by (simp add: byte_of_eval)
  with vote_tag_scan [of ?k ex_vote tx 5000 False ex_vote_db] show ?thesis
    by (intro exI [of _ tx]) (simp add: tx_def ex_vote_sendable butlast_append)
qed

theorem v1_vote_counted_twice_witness:
  "\<exists>db1 db2. count_vote (ex_vote\<lparr>vp_output_heights := [100, 100], vp_voting_nullifiers := [ex_pid, replicate 32 (CHR 0x02)]\<rparr>)
      5000 ex_vote_db = (success, db1)
    \<and> count_vote (ex_vote\<lparr>vp_output_heights := [100, 100], vp_voting_nullifiers := [replicate 32 (CHR 0x02), ex_pid]\<rparr>)
      5000 db1 = (success, db2)"
proof -
  let ?vp = "ex_vote\<lparr>vp_output_heights := [100, 100], vp_voting_nullifiers := [ex_pid, replicate 32 (CHR 0x02)]\<rparr>"
  have none: "\<not> has_vote_nullifier ex_pid n ex_vote_db" for n
    by (simp add: has_vote_nullifier_def ex_vote_db_def ex_db_def empty_db_def)
  have "calculate_voting_weight 500000 100 5000 = Some 1000000"
    by (simp add: calculate_voting_weight_def floor_log2.simps governance_w_max_def)
  moreover have "(word_of_nat (unat (1000000 :: u64) div length [ex_pid, replicate 32 (CHR 0x02)]) :: u64) = 500000"
    by (simp add: numeral_2_eq_2 [symmetric])
  ultimately have w: "vote_weight ?vp 5000 = Some 2000000"
    by (simp add: vote_weight_def ex_vote_sel del: list.size) simp
  have "ex_pid \<noteq> null_hash" by (simp add: ex_pid_def)
  then obtain db1 where c: "count_vote ?vp 5000 ex_vote_db = (success, db1)"
    using w none by (simp add: count_vote_def vote_nullifier_def ex_vote_sel)
  have "(replicate 32 (CHR 0x02) :: bytes) \<noteq> ex_pid" by (simp add: ex_pid_def)
  from v1_vote_counted_twice [OF c w _ this, of "[]"] none c show ?thesis
    by (auto simp: ex_vote_sel)
qed

end
