(* ===== verification/Governance.thy ===== *)
theory Governance
  imports Treasury_Flow Votes
begin

text \<open>
  The governance manager (\<^verbatim>\<open>src/src/governance/governance.cpp\<close>), which runs the managers of proposals, votes,
  lifecycle, execution and parameters on a block and rolls them back, and the order in which
  \<^verbatim>\<open>handle_block_to_main_chain\<close> and \<^verbatim>\<open>pop_block_from_blockchain\<close> combine it with the treasury.

  The state is a pair of the database and whatever the V2 votes keep. The environment of a node, which the
  managers get as arguments, is one record here.
\<close>

section \<open>The governance manager\<close>

record 'v node =
  nd_chain :: chain
  nd_params :: governance_params
  nd_addr :: "bool \<Rightarrow> bytes \<Rightarrow> bytes \<Rightarrow> string"
  nd_junk :: bytes
  nd_v2 :: "transaction \<Rightarrow> hash32 \<Rightarrow> u64 \<Rightarrow> 'v \<times> vns_db \<Rightarrow> vote_result \<times> 'v \<times> vns_db"
  nd_undo_v2 :: "transaction \<Rightarrow> hash32 \<Rightarrow> 'v \<times> vns_db \<Rightarrow> 'v \<times> vns_db"
  nd_get_tx :: "hash32 \<Rightarrow> transaction option"
  nd_tx_hash :: "transaction \<Rightarrow> hash32"
  nd_txn :: write_txn

record block =
  bk_height :: u64
  bk_tx_hashes :: "hash32 list"
  bk_miner_tx :: transaction
  bk_txs :: "transaction list"

definition governance_process_block :: "'v node \<Rightarrow> block \<Rightarrow> 'v \<times> vns_db \<Rightarrow> ('v \<times> vns_db) step" where
  "governance_process_block nd b s =
     (case proposals_process_block (nd_addr nd) (nd_junk nd) (nd_get_tx nd) (bk_height b) (bk_tx_hashes b) (snd s) of
        Threw_in db \<Rightarrow> Threw_in (fst s, db)
      | False_in db \<Rightarrow> False_in (fst s, db)
      | True_in db \<Rightarrow>
          (case votes_process_block (nd_v2 nd) (nd_get_tx nd) (bk_height b) (bk_tx_hashes b) (fst s, db) of
             (ok, s) \<Rightarrow>
               if \<not> ok then False_in s
               else
                 (case lifecycle_process_block (nd_chain nd) (nd_params nd) (nd_txn nd) (bk_height b) (snd s) of
                    (ok, db) \<Rightarrow>
                      if \<not> ok then False_in (fst s, db)
                      else True_in (fst s, execute_due (bk_height b) db))))"

text \<open>The proposals whose execution a transaction carries out, as the rollback finds them.\<close>

definition execution_ids :: "transaction \<Rightarrow> hash32 list" where
  "execution_ids tx =
     (case parse_tx_extra (tx_extra tx) of
        None \<Rightarrow> []
      | Some fs \<Rightarrow>
          concat (map (\<lambda>g. if gpl_type g = GO_execution
                           then (case parse_all get_execution_payload (gpl_data g) of
                                   None \<Rightarrow> [] | Some payload \<Rightarrow> [pex_proposal_id payload])
                           else []) (governance_payloads fs)))"

definition governance_rollback_block :: "'v node \<Rightarrow> block \<Rightarrow> 'v \<times> vns_db \<Rightarrow> 'v \<times> vns_db" where
  "governance_rollback_block nd b s =
     (let txs = bk_txs b;
          db = fold execution_rollback (concat (map (map fst \<circ> treasury_ins) txs)) (snd s);
          db = fold execution_rollback (concat (map execution_ids txs)) db;
          s = votes_rollback_block (nd_undo_v2 nd) (nd_tx_hash nd) (nd_get_tx nd) (bk_tx_hashes b) txs (fst s, db);
          db = lifecycle_rollback_block (bk_height b) (snd s);
          db = proposals_rollback_block (nd_tx_hash nd) txs db
      in (fst s, parameters_rollback_block (bk_height b) db))"

section \<open>Connecting and popping a block\<close>

definition connect_block :: "'v node \<Rightarrow> block \<Rightarrow> 'v \<times> vns_db \<Rightarrow> ('v \<times> vns_db) step" where
  "connect_block nd b s =
     and_then (governance_process_block nd b s)
       (\<lambda>s. case connect_treasury (nd_params nd) (nd_junk nd) (bk_height b) (bk_miner_tx b) (bk_txs b) (snd s) of
              Threw_in db \<Rightarrow> Threw_in (fst s, db)
            | False_in db \<Rightarrow> False_in (fst s, db)
            | True_in db \<Rightarrow> True_in (fst s, db))"

definition pop_block :: "'v node \<Rightarrow> u64 \<Rightarrow> block \<Rightarrow> 'v \<times> vns_db \<Rightarrow> 'v \<times> vns_db" where
  "pop_block nd stray b s =
     (case governance_rollback_block nd b s of
        (v, db) \<Rightarrow> (v, pop_treasury stray (bk_height b) (bk_txs b) db))"

section \<open>The invariant of the tables\<close>

definition tables_ok :: "vns_db \<Rightarrow> bool" where
  "tables_ok db \<longleftrightarrow> tables_wf db \<and> ids_ok db \<and> outputs_ok db"

lemma tables_okD: "tables_ok db \<Longrightarrow> tables_wf db" "tables_ok db \<Longrightarrow> ids_ok db" "tables_ok db \<Longrightarrow> outputs_ok db"
  by (simp_all add: tables_ok_def)

text \<open>Writing a proposal under its id, and leaving the tables or removing entries, keeps it.\<close>

lemma ids_ok_length: "tables_wf db \<Longrightarrow> get_proposal_record k db = Some rec \<Longrightarrow> length k = 32"
  using get_proposal_in [of db k rec] tables_wfD(12) [of db] by auto

lemma tables_ok_add_proposal:
  assumes "tables_ok db" "length k = 32" "pr_proposal_id rec = k"
  shows "tables_ok (add_proposal_record k rec db)"
proof -
  note wf = tables_okD(1) [OF assms(1)]
  have "tables_wf (add_proposal_record k rec db)"
    using wf wf_add_proposal [OF tables_wfD(11,12) [OF wf] assms(2)] tables_wfD(12) [OF wf] assms(2)
    by (auto simp: tables_wf_def set_add_proposal) (simp_all add: add_proposal_record_def)
  moreover have "ids_ok (add_proposal_record k rec db)"
    using tables_okD(2) [OF assms(1)] assms(3) by (auto simp: ids_ok_def)
  moreover have "outputs_ok (add_proposal_record k rec db)"
    using tables_okD(3) [OF assms(1)] by (simp add: outputs_ok_def add_proposal_record_def)
  ultimately show ?thesis by (simp add: tables_ok_def)
qed

lemmas ok_defs = tables_ok_def tables_wf_def ids_ok_def get_proposal_record_def outputs_ok_def

text \<open>The managers of proposals and votes.\<close>

lemma tables_ok_index:
  assumes "index_proposal addr junk tx h height db = True_in db'" "tables_ok db" "length h = 32"
  shows "tables_ok db'"
proof (cases "is_proposal_tx tx")
  case True
  show ?thesis
  proof (rule index_cases [OF assms(1) True])
    fix p blob d q t
    let ?rec = "proposal_record_of addr junk p h height"
    assume db': "db' = with_tables (db_proposals (add_proposal_record h ?rec db)) d q t db"
      and q: "cursor_put_new queue_place (voting_end p height + 1, h) (db_voting_end_queue db) = Some q"
      and t: "t = db_pending_domain db \<or>
        (\<exists>r. pd_proposal_id r = h \<and> cursor_put_new pending_place r (db_pending_domain db) = Some t)"
    have "tables_ok (add_proposal_record h ?rec db)"
      by (rule tables_ok_add_proposal [OF assms(2,3)]) (simp add: proposal_record_of_def)
    moreover have "table_wf queue_place q"
      by (rule cursor_put_new_wf [OF tables_wfD(10) [OF tables_okD(1) [OF assms(2)]] q])
    moreover have "table_wf pending_place t"
      using t cursor_put_new_wf [OF tables_wfD(8) [OF tables_okD(1) [OF assms(2)]], of _ t]
        tables_wfD(8) [OF tables_okD(1) [OF assms(2)]] by auto
    moreover have "db_treasury_outputs (add_proposal_record h ?rec db) = db_treasury_outputs db"
      by (simp add: add_proposal_record_def)
    ultimately show ?thesis
      using assms(2) unfolding db' by (simp add: ok_defs with_tables_def)
  qed
next
  case False
  with assms show ?thesis by (simp add: index_proposal_def)
qed

lemma tables_ok_proposals:
  "proposals_process_block addr junk get_tx height hs db = True_in db' \<Longrightarrow> tables_ok db \<Longrightarrow>
   \<forall>h \<in> set hs. length h = 32 \<Longrightarrow> tables_ok db'"
proof (induction hs arbitrary: db)
  case (Cons h hs)
  then obtain tx where tx: "get_tx h = Some tx" by (auto split: option.splits)
  show ?case
  proof (cases "is_proposal_tx tx")
    case True
    with Cons.prems(1) tx obtain db1 where "index_proposal addr junk tx h height db = True_in db1"
      "proposals_process_block addr junk get_tx height hs db1 = True_in db'"
      by (cases "index_proposal addr junk tx h height db") auto
    with Cons.IH tables_ok_index Cons.prems(2,3) show ?thesis by auto
  qed (use Cons tx in simp)
qed simp

text \<open>A vote leaves everything but the tallies, the nullifiers and the vote records as it was.\<close>

definition only_votes :: "vns_db \<Rightarrow> vns_db \<Rightarrow> bool" where
  "only_votes db db' \<longleftrightarrow> db' = db\<lparr>db_nullifiers := db_nullifiers db', db_outcomes := db_outcomes db', db_votes := db_votes db'\<rparr>"

lemma only_votes_refl [simp]: "only_votes db db"
  by (simp add: only_votes_def)

lemma only_votes_trans: "only_votes db db1 \<Longrightarrow> only_votes db1 db2 \<Longrightarrow> only_votes db db2"
  unfolding only_votes_def by (cases db, cases db1, cases db2) simp

lemma only_votesD:
  assumes "only_votes db db'"
  shows "tables_ok db' = tables_ok db" "db_proposals db' = db_proposals db" "db_treasury_balance db' = db_treasury_balance db"
proof -
  obtain n c v where "db' = db\<lparr>db_nullifiers := n, db_outcomes := c, db_votes := v\<rparr>" using assms unfolding only_votes_def by blast
  then show "tables_ok db' = tables_ok db" "db_proposals db' = db_proposals db" "db_treasury_balance db' = db_treasury_balance db"
    by (simp_all add: ok_defs)
qed

lemma v1_only_votes: "process_v1_vote tx height dry_run db = (r, db') \<Longrightarrow> only_votes db db'"
  by (auto simp: process_v1_vote_def count_vote_def Let_def only_votes_def set_proposal_outcome_def add_vote_nullifier_def
      split: if_splits option.splits)

lemma v1_rollback_only_votes: "only_votes db (rollback_v1_vote tx db)"
  by (auto simp: rollback_v1_vote_def Let_def only_votes_def set_proposal_outcome_def remove_vote_nullifier_def
      remove_vote_record_def split: option.splits list.splits txin.splits)

text \<open>The V2 votes write their own tables and the nullifiers.\<close>

definition v2_local :: "'v node \<Rightarrow> bool" where
  "v2_local nd \<longleftrightarrow>
     (\<forall>tx h height v db. only_votes db (snd (snd (nd_v2 nd tx h height (v, db)))))
     \<and> (\<forall>tx h v db. only_votes db (snd (nd_undo_v2 nd tx h (v, db))))"

lemma v2_localD:
  assumes "v2_local nd"
  shows "nd_v2 nd tx h height s = (r, s') \<Longrightarrow> only_votes (snd s) (snd s')"
    "only_votes (snd s) (snd (nd_undo_v2 nd tx h s))"
proof -
  obtain v db where s: "s = (v, db)" by (cases s)
  have "only_votes db (snd (snd (nd_v2 nd tx h height (v, db))))" "only_votes db (snd (nd_undo_v2 nd tx h (v, db)))"
    using assms unfolding v2_local_def by blast+
  then show "nd_v2 nd tx h height s = (r, s') \<Longrightarrow> only_votes (snd s) (snd s')"
    "only_votes (snd s) (snd (nd_undo_v2 nd tx h s))" by (simp_all add: s)
qed

lemma votes_only_votes:
  assumes "v2_local nd"
  shows "votes_process_block (nd_v2 nd) get_tx height hs s = (ok, s') \<Longrightarrow> only_votes (snd s) (snd s')"
proof (induction hs arbitrary: s)
  case (Cons h hs)
  obtain ok1 s1 where p: "process_vote_tx (nd_v2 nd) get_tx height h s = (ok1, s1)" by (cases "process_vote_tx (nd_v2 nd) get_tx height h s")
  have "only_votes (snd s) (snd s1)"
    using p v1_only_votes v2_localD(1) [OF assms]
    by (auto simp: process_vote_tx_def split: option.splits vote_kind.splits prod.splits)
  from only_votes_trans [OF this Cons.IH] this Cons.prems p show ?case by (simp split: if_splits)
qed simp

lemma votes_rollback_only_votes:
  assumes "v2_local nd"
  shows "only_votes (snd s) (snd (votes_rollback_block (nd_undo_v2 nd) tx_hash get_tx hs txs s))"
proof -
  have step: "only_votes (snd s) (snd (rollback_vote_tx (nd_undo_v2 nd) find h s))" for find h s
    by (simp add: rollback_vote_tx_def v2_localD(2) [OF assms] v1_rollback_only_votes split: option.split vote_kind.split)
  have "only_votes (snd s) (snd (fold (rollback_vote_tx (nd_undo_v2 nd) find) hs s))" for find s
  proof (induction hs arbitrary: s)
    case (Cons h hs)
    from only_votes_trans [OF step Cons] show ?case by simp
  qed simp
  then show ?thesis by (simp add: votes_rollback_block_def)
qed

text \<open>The lifecycle and the queues.\<close>

lemma tables_ok_update:
  "table_wf queue_place q \<Longrightarrow> tables_ok db \<Longrightarrow> tables_ok (db\<lparr>db_pending_executions := q\<rparr>)"
  "table_wf queue_place q \<Longrightarrow> tables_ok db \<Longrightarrow> tables_ok (db\<lparr>db_voting_end_queue := q\<rparr>)"
  "table_wf pending_place t \<Longrightarrow> tables_ok db \<Longrightarrow> tables_ok (db\<lparr>db_pending_domain := t\<rparr>)"
  "tables_ok (db\<lparr>db_executions := e\<rparr>) = tables_ok db"
  "tables_ok (db\<lparr>db_treasury_balance := b\<rparr>) = tables_ok db"
  "tables_ok (db\<lparr>db_treasury_counter := c\<rparr>) = tables_ok db"
  by (simp_all add: ok_defs)

lemma tables_ok_evaluate:
  assumes "evaluate_proposal ch gp pid height db = True_in db'" "tables_ok db"
  shows "tables_ok db'"
proof -
  obtain rec where rec: "get_proposal_record pid db = Some rec" using assms(1) by (auto simp: evaluate_proposal_def split: option.splits)
  have id: "pr_proposal_id rec = pid" "length pid = 32"
    using ids_okD [OF tables_okD(2) [OF assms(2)] rec] ids_ok_length [OF tables_okD(1) [OF assms(2)] rec] by auto
  have "tables_ok db1" if "add_pending_execution h pid db = Some db1" for h db1
    using that assms(2) cursor_put_new_wf [OF tables_wfD(9) [OF tables_okD(1) [OF assms(2)]]]
    by (auto simp: add_pending_execution_def intro: tables_ok_update(1))
  moreover have "tables_ok (unlock_domain pid db)"
    using assms(2) tables_wfD(8) [OF tables_okD(1) [OF assms(2)]]
    by (auto simp: unlock_domain_def remove_pending_domain_policy_by_domain_def intro!: tables_ok_update(3) split: option.split)
  moreover have "tables_ok (add_proposal_record (pr_proposal_id rec) (rec\<lparr>pr_status := st, pr_status_height := height\<rparr>) d)"
    if "tables_ok d" for st d
    using that id by (intro tables_ok_add_proposal) simp_all
  ultimately show ?thesis
    using assms rec by (auto simp: evaluate_proposal_def split: option.splits if_splits)
qed

lemma tables_ok_lifecycle_loop:
  "lifecycle_loop ch gp height pids db = True_in db' \<Longrightarrow> tables_ok db \<Longrightarrow> tables_ok db'"
proof (induction pids arbitrary: db)
  case (Cons pid pids)
  have "tables_ok (remove_voting_end_entry height pid d)" if "tables_ok d" for d
    using that tables_wfD(10) [OF tables_okD(1) [OF that]] by (auto simp: remove_voting_end_entry_def intro: tables_ok_update(2))
  with Cons tables_ok_evaluate show ?case by (auto split: option.splits if_splits step.splits)
qed simp

lemma tables_ok_lifecycle:
  "lifecycle_process_block ch gp txn height db = (True, db') \<Longrightarrow> tables_ok db \<Longrightarrow> tables_ok db'"
  using tables_ok_lifecycle_loop
  by (auto simp: lifecycle_process_block_def in_write_txn_def Let_def split: if_splits step.splits)

lemma execute_due_effect:
  "tables_ok db \<Longrightarrow> tables_ok (execute_due h db)" "db_proposals (execute_due h db) = db_proposals db"
  "db_treasury_balance (execute_due h db) = db_treasury_balance db"
proof -
  have step: "tables_ok db \<Longrightarrow> tables_ok (execute_due_entry e db)" "db_proposals (execute_due_entry e db) = db_proposals db"
    "db_treasury_balance (execute_due_entry e db) = db_treasury_balance db" for e db
    using tables_wfD(9) [OF tables_okD(1), of db]
    by (auto simp: execute_due_entry_def remove_pending_execution_def intro: tables_ok_update(1) split: prod.splits option.splits)
  have "tables_ok db \<Longrightarrow> tables_ok (fold execute_due_entry es db)" "db_proposals (fold execute_due_entry es db) = db_proposals db"
    "db_treasury_balance (fold execute_due_entry es db) = db_treasury_balance db" for es
    by (induction es arbitrary: db) (simp_all add: step)
  then show "tables_ok db \<Longrightarrow> tables_ok (execute_due h db)" "db_proposals (execute_due h db) = db_proposals db"
    "db_treasury_balance (execute_due h db) = db_treasury_balance db"
    by (simp_all add: execute_due_def)
qed

text \<open>The treasury.\<close>

lemma tables_ok_put_output: "tables_ok db \<Longrightarrow> to_output_id out = k \<Longrightarrow> tables_ok (put_treasury_output k out db)"
  using put_output_ok [of db out k] by (simp add: tables_ok_def tables_wf_def ids_ok_def get_proposal_record_def put_treasury_output_def)

lemma tables_ok_store: "tables_ok db \<Longrightarrow> tables_ok (store_output h a db)"
  by (auto simp: store_output_def add_treasury_output_def Let_def intro!: tables_ok_put_output simp: tables_ok_update)

lemma tables_ok_credit: "tables_ok db \<Longrightarrow> tables_ok (credit_output h a db)"
  by (simp add: credit_output_eq set_treasury_balance_def tables_ok_update tables_ok_store)

lemma tables_ok_mark:
  assumes "tables_ok db"
  shows "tables_ok (mark_treasury_output_spent k b db)"
proof (cases "get_treasury_output k db")
  case (Some out)
  then have "to_output_id out = k"
    using tables_okD(3) [OF assms] by (force simp: outputs_ok_def get_treasury_output_def dest: map_of_SomeD)
  with Some assms show ?thesis by (simp add: mark_treasury_output_spent_def tables_ok_put_output)
qed (simp add: mark_treasury_output_spent_def assms)

lemma tables_ok_fold: "(\<And>x db. tables_ok db \<Longrightarrow> tables_ok (f x db)) \<Longrightarrow> tables_ok db \<Longrightarrow> tables_ok (fold f xs db)"
  by (induction xs arbitrary: db) simp_all

lemma tables_ok_spend: "spend_inputs is s = True_in s' \<Longrightarrow> tables_ok (snd s) \<Longrightarrow> tables_ok (snd s')"
proof (induction "is" arbitrary: s)
  case (Cons i "is")
  let ?s = "(if fst s = None then Some (fst i) else fst s, mark_treasury_output_spent (snd i) True (snd s))"
  from Cons.prems have "spend_inputs is ?s = True_in s'" "tables_ok (snd ?s)" by (auto simp: tables_ok_mark split: if_splits)
  then show ?case by (rule Cons.IH)
qed simp

lemma tables_ok_deduct:
  assumes "deduct_grant h pid db = True_in db'" "tables_ok db"
  shows "tables_ok db'"
proof -
  obtain rec where rec: "get_proposal_record pid db = Some rec"
    using assms(1) by (auto simp: deduct_grant_def get_proposal_record_in_txn_def get_proposal_record_def split: option.splits)
  have "pr_proposal_id rec = pid" "length pid = 32"
    using ids_okD [OF tables_okD(2) [OF assms(2)] rec] ids_ok_length [OF tables_okD(1) [OF assms(2)] rec] by auto
  with assms rec show ?thesis
    by (auto simp: deduct_grant_def Let_def get_proposal_record_in_txn_def get_proposal_record_def [symmetric]
        set_treasury_balance_in_txn_def add_proposal_execution_record_def tables_ok_update
        intro!: tables_ok_add_proposal split: if_splits)
qed

lemma tables_ok_policy:
  "table_wf parameter_place t1 \<Longrightarrow> tables_ok db \<Longrightarrow> tables_ok (db\<lparr>db_parameters := t1\<rparr>)"
  "table_wf extension_place t2 \<Longrightarrow> tables_ok db \<Longrightarrow> tables_ok (db\<lparr>db_extension_policy := t2\<rparr>)"
  "table_wf premium_label_place t3 \<Longrightarrow> tables_ok db \<Longrightarrow> tables_ok (db\<lparr>db_premium_label_policy := t3\<rparr>)"
  "table_wf banned_label_place t4 \<Longrightarrow> tables_ok db \<Longrightarrow> tables_ok (db\<lparr>db_banned_label_policy := t4\<rparr>)"
  "table_wf banned_extension_place t5 \<Longrightarrow> tables_ok db \<Longrightarrow> tables_ok (db\<lparr>db_banned_extension_policy := t5\<rparr>)"
  "table_wf exact_ban_place t6 \<Longrightarrow> tables_ok db \<Longrightarrow> tables_ok (db\<lparr>db_exact_ban_policy := t6\<rparr>)"
  "table_wf exact_tier_place t7 \<Longrightarrow> tables_ok db \<Longrightarrow> tables_ok (db\<lparr>db_exact_tier_policy := t7\<rparr>)"
  by (simp_all add: ok_defs)

lemma tables_ok_payload:
  assumes "execute_payload gp height rec junk blob db = Applied db'" "tables_ok db"
  shows "tables_ok db'"
proof -
  note D = tables_wfD [OF tables_okD(1) [OF assms(2)]]
  note puts = add_parameter_records_wf(1) [OF D(1)] ext_tab.put_wf [OF D(2)] prem_tab.put_wf [OF D(3)] blab_tab.put_wf [OF D(4)]
    bext_tab.put_wf [OF D(5)] eban_tab.put_wf [OF D(6)] etier_tab.put_wf [OF D(7)]
  show ?thesis
    using assms
    by (auto simp: execute_payload_def execute_fee_update_def execute_extension_update_def execute_premium_update_def
        execute_label_ban_update_def execute_extension_ban_update_def execute_domain_tier_update_def
        execute_domain_ban_update_def Let_def intro!: tables_ok_policy intro: puts
        split: if_splits option.splits prod.splits)
qed

lemma tables_ok_parameters:
  assumes "execute_parameters gp junk h tx db = True_in db'" "tables_ok db"
  shows "tables_ok db'"
proof (cases "is_parameter_execution_tx tx")
  case (Some pid)
  with assms(1) have "process_parameter_execution gp h pid junk db = Applied db'"
    by (auto simp: execute_parameters_def split: exec_result.splits)
  then show ?thesis
  proof (rule execution_cases)
    fix rec blob db1
    assume rec: "get_proposal_record pid db = Some rec" and p: "execute_payload gp h rec junk blob db = Applied db1"
      and db': "db' = mark_executed h rec db1"
    have "pr_proposal_id rec = pid" "length pid = 32"
      using ids_okD [OF tables_okD(2) [OF assms(2)] rec] ids_ok_length [OF tables_okD(1) [OF assms(2)] rec] by auto
    with tables_ok_payload [OF p assms(2)] show ?thesis
      by (auto simp: db' mark_executed_def add_proposal_execution_record_def tables_ok_update intro!: tables_ok_add_proposal)
  qed
qed (use assms in \<open>simp add: execute_parameters_def\<close>)

lemma tables_ok_treasury_tx:
  assumes "treasury_tx gp junk height tx db = True_in db'" "tables_ok db"
  shows "tables_ok db'"
proof -
  obtain s where s: "spend_inputs (treasury_ins tx) (None, db) = True_in s"
    using assms(1) by (auto simp: treasury_tx_def split: step.splits)
  then obtain db1 where d: "(case fst s of None \<Rightarrow> True_in (snd s) | Some pid \<Rightarrow> deduct_grant height pid (snd s)) = True_in db1"
    and p: "execute_parameters gp junk height tx (fold (store_output height) (treasury_outs tx) db1) = True_in db'"
    using assms(1)
    by (cases "case fst s of None \<Rightarrow> True_in (snd s) | Some pid \<Rightarrow> deduct_grant height pid (snd s)")
      (auto simp: treasury_tx_def)
  have "tables_ok (snd s)" using tables_ok_spend [OF s] assms(2) by simp
  then have "tables_ok db1" using d by (auto split: option.splits intro: tables_ok_deduct)
  then have "tables_ok (fold (store_output height) (treasury_outs tx) db1)" by (rule tables_ok_fold [rotated]) (rule tables_ok_store)
  with tables_ok_parameters [OF p] show ?thesis .
qed

lemma tables_ok_treasury_txs: "treasury_txs gp junk height txs db = True_in db' \<Longrightarrow> tables_ok db \<Longrightarrow> tables_ok db'"
proof (induction txs arbitrary: db)
  case (Cons tx txs)
  then obtain db1 where "treasury_tx gp junk height tx db = True_in db1" "treasury_txs gp junk height txs db1 = True_in db'"
    by (cases "treasury_tx gp junk height tx db") auto
  with Cons.IH tables_ok_treasury_tx Cons.prems(2) show ?case by blast
qed simp

lemma tables_ok_connect_treasury:
  assumes "connect_treasury gp junk height miner_tx txs db = True_in db'" "tables_ok db"
  shows "tables_ok db'"
proof (rule connect_cases [OF assms(1)])
  fix db1
  assume t: "treasury_txs gp junk height txs (credit_miner height miner_tx db) = True_in db1"
    and db': "db' = credit_donations height txs db1"
  have "tables_ok (credit_miner height miner_tx db)"
    unfolding credit_miner_def by (rule tables_ok_fold [OF tables_ok_credit assms(2)])
  from tables_ok_treasury_txs [OF t this] show ?thesis
    unfolding db' credit_donations_def by (intro tables_ok_fold) (auto intro: tables_ok_fold tables_ok_credit)
qed

text \<open>The rollbacks.\<close>

lemma execution_rollback_ok: "tables_ok db \<Longrightarrow> tables_ok (execution_rollback pid db)"
proof (cases "get_proposal_record pid db")
  case (Some rec)
  assume ok: "tables_ok db"
  have "pr_proposal_id rec = pid" "length pid = 32"
    using ids_okD [OF tables_okD(2) [OF ok] Some] ids_ok_length [OF tables_okD(1) [OF ok] Some] by auto
  with ok Some show ?thesis
    by (auto simp: execution_rollback_def Let_def remove_proposal_execution_record_def tables_ok_update intro!: tables_ok_add_proposal)
qed (simp add: execution_rollback_def)

lemma tables_ok_remove_proposal:
  "tables_ok db \<Longrightarrow> tables_ok (remove_proposal_record k db)"
  by (auto simp: tables_ok_def ids_ok_def) (auto simp: tables_wf_def outputs_ok_def remove_proposal_record_def)

lemma proposals_rollback_ok: "tables_ok db \<Longrightarrow> tables_ok (proposals_rollback_block tx_hash txs db)"
proof -
  have "tables_ok (rollback_proposal h db)" if ok: "tables_ok db" for h db
  proof -
    let ?d = "db\<lparr>db_pending_domain := remove_pending_domain_policy_by_proposal h (db_pending_domain db)\<rparr>"
    have d: "tables_ok ?d"
      using tables_wfD(8) [OF tables_okD(1) [OF ok]]
      by (intro tables_ok_update ok) (simp add: remove_pending_domain_policy_by_proposal_def)
    then have "tables_ok (remove_voting_end_entry e h ?d)" for e
      using tables_wfD(10) [OF tables_okD(1) [OF d]] unfolding remove_voting_end_entry_def by (intro tables_ok_update(2)) simp_all
    with d show ?thesis by (auto simp: rollback_proposal_def Let_def intro!: tables_ok_remove_proposal split: option.split)
  qed
  then show "tables_ok db \<Longrightarrow> ?thesis"
    unfolding proposals_rollback_block_def by (intro tables_ok_fold) auto
qed

lemma parameters_rollback_ok: "tables_ok db \<Longrightarrow> tables_ok (parameters_rollback_block h db)"
  using param_tab.del_wf ext_tab.del_wf prem_tab.del_wf blab_tab.del_wf bext_tab.del_wf eban_tab.del_wf etier_tab.del_wf
  by (simp add: ok_defs parameters_rollback_block_def)

lemma execution_rollback_balance [simp]: "db_treasury_balance (execution_rollback pid db) = db_treasury_balance db"
  by (simp add: execution_rollback_def Let_def remove_proposal_execution_record_def split: option.split)

section \<open>The steps of a node\<close>

lemma governance_cases:
  assumes "governance_process_block nd b s = True_in s'"
  obtains db1 s1 db2 where
    "proposals_process_block (nd_addr nd) (nd_junk nd) (nd_get_tx nd) (bk_height b) (bk_tx_hashes b) (snd s) = True_in db1"
    "votes_process_block (nd_v2 nd) (nd_get_tx nd) (bk_height b) (bk_tx_hashes b) (fst s, db1) = (True, s1)"
    "lifecycle_process_block (nd_chain nd) (nd_params nd) (nd_txn nd) (bk_height b) (snd s1) = (True, db2)"
    "s' = (fst s1, execute_due (bk_height b) db2)"
  using assms that by (auto simp: governance_process_block_def split: step.splits prod.splits if_splits)

lemma connect_block_cases:
  assumes "connect_block nd b s = True_in s'"
  obtains s1 where "governance_process_block nd b s = True_in s1"
    "connect_treasury (nd_params nd) (nd_junk nd) (bk_height b) (bk_miner_tx b) (bk_txs b) (snd s1) = True_in (snd s')"
  using assms that
  by (cases "governance_process_block nd b s") (auto simp: connect_block_def split: step.splits)

text \<open>
  A block may be connected when the hashes of its transactions are proper hashes under which no proposal
  is stored yet. Any block may be popped.
\<close>

definition fresh_block :: "block \<Rightarrow> vns_db \<Rightarrow> bool" where
  "fresh_block b db \<longleftrightarrow> distinct (bk_tx_hashes b)
     \<and> (\<forall>h \<in> set (bk_tx_hashes b). length h = 32 \<and> get_proposal_record h db = None)"

inductive connect_step :: "'v node \<Rightarrow> 'v \<times> vns_db \<Rightarrow> 'v \<times> vns_db \<Rightarrow> bool" for nd where
  connect: "fresh_block b (snd s) \<Longrightarrow> connect_block nd b s = True_in s' \<Longrightarrow> connect_step nd s s'"

inductive chain_step :: "'v node \<Rightarrow> 'v \<times> vns_db \<Rightarrow> 'v \<times> vns_db \<Rightarrow> bool" for nd where
  extend: "connect_step nd s s' \<Longrightarrow> chain_step nd s s'"
| pop: "chain_step nd s (pop_block nd stray b s)"

inductive_cases connect_stepE: "connect_step nd s s'"

lemma tables_ok_connect_block:
  assumes "v2_local nd" "fresh_block b (snd s)" "connect_block nd b s = True_in s'" "tables_ok (snd s)"
  shows "tables_ok (snd s')"
proof (rule connect_block_cases [OF assms(3)], erule governance_cases)
  fix s1 db1 s2 db2
  assume t: "connect_treasury (nd_params nd) (nd_junk nd) (bk_height b) (bk_miner_tx b) (bk_txs b) (snd s1) = True_in (snd s')"
    and p: "proposals_process_block (nd_addr nd) (nd_junk nd) (nd_get_tx nd) (bk_height b) (bk_tx_hashes b) (snd s) = True_in db1"
    and v: "votes_process_block (nd_v2 nd) (nd_get_tx nd) (bk_height b) (bk_tx_hashes b) (fst s, db1) = (True, s2)"
    and l: "lifecycle_process_block (nd_chain nd) (nd_params nd) (nd_txn nd) (bk_height b) (snd s2) = (True, db2)"
    and s1: "s1 = (fst s2, execute_due (bk_height b) db2)"
  have "tables_ok db1" using assms(2,4) by (intro tables_ok_proposals [OF p]) (auto simp: fresh_block_def)
  then have "tables_ok (snd s2)" using only_votesD(1) [OF votes_only_votes [OF assms(1) v]] by simp
  from execute_due_effect(1) [OF tables_ok_lifecycle [OF l this]] show ?thesis
    by (intro tables_ok_connect_treasury [OF t]) (simp add: s1)
qed

lemma tables_ok_pop_block:
  assumes "v2_local nd" "tables_ok (snd s)"
  shows "tables_ok (snd (pop_block nd stray b s))"
proof -
  let ?d1 = "fold execution_rollback (concat (map (map fst \<circ> treasury_ins) (bk_txs b))) (snd s)"
  let ?d = "fold execution_rollback (concat (map execution_ids (bk_txs b))) ?d1"
  let ?v = "votes_rollback_block (nd_undo_v2 nd) (nd_tx_hash nd) (nd_get_tx nd) (bk_tx_hashes b) (bk_txs b) (fst s, ?d)"
  have "tables_ok ?d" using assms(2) by (intro tables_ok_fold execution_rollback_ok)
  then have "tables_ok (snd ?v)"
    using only_votesD(1) [OF votes_rollback_only_votes [OF assms(1), of "(fst s, ?d)"]] by simp
  then have "tables_ok (snd (governance_rollback_block nd b s))"
    by (simp add: governance_rollback_block_def Let_def lifecycle_rollback_block_def proposals_rollback_ok parameters_rollback_ok)
  moreover have "tables_ok (remove_treasury_outputs_by_height stray h db)" if "tables_ok db" for h db
    using that by (auto simp: ok_defs remove_treasury_outputs_by_height_def distinct_map_filter)
  moreover have "tables_ok (restore_inputs txs db)" if "tables_ok db" for txs db
    unfolding restore_inputs_def using that by (intro tables_ok_fold) (auto intro: tables_ok_fold tables_ok_mark)
  ultimately show ?thesis
    by (cases "governance_rollback_block nd b s") (simp add: pop_block_def pop_treasury_def)
qed

lemma tables_ok_chain_step:
  assumes "chain_step nd s s'" "v2_local nd" "tables_ok (snd s)"
  shows "tables_ok (snd s')"
  using assms(1)
proof (cases rule: chain_step.cases)
  case extend
  with assms(2,3) show ?thesis by (auto elim!: connect_stepE intro: tables_ok_connect_block)
next
  case (pop stray b)
  with assms(2,3) show ?thesis by (simp add: tables_ok_pop_block)
qed

interpretation node_tables: kept "chain_step nd" "\<lambda>s s'. v2_local nd \<and> tables_ok (snd s) \<longrightarrow> tables_ok (snd s')" for nd
  by unfold_locales (use tables_ok_chain_step in blast)+

section \<open>The states of a proposal\<close>

text \<open>The status of a proposal with its flag, and how a connected block may change them.\<close>

inductive status_step :: "u8 \<times> bool \<Rightarrow> u8 \<times> bool \<Rightarrow> bool" where
  pass: "status_step (PROPOSAL_STATUS_ACTIVE, False) (PROPOSAL_STATUS_PASSED, False)"
| reject: "status_step (PROPOSAL_STATUS_ACTIVE, False) (PROPOSAL_STATUS_REJECTED, False)"
| execute: "status_step (PROPOSAL_STATUS_PASSED, False) (PROPOSAL_STATUS_EXECUTED, True)"

lemma status_final:
  "status_step\<^sup>*\<^sup>* x y \<Longrightarrow> fst x = PROPOSAL_STATUS_REJECTED \<or> fst x = PROPOSAL_STATUS_EXECUTED \<Longrightarrow> y = x"
  by (induction rule: rtranclp_induct) (auto elim: status_step.cases)

abbreviation status_of :: "proposal_record \<Rightarrow> u8 \<times> bool" where
  "status_of rec \<equiv> (pr_status rec, pr_executed rec)"

text \<open>The part of a record that never changes.\<close>

definition fixed_part :: "proposal_record \<Rightarrow> proposal_record" where
  "fixed_part rec = rec\<lparr>pr_status := 0, pr_executed := False, pr_status_height := 0\<rparr>"

definition progress :: "vns_db \<Rightarrow> vns_db \<Rightarrow> bool" where
  "progress db db' \<longleftrightarrow> (\<forall>k rec. get_proposal_record k db = Some rec \<longrightarrow>
     (\<exists>rec'. get_proposal_record k db' = Some rec' \<and> status_step\<^sup>*\<^sup>* (status_of rec) (status_of rec')
        \<and> fixed_part rec' = fixed_part rec))"

lemma progress_trans: "progress db db1 \<Longrightarrow> progress db1 db2 \<Longrightarrow> progress db db2"
  unfolding progress_def by (metis rtranclp_trans)

lemma progress_map:
  assumes "\<And>k rec. get_proposal_record k db = Some rec \<Longrightarrow> get_proposal_record k db' = Some (f k rec)"
    and "\<And>k rec. get_proposal_record k db = Some rec \<Longrightarrow>
      status_step\<^sup>*\<^sup>* (status_of rec) (status_of (f k rec)) \<and> fixed_part (f k rec) = fixed_part rec"
  shows "progress db db'"
  unfolding progress_def using assms by blast

lemma progress_same: "db_proposals db' = db_proposals db \<Longrightarrow> progress db db'"
  by (rule progress_map [where f = "\<lambda>k rec. rec"]) (simp_all add: get_proposal_record_def)

lemma progress_index:
  assumes "index_proposal addr junk tx h height db = True_in db'" "get_proposal_record h db = None"
  shows "progress db db'" "k \<noteq> h \<Longrightarrow> get_proposal_record k db' = get_proposal_record k db"
proof -
  have "\<forall>k. k \<noteq> h \<longrightarrow> get_proposal_record k db' = get_proposal_record k db"
  proof (cases "is_proposal_tx tx")
    case True
    show ?thesis
    proof (rule index_cases [OF assms(1) True])
      fix p blob d q t
      let ?rec = "proposal_record_of addr junk p h height"
      assume db': "db' = with_tables (db_proposals (add_proposal_record h ?rec db)) d q t db"
      show ?thesis
        using get_add_proposal [of _ h ?rec db] by (simp add: db' get_proposal_record_def)
    qed
  qed (use assms in \<open>simp add: index_proposal_def\<close>)
  note other = this
  then show "k \<noteq> h \<Longrightarrow> get_proposal_record k db' = get_proposal_record k db" by simp
  show "progress db db'"
  proof (rule progress_map [where f = "\<lambda>k rec. rec"])
    fix k rec
    assume k: "get_proposal_record k db = Some rec"
    then have "k \<noteq> h" using assms(2) by auto
    with other k show "get_proposal_record k db' = Some rec" by simp
  qed simp
qed

lemma progress_proposals:
  "proposals_process_block addr junk get_tx height hs db = True_in db' \<Longrightarrow> distinct hs \<Longrightarrow>
   \<forall>h \<in> set hs. get_proposal_record h db = None \<Longrightarrow> progress db db'"
proof (induction hs arbitrary: db)
  case (Cons h hs)
  then obtain tx where tx: "get_tx h = Some tx" by (auto split: option.splits)
  show ?case
  proof (cases "is_proposal_tx tx")
    case True
    with Cons.prems(1) tx obtain db1 where i: "index_proposal addr junk tx h height db = True_in db1"
      and rest: "proposals_process_block addr junk get_tx height hs db1 = True_in db'"
      by (cases "index_proposal addr junk tx h height db") auto
    note p = progress_index [OF i]
    have "get_proposal_record h' db1 = None" if "h' \<in> set hs" for h'
    proof -
      have "h' \<noteq> h" using that Cons.prems(2) by auto
      with p(2) that Cons.prems(3) show ?thesis by auto
    qed
    with Cons.IH [OF rest] Cons.prems(2,3) p(1) show ?thesis by (auto intro: progress_trans)
  qed (use Cons tx in simp)
qed (simp add: progress_same)

lemma progress_lifecycle:
  assumes "lifecycle_process_block ch gp txn height db = (True, db')" "tables_ok db"
  shows "progress db db'"
proof -
  let ?pids = "set (get_voting_end_entries height db)"
  note e = loop_effectD(2) [OF lifecycle_block_effect [OF tables_okD(1) [OF assms(2)] tables_okD(2) [OF assms(2)] assms(1)]]
  show ?thesis
  proof (rule progress_map [where f = "\<lambda>k rec. if k \<in> ?pids \<and> open_record rec then decided ch gp height db k rec else rec"])
    fix k rec
    have "status_step (status_of rec) (status_of (decided ch gp height db k rec))" if "open_record rec"
      using that by (auto simp: open_record_def decided_def intro: status_step.intros)
    then show "status_step\<^sup>*\<^sup>* (status_of rec) (status_of (if k \<in> ?pids \<and> open_record rec then decided ch gp height db k rec else rec))
        \<and> fixed_part (if k \<in> ?pids \<and> open_record rec then decided ch gp height db k rec else rec) = fixed_part rec"
      by (auto simp: decided_def fixed_part_def)
  qed (simp add: e)
qed

lemma progress_treasury:
  assumes "connect_treasury gp junk height miner_tx txs db = True_in db'" "ids_ok db"
  shows "progress db db'"
proof (rule connect_cases [OF assms(1)])
  fix db1
  assume t: "treasury_txs gp junk height txs (credit_miner height miner_tx db) = True_in db1"
    and db': "db' = credit_donations height txs db1"
  let ?db0 = "credit_miner height miner_tx db" and ?ex = "\<lambda>k. \<exists>tx \<in> set txs. executes tx k"
  have props: "db_proposals ?db0 = db_proposals db" by (simp add: credit_miner_def fold_credit)
  have "ids_ok ?db0" using assms(2) by (simp add: ids_ok_cong [OF props])
  note e = treasury_txs_effect [OF t this]
  have "progress ?db0 db1"
  proof (rule progress_map [where f = "\<lambda>k rec. if ?ex k then executed_at height rec else rec"])
    fix k rec
    assume rec: "get_proposal_record k ?db0 = Some rec"
    have "status_step (status_of rec) (status_of (executed_at height rec))" if "?ex k"
    proof -
      have "executable ?db0 k" using e that by blast
      with rec have "status_of rec = (PROPOSAL_STATUS_PASSED, False)" by (auto simp: executable_def)
      then show ?thesis by (simp add: executed_at_def status_step.execute)
    qed
    then show "status_step\<^sup>*\<^sup>* (status_of rec) (status_of (if ?ex k then executed_at height rec else rec))
        \<and> fixed_part (if ?ex k then executed_at height rec else rec) = fixed_part rec"
      by (auto simp: executed_at_def fixed_part_def)
  qed (use e in simp)
  moreover have "progress db ?db0" by (rule progress_same [OF props])
  moreover have "progress db1 db'" by (rule progress_same) (simp add: db' donations_effect)
  ultimately show ?thesis by (blast intro: progress_trans)
qed

lemma progress_connect:
  assumes "v2_local nd" "fresh_block b (snd s)" "connect_block nd b s = True_in s'" "tables_ok (snd s)"
  shows "progress (snd s) (snd s')"
proof (rule connect_block_cases [OF assms(3)], erule governance_cases)
  fix s1 db1 s2 db2
  assume t: "connect_treasury (nd_params nd) (nd_junk nd) (bk_height b) (bk_miner_tx b) (bk_txs b) (snd s1) = True_in (snd s')"
    and p: "proposals_process_block (nd_addr nd) (nd_junk nd) (nd_get_tx nd) (bk_height b) (bk_tx_hashes b) (snd s) = True_in db1"
    and v: "votes_process_block (nd_v2 nd) (nd_get_tx nd) (bk_height b) (bk_tx_hashes b) (fst s, db1) = (True, s2)"
    and l: "lifecycle_process_block (nd_chain nd) (nd_params nd) (nd_txn nd) (bk_height b) (snd s2) = (True, db2)"
    and s1: "s1 = (fst s2, execute_due (bk_height b) db2)"
  note vo = only_votesD [OF votes_only_votes [OF assms(1) v]]
  have ok1: "tables_ok db1" using assms(2,4) by (intro tables_ok_proposals [OF p]) (auto simp: fresh_block_def)
  then have ok2: "tables_ok (snd s2)" using vo(1) by simp
  have ok3: "tables_ok (snd s1)" using execute_due_effect(1) [OF tables_ok_lifecycle [OF l ok2]] by (simp add: s1)
  have "progress (snd s) db1" using assms(2) by (intro progress_proposals [OF p]) (auto simp: fresh_block_def)
  moreover have "progress db1 (snd s2)" using vo(2) by (intro progress_same) simp
  moreover have "progress (snd s2) db2" by (rule progress_lifecycle [OF l ok2])
  moreover have "progress db2 (snd s1)" by (rule progress_same) (simp add: s1 execute_due_effect)
  moreover have "progress (snd s1) (snd s')" by (rule progress_treasury [OF t tables_okD(2) [OF ok3]])
  ultimately show ?thesis by (blast intro: progress_trans)
qed

interpretation node_status: kept "connect_step nd"
  "\<lambda>s s'. v2_local nd \<and> tables_ok (snd s) \<longrightarrow> tables_ok (snd s') \<and> progress (snd s) (snd s')" for nd
proof
  fix s s1 s2 :: "'a \<times> vns_db"
  assume step: "connect_step nd s1 s2"
    and IH: "v2_local nd \<and> tables_ok (snd s) \<longrightarrow> tables_ok (snd s1) \<and> progress (snd s) (snd s1)"
  show "v2_local nd \<and> tables_ok (snd s) \<longrightarrow> tables_ok (snd s2) \<and> progress (snd s) (snd s2)"
    using step
  proof (cases rule: connect_step.cases)
    case (connect b)
    with IH tables_ok_connect_block [of nd b s1 s2] progress_connect [of nd b s1 s2] show ?thesis
      by (blast intro: progress_trans)
  qed
qed (simp add: progress_same)

section \<open>What popping does to the balance\<close>

lemma proposals_balance:
  "proposals_process_block addr junk get_tx height hs db = True_in db' \<Longrightarrow> db_treasury_balance db' = db_treasury_balance db"
proof (induction hs arbitrary: db)
  case (Cons h hs)
  then obtain tx where tx: "get_tx h = Some tx" by (auto split: option.splits)
  show ?case
  proof (cases "is_proposal_tx tx")
    case True
    with Cons.prems(1) tx obtain db1 where i: "index_proposal addr junk tx h height db = True_in db1"
      and rest: "proposals_process_block addr junk get_tx height hs db1 = True_in db'"
      by (cases "index_proposal addr junk tx h height db") auto
    have "db_treasury_balance db1 = db_treasury_balance db"
      by (rule index_cases [OF i True]) (simp add: with_tables_def)
    with Cons.IH [OF rest] show ?thesis by simp
  qed (use Cons tx in simp)
qed simp

lemma fold_balance: "(\<And>x db. db_treasury_balance (f x db) = db_treasury_balance db) \<Longrightarrow>
  db_treasury_balance (fold f xs db) = db_treasury_balance db"
  by (induction xs arbitrary: db) simp_all

lemma pop_block_balance:
  assumes "v2_local nd"
  shows "get_treasury_balance (snd (pop_block nd stray b s)) = get_treasury_balance (snd s)"
proof (rule balance_cong)
  let ?d1 = "fold execution_rollback (concat (map (map fst \<circ> treasury_ins) (bk_txs b))) (snd s)"
  let ?d = "fold execution_rollback (concat (map execution_ids (bk_txs b))) ?d1"
  let ?v = "votes_rollback_block (nd_undo_v2 nd) (nd_tx_hash nd) (nd_get_tx nd) (bk_tx_hashes b) (bk_txs b) (fst s, ?d)"
  have "db_treasury_balance (snd ?v) = db_treasury_balance (snd s)"
    using only_votesD(3) [OF votes_rollback_only_votes [OF assms, of "(fst s, ?d)"]] by (simp add: fold_balance)
  moreover have "db_treasury_balance (proposals_rollback_block tx_hash txs db) = db_treasury_balance db" for tx_hash txs db
    unfolding proposals_rollback_block_def
    by (rule fold_balance)
      (simp add: rollback_proposal_def Let_def remove_voting_end_entry_def remove_proposal_record_def split: option.split)
  moreover have "db_treasury_balance (restore_inputs txs db) = db_treasury_balance db" for txs db
    unfolding restore_inputs_def by (rule fold_balance, rule fold_balance) simp
  ultimately show "db_treasury_balance (snd (pop_block nd stray b s)) = db_treasury_balance (snd s)"
    by (simp add: pop_block_def pop_treasury_def governance_rollback_block_def Let_def lifecycle_rollback_block_def
        remove_treasury_outputs_by_height_def parameters_rollback_block_def)
qed

lemma governance_balance:
  assumes "v2_local nd" "governance_process_block nd b s = True_in s1" "fresh_block b (snd s)" "tables_ok (snd s)"
  shows "get_treasury_balance (snd s1) = get_treasury_balance (snd s)" "tables_ok (snd s1)"
proof -
  have "db_treasury_balance (snd s1) = db_treasury_balance (snd s) \<and> tables_ok (snd s1)"
  proof (rule governance_cases [OF assms(2)])
    fix db1 s2 db2
    assume p: "proposals_process_block (nd_addr nd) (nd_junk nd) (nd_get_tx nd) (bk_height b) (bk_tx_hashes b) (snd s) = True_in db1"
      and v: "votes_process_block (nd_v2 nd) (nd_get_tx nd) (bk_height b) (bk_tx_hashes b) (fst s, db1) = (True, s2)"
      and l: "lifecycle_process_block (nd_chain nd) (nd_params nd) (nd_txn nd) (bk_height b) (snd s2) = (True, db2)"
      and s1: "s1 = (fst s2, execute_due (bk_height b) db2)"
    note vo = only_votesD [OF votes_only_votes [OF assms(1) v]]
    have ok1: "tables_ok db1" using assms(3,4) by (intro tables_ok_proposals [OF p]) (auto simp: fresh_block_def)
    then have ok2: "tables_ok (snd s2)" using vo(1) by simp
    have "db_treasury_balance db2 = db_treasury_balance (snd s2)"
      using loop_effectD(1) [OF lifecycle_block_effect [OF tables_okD(1) [OF ok2] tables_okD(2) [OF ok2] l]] by (simp add: same_inputs_def)
    moreover have "db_treasury_balance db1 = db_treasury_balance (snd s)" by (rule proposals_balance [OF p])
    ultimately show ?thesis
      using vo(3) execute_due_effect(1) [OF tables_ok_lifecycle [OF l ok2]] by (simp add: s1 execute_due_effect)
  qed
  then show "get_treasury_balance (snd s1) = get_treasury_balance (snd s)" "tables_ok (snd s1)"
    by (auto intro: balance_cong)
qed

section \<open>Properties\<close>




section \<open>Witnesses\<close>

definition ex_hashes :: "hash32 list" where
  "ex_hashes = [replicate 32 (CHR 0x11), replicate 32 (CHR 0x12)]"

definition ex_node :: "unit node" where
  "ex_node = \<lparr>nd_chain = ex_chain, nd_params = sample_params, nd_addr = (\<lambda>_ _ _. []), nd_junk = [],
     nd_v2 = (\<lambda>_ _ _ s. (success, s)), nd_undo_v2 = (\<lambda>_ _ s. s),
     nd_get_tx = map_of (zip ex_hashes [ex_execution_tx, ex_donation_tx]),
     nd_tx_hash = (\<lambda>tx. ex_hashes ! (if tx = ex_execution_tx then 0 else 1)), nd_txn = No_txn\<rparr>"

definition ex_block :: block where
  "ex_block = \<lparr>bk_height = 6000, bk_tx_hashes = ex_hashes, bk_miner_tx = ex_miner_tx,
     bk_txs = [ex_execution_tx, ex_donation_tx]\<rparr>"

lemma ex_node_local: "v2_local ex_node"
  by (simp add: v2_local_def ex_node_def)

lemma ex_extra: "classify_vote_tx ex_execution_tx = vote_none" "classify_vote_tx ex_donation_tx = vote_none"
  "\<not> is_proposal_tx ex_execution_tx" "\<not> is_proposal_tx ex_donation_tx"
  using parse_put_fields [of "[tx_extra_pub_key ex_pid]"]
  by (simp_all add: classify_vote_tx_def is_proposal_tx_def first_governance_payload_def ex_execution_tx_def
      ex_donation_tx_def parse_tx_extra.simps [of "[]"] ex_pid_def governance_payloads_def)

lemma ex_fresh: "fresh_block ex_block ((snd (v, ex_treasury)))"
  by (simp add: fresh_block_def ex_block_def ex_hashes_def ex_treasury_def get_proposal_record_def ex_pid_def)

lemma ex_governance: "governance_process_block ex_node ex_block (v, ex_treasury) = True_in (v, ex_treasury)"
proof -
  have "proposals_process_block (nd_addr ex_node) (nd_junk ex_node) (nd_get_tx ex_node) h (bk_tx_hashes ex_block) ex_treasury = True_in ex_treasury"
    "votes_process_block (nd_v2 ex_node) (nd_get_tx ex_node) h (bk_tx_hashes ex_block) (v, ex_treasury) = (True, v, ex_treasury)" for h
    by (simp_all add: ex_node_def ex_block_def ex_hashes_def ex_extra process_vote_tx_def)
  moreover have "get_voting_end_entries h ex_treasury = []" "get_pending_executions h ex_treasury = []" for h
    by (simp_all add: get_voting_end_entries_def get_pending_executions_def cursor_dups_def ex_treasury_def empty_db_def)
  ultimately show ?thesis
    by (simp add: governance_process_block_def lifecycle_process_block_def execute_due_def)
qed

lemma ex_connected_block:
  obtains s' where "connect_block ex_node ex_block (v, ex_treasury) = True_in s'"
    "connect_treasury sample_params [] 6000 ex_miner_tx [ex_execution_tx, ex_donation_tx] ex_treasury = True_in (snd s')"
proof -
  from ex_connected obtain db where
    "connect_treasury sample_params [] 6000 ex_miner_tx [ex_execution_tx, ex_donation_tx] ex_treasury = True_in db" ..
  then show thesis
    by (intro that [of "(v, db)"]) (simp_all add: connect_block_def ex_governance, simp add: ex_node_def ex_block_def)
qed



text \<open>A chain that grows by a block with a miner's share and loses it again.\<close>

definition ex_reward_block :: block where
  "ex_reward_block = \<lparr>bk_height = 6000, bk_tx_hashes = [], bk_miner_tx = ex_miner_tx, bk_txs = []\<rparr>"


end
