(* ===== verification/Broadcast.thy ===== *)
theory Broadcast
  imports Main
begin

text \<open>
  \<^verbatim>\<open>src/external/ixwebsocket/ws/broadcast-server.js\<close>: a relay that sends every message of a client to
  all other clients. The script is a set of callbacks; what calls them, and what they call, is the
  \<^verbatim>\<open>ws\<close> package, which is not part of the repository. It is the record \<open>ws_library\<close> of the functions
  the script uses, over a state \<open>'w\<close> of its own, and the script's state is what it has registered
  with the package. \<open>ws_laws\<close> states what the documentation of \<^verbatim>\<open>ws\<close> says of \<^verbatim>\<open>send\<close>: the data is
  transmitted after what was sent before, and neither the set of clients nor a ready state changes.

  \<^verbatim>\<open>wss.clients\<close> is an ECMAScript \<^verbatim>\<open>Set\<close>; \<^verbatim>\<open>forEach\<close> visits its elements once, in insertion order.
\<close>

section \<open>The package\<close>

datatype ready_state = CONNECTING | OPEN | CLOSING | CLOSED

record ('w, 'c, 'd) ws_library =
  clients :: "'w \<Rightarrow> 'c list"
  readyState :: "'w \<Rightarrow> 'c \<Rightarrow> ready_state"
  send :: "'c \<Rightarrow> 'd \<Rightarrow> 'w \<Rightarrow> 'w"

text \<open>\<open>sent w\<close> is the history of transmissions: the pairs of a client and the data sent to it.\<close>

definition ws_laws :: "('w, 'c, 'd) ws_library \<Rightarrow> ('w \<Rightarrow> ('c \<times> 'd) list) \<Rightarrow> bool" where
  "ws_laws ws sent \<longleftrightarrow>
     (\<forall>c d w. clients ws (send ws c d w) = clients ws w
        \<and> readyState ws (send ws c d w) = readyState ws w
        \<and> sent (send ws c d w) = sent w @ [(c, d)])
     \<and> (\<forall>w. distinct (clients ws w))"

section \<open>The script\<close>

record server_options =
  port :: nat
  perMessageDeflate :: bool

text \<open>
  \<open>on_connection\<close> counts the listeners of the server's \<^verbatim>\<open>connection\<close> event, all of which are the
  function \<open>connection\<close>; \<open>on_message\<close> lists the sockets on which \<open>incoming\<close> is registered, once for
  each registration.
\<close>

record ('w, 'c) relay =
  options :: server_options
  library :: 'w
  on_connection :: nat
  on_message :: "'c list"

definition start :: "'w \<Rightarrow> ('w, 'c) relay" where
  "start w =
     \<lparr>options = \<lparr>port = 8080, perMessageDeflate = True\<rparr>, library = w, on_connection = 1, on_message = []\<rparr>"

definition broadcast_each :: "('w, 'c, 'd) ws_library \<Rightarrow> 'd \<Rightarrow> 'c \<Rightarrow> 'w \<Rightarrow> 'w" where
  "broadcast_each ws data client w =
     (if readyState ws w client = OPEN then send ws client data w else w)"

definition broadcast :: "('w, 'c, 'd) ws_library \<Rightarrow> 'd \<Rightarrow> ('w, 'c) relay \<Rightarrow> ('w, 'c) relay" where
  "broadcast ws data s =
     s\<lparr>library := fold (broadcast_each ws data) (clients ws (library s)) (library s)\<rparr>"

definition connection :: "'c \<Rightarrow> ('w, 'c) relay \<Rightarrow> ('w, 'c) relay" where
  "connection ws s = s\<lparr>on_message := on_message s @ [ws]\<rparr>"

definition incoming_each :: "('w, 'c, 'd) ws_library \<Rightarrow> 'c \<Rightarrow> 'd \<Rightarrow> 'c \<Rightarrow> 'w \<Rightarrow> 'w" where
  "incoming_each ws self data client w =
     (if client \<noteq> self \<and> readyState ws w client = OPEN then send ws client data w else w)"

definition incoming :: "('w, 'c, 'd) ws_library \<Rightarrow> 'c \<Rightarrow> 'd \<Rightarrow> ('w, 'c) relay \<Rightarrow> ('w, 'c) relay" where
  "incoming ws self data s =
     s\<lparr>library := fold (incoming_each ws self data) (clients ws (library s)) (library s)\<rparr>"

text \<open>
  The events of the package: it has accepted a client, it has received a message on one, or its own
  state has changed (a client was added, began to close or was removed). An emitter calls each
  registered listener once.
\<close>

datatype ('w, 'c, 'd) event = Connection 'c | Message 'c 'd | Internal "'w \<Rightarrow> 'w"

primrec emit :: "('w, 'c, 'd) ws_library \<Rightarrow> ('w, 'c, 'd) event \<Rightarrow> ('w, 'c) relay \<Rightarrow> ('w, 'c) relay" where
  "emit ws (Connection c) s = (connection c ^^ on_connection s) s"
| "emit ws (Message c d) s = (incoming ws c d ^^ count_list (on_message s) c) s"
| "emit ws (Internal f) s = s\<lparr>library := f (library s)\<rparr>"

definition run :: "('w, 'c, 'd) ws_library \<Rightarrow> ('w, 'c, 'd) event list \<Rightarrow> ('w, 'c) relay \<Rightarrow> ('w, 'c) relay" where
  "run ws es s = fold (emit ws) es s"

section \<open>One round of sends\<close>

lemma ws_lawsD:
  assumes "ws_laws ws sent"
  shows "clients ws (send ws c d w) = clients ws w" "readyState ws (send ws c d w) = readyState ws w"
    "sent (send ws c d w) = sent w @ [(c, d)]" "distinct (clients ws w)"
  using assms by (simp_all add: ws_laws_def)

lemma fold_sends:
  fixes ok :: "'c \<Rightarrow> bool"
  assumes laws: "ws_laws ws sent"
    and step: "\<And>c v. f c v = (if ok c \<and> readyState ws v c = OPEN then send ws c d v else v)"
  shows "sent (fold f cs w) = sent w @ map (\<lambda>c. (c, d)) (filter (\<lambda>c. ok c \<and> readyState ws w c = OPEN) cs)
    \<and> clients ws (fold f cs w) = clients ws w \<and> readyState ws (fold f cs w) = readyState ws w"
  by (induction cs arbitrary: w) (simp_all add: step ws_lawsD [OF laws])

lemmas broadcast_sends = fold_sends [where f = "broadcast_each ws d" and ok = "\<lambda>_. True" for ws d]
lemmas incoming_sends = fold_sends [where f = "incoming_each ws self d" and ok = "\<lambda>c. c \<noteq> self" for ws self d]

definition open_clients :: "('w, 'c, 'd) ws_library \<Rightarrow> 'w \<Rightarrow> 'c list" where
  "open_clients ws w = filter (\<lambda>c. readyState ws w c = OPEN) (clients ws w)"

lemma sent_broadcast:
  "ws_laws ws sent \<Longrightarrow>
     sent (library (broadcast ws d s)) = sent (library s) @ map (\<lambda>c. (c, d)) (open_clients ws (library s))"
  by (simp add: broadcast_def broadcast_sends broadcast_each_def open_clients_def)

lemma sent_incoming:
  "ws_laws ws sent \<Longrightarrow>
     sent (library (incoming ws self d s)) =
       sent (library s) @ map (\<lambda>c. (c, d)) (filter (\<lambda>c. c \<noteq> self) (open_clients ws (library s)))"
  by (simp add: incoming_def incoming_sends incoming_each_def open_clients_def conj_commute)

lemma incoming_keeps:
  "ws_laws ws sent \<Longrightarrow> clients ws (library (incoming ws self d s)) = clients ws (library s)"
  "ws_laws ws sent \<Longrightarrow> readyState ws (library (incoming ws self d s)) = readyState ws (library s)"
  "ws_laws ws sent \<Longrightarrow> open_clients ws (library (incoming ws self d s)) = open_clients ws (library s)"
  "on_message (incoming ws self d s) = on_message s"
  "on_connection (incoming ws self d s) = on_connection s"
  by (simp_all add: incoming_def incoming_sends incoming_each_def open_clients_def)

lemma open_clients_distinct: "ws_laws ws sent \<Longrightarrow> distinct (open_clients ws w)"
  by (simp add: open_clients_def ws_lawsD)

section \<open>Runs\<close>

text \<open>What a client receives: the data of its transmissions, in order.\<close>

definition inbox :: "'c \<Rightarrow> ('c \<times> 'd) list \<Rightarrow> 'd list" where
  "inbox c log = map snd (filter (\<lambda>e. fst e = c) log)"

text \<open>
  The promise of the relay to a client \<open>c\<close> that stays open: the messages of the other connected
  sockets, in the order in which the server received them. \<open>conn\<close> are the sockets connected so far.
\<close>

fun expected :: "'c \<Rightarrow> 'c set \<Rightarrow> ('w, 'c, 'd) event list \<Rightarrow> 'd list" where
  "expected c conn [] = []"
| "expected c conn (Connection x # es) = expected c (insert x conn) es"
| "expected c conn (Message x d # es) = (if x \<noteq> c \<and> x \<in> conn then [d] else []) @ expected c conn es"
| "expected c conn (Internal f # es) = expected c conn es"

fun connections :: "('w, 'c, 'd) event list \<Rightarrow> 'c list" where
  "connections [] = []"
| "connections (Connection x # es) = x # connections es"
| "connections (_ # es) = connections es"

text \<open>The package's own steps transmit nothing for the script, and keep \<open>c\<close> an open client.\<close>

definition keeps_open ::
  "('w, 'c, 'd) ws_library \<Rightarrow> ('w \<Rightarrow> ('c \<times> 'd) list) \<Rightarrow> 'c \<Rightarrow> ('w, 'c, 'd) event list \<Rightarrow> bool" where
  "keeps_open ws sent c es \<longleftrightarrow>
     (\<forall>f. Internal f \<in> set es \<longrightarrow>
        (\<forall>w. sent (f w) = sent w \<and> (c \<in> set (open_clients ws w) \<longrightarrow> c \<in> set (open_clients ws (f w)))))"

lemma inbox_append [simp]: "inbox c (a @ b) = inbox c a @ inbox c b"
  by (simp add: inbox_def)

lemma inbox_round:
  "distinct cs \<Longrightarrow> inbox c (map (\<lambda>x. (x, d)) (filter (\<lambda>x. x \<noteq> self) cs)) =
     (if c \<in> set cs \<and> c \<noteq> self then [d] else [])"
  by (induction cs) (auto simp: inbox_def filter_empty_conv)

lemma run_Cons: "run ws (e # es) s = run ws es (emit ws e s)"
  by (simp add: run_def)

lemma count_list_distinct: "distinct xs \<Longrightarrow> count_list xs x = (if x \<in> set xs then 1 else 0)"
  by (induction xs) auto

lemma emit_message:
  "distinct (on_message s) \<Longrightarrow>
     emit ws (Message x d) s = (if x \<in> set (on_message s) then incoming ws x d s else s)"
  by (simp add: count_list_distinct)

section \<open>Properties\<close>

text \<open>
  C17: a message that a client sends is transmitted once to every other client whose connection is
  open, in the order of the client set, and to nobody else; the sender in particular never gets its
  own message back. \<^verbatim>\<open>wss.broadcast\<close> transmits to all open clients, so that the relay of a message is
  the broadcast without the transmissions to the sender.
\<close>
theorem relay_exactly_once:
  assumes "ws_laws ws sent"
  shows "\<exists>relayed broadcasted.
    sent (library (incoming ws self d s)) = sent (library s) @ relayed
    \<and> sent (library (broadcast ws d s)) = sent (library s) @ broadcasted
    \<and> distinct relayed \<and> distinct broadcasted
    \<and> set relayed = {(c, d) | c. c \<in> set (clients ws (library s)) \<and> c \<noteq> self
                        \<and> readyState ws (library s) c = OPEN}
    \<and> relayed = filter (\<lambda>e. fst e \<noteq> self) broadcasted"
proof -
  let ?open = "open_clients ws (library s)"
  have inj: "inj_on (\<lambda>c. (c, d)) A" for A by (auto intro: inj_onI)
  show ?thesis
    using ws_lawsD(4) [OF assms, of "library s"]
    by - (rule exI [of _ "map (\<lambda>c. (c, d)) (filter (\<lambda>c. c \<noteq> self) ?open)"],
      rule exI [of _ "map (\<lambda>c. (c, d)) ?open"],
      auto simp: sent_incoming [OF assms] sent_broadcast [OF assms] distinct_map inj filter_map o_def
        open_clients_def)
qed

text \<open>
  C16: over a whole run, a client whose connection stays open receives exactly the messages of the
  other connected sockets, each once, complete and in the order in which the server received them,
  whatever other clients do in between. Each socket is announced by one connection event.
\<close>
theorem relay_in_order:
  assumes "ws_laws ws sent" "on_connection s = 1" "distinct (on_message s @ connections es)"
    and "c \<in> set (open_clients ws (library s))" "keeps_open ws sent c es"
  shows "inbox c (sent (library (run ws es s))) =
    inbox c (sent (library s)) @ expected c (set (on_message s)) es"
  using assms(2-)
proof (induction es arbitrary: s)
  case Nil
  then show ?case by (simp add: run_def)
next
  case (Cons e es)
  have ko: "keeps_open ws sent c es" using Cons.prems(4) by (simp add: keeps_open_def)
  show ?case
  proof (cases e)
    case (Connection x)
    have "emit ws e s = connection x s" using Cons.prems(1) Connection by simp
    with Cons.IH [OF _ _ _ ko, of "connection x s"] Cons.prems Connection show ?thesis
      by (simp add: run_Cons connection_def)
  next
    case (Message x d)
    have e: "emit ws e s = (if x \<in> set (on_message s) then incoming ws x d s else s)"
      unfolding Message using Cons.prems(2) by (intro emit_message) simp
    define s' where "s' = (if x \<in> set (on_message s) then incoming ws x d s else s)"
    have r: "inbox c (sent (library (incoming ws x d s))) = inbox c (sent (library s)) @ (if c \<noteq> x then [d] else [])"
      using Cons.prems(3) by (simp add: sent_incoming [OF assms(1)] inbox_round [OF open_clients_distinct [OF assms(1)]])
    show ?thesis
      using Cons.IH [OF _ _ _ ko, of s'] Cons.prems r unfolding run_Cons e s'_def [symmetric]
      by (auto simp: Message s'_def incoming_keeps(1-3) [OF assms(1)] incoming_keeps(4,5))
  next
    case (Internal f)
    with Cons.prems(4) have "sent (f w) = sent w" "c \<in> set (open_clients ws w) \<Longrightarrow> c \<in> set (open_clients ws (f w))" for w
      by (auto simp: keeps_open_def)
    with Cons.IH [OF _ _ _ ko, of "emit ws e s"] Cons.prems Internal show ?thesis
      by (simp add: run_Cons)
  qed
qed

section \<open>An instance of the package\<close>

text \<open>Three clients, of which the third is closing; sending appends to a log.\<close>

definition demo :: "((nat \<times> string) list, nat, string) ws_library" where
  "demo = \<lparr>clients = (\<lambda>_. [1, 2, 3]), readyState = (\<lambda>_ c. if c = 3 then CLOSING else OPEN),
           send = (\<lambda>c d log. log @ [(c, d)])\<rparr>"

lemma demo_laws: "ws_laws demo (\<lambda>w. w)"
  by (simp add: ws_laws_def demo_def)

theorem relay_exactly_once_witness:
  "library (incoming demo 1 ''hi'' (start [])) = [(2, ''hi'')]
   \<and> library (broadcast demo ''hi'' (start [])) = [(1, ''hi''), (2, ''hi'')]"
  using relay_exactly_once [OF demo_laws, of 1 "''hi''" "start []"]
  by (simp add: incoming_def broadcast_def incoming_each_def broadcast_each_def demo_def start_def)

theorem relay_in_order_witness:
  "inbox 2 (library (run demo [Connection 1, Message 1 ''a'', Connection 2, Message 2 ''b'', Message 1 ''c''] (start []))) =
     [''a'', ''c'']"
  by (subst relay_in_order [OF demo_laws])
    (simp_all add: start_def demo_def open_clients_def keeps_open_def inbox_def)

end
