(* ===== verification/Include_Dirs.thy ===== *)
theory Include_Dirs
  imports Main "HOL-Library.Sublist"
begin

text \<open>
  \<^verbatim>\<open>src/external/rapidjson/include_dirs.js\<close>: prints the path of the header directory relative to the
  working directory of the build. The functions of Node's \<^verbatim>\<open>path\<close> module are those of its POSIX
  variant: \<open>normalize_segments\<close> is the loop that all of them share, over the segments between
  slashes. The working directory and \<^verbatim>\<open>__dirname\<close>, which Node supplies, are arguments.
\<close>

section \<open>The path module\<close>

abbreviation (input) slash :: char where "slash \<equiv> CHR ''/''"

fun split_path :: "string \<Rightarrow> string list" where
  "split_path [] = [[]]"
| "split_path (c # cs) =
     (if c = slash then [] # split_path cs
      else case split_path cs of [] \<Rightarrow> [[c]] | s # ss \<Rightarrow> (c # s) # ss)"

fun join_path :: "string list \<Rightarrow> string" where
  "join_path [] = []"
| "join_path [s] = s"
| "join_path (s # ss) = s @ slash # join_path ss"

text \<open>The accumulator holds the segments kept so far, the last one first.\<close>

fun normalize_segments :: "bool \<Rightarrow> string list \<Rightarrow> string list \<Rightarrow> string list" where
  "normalize_segments allow_above [] acc = rev acc"
| "normalize_segments allow_above (s # ss) acc =
     (if s = [] \<or> s = ''.'' then normalize_segments allow_above ss acc
      else if s = ''..'' then
        (case acc of
           a # as \<Rightarrow>
             if a \<noteq> ''..'' then normalize_segments allow_above ss as
             else normalize_segments allow_above ss (if allow_above then ''..'' # acc else acc)
         | [] \<Rightarrow> normalize_segments allow_above ss (if allow_above then [''..''] else []))
      else normalize_segments allow_above ss (s # acc))"

definition is_absolute :: "string \<Rightarrow> bool" where
  "is_absolute p = (case p of [] \<Rightarrow> False | c # _ \<Rightarrow> c = slash)"

definition path_resolve :: "string \<Rightarrow> string \<Rightarrow> string" where
  "path_resolve cwd p =
     slash # join_path (normalize_segments False (split_path (if is_absolute p then p else cwd @ slash # p)) [])"

definition path_normalize :: "string \<Rightarrow> string" where
  "path_normalize p =
     (if p = [] then ''.''
      else
        let absolute = is_absolute p;
            trailing = (last p = slash);
            q = join_path (normalize_segments (\<not> absolute) (split_path p) [])
        in if q = [] then (if absolute then ''/'' else if trailing then ''./'' else ''.'')
           else (if absolute then ''/'' else []) @ q @ (if trailing then ''/'' else []))"

definition path_join :: "string \<Rightarrow> string \<Rightarrow> string" where
  "path_join a b =
     path_normalize (if a = [] then b else if b = [] then a else a @ slash # b)"

definition path_relative :: "string \<Rightarrow> string \<Rightarrow> string \<Rightarrow> string" where
  "path_relative cwd from to =
     (let f = filter (\<lambda>s. s \<noteq> []) (split_path (path_resolve cwd from));
          t = filter (\<lambda>s. s \<noteq> []) (split_path (path_resolve cwd to));
          k = length (longest_common_prefix f t)
      in join_path (replicate (length f - k) ''..'' @ drop k t))"

section \<open>The script\<close>

definition include_dirs :: "string \<Rightarrow> string \<Rightarrow> string" where
  "include_dirs cwd dirname = path_join (path_relative cwd ''.'' dirname) ''include''"

section \<open>Segments\<close>

definition proper_segment :: "string \<Rightarrow> bool" where
  "proper_segment s \<longleftrightarrow> slash \<notin> set s \<and> s \<notin> {[], ''.'', ''..''}"

lemma split_path_append:
  "slash \<notin> set s \<Longrightarrow> split_path (s @ slash # r) = s # split_path r"
  by (induction s) auto

lemma split_path_single: "slash \<notin> set s \<Longrightarrow> split_path s = [s]"
  by (induction s) auto

lemma split_join: "ss \<noteq> [] \<Longrightarrow> \<forall>s \<in> set ss. slash \<notin> set s \<Longrightarrow> split_path (join_path ss) = ss"
  by (induction ss rule: join_path.induct) (simp_all add: split_path_append split_path_single)

lemma join_append:
  "xs \<noteq> [] \<Longrightarrow> ys \<noteq> [] \<Longrightarrow> join_path (xs @ ys) = join_path xs @ slash # join_path ys"
  by (induction xs rule: join_path.induct) (auto simp: neq_Nil_conv)

lemma normalize_proper:
  "\<forall>s \<in> set ss. proper_segment s \<Longrightarrow>
     normalize_segments allow_above (ss @ rest) acc = normalize_segments allow_above rest (rev ss @ acc)"
  by (induction ss arbitrary: acc) (auto simp: proper_segment_def)

lemma normalize_ups_above:
  "\<forall>s \<in> set acc. s = ''..'' \<Longrightarrow>
     normalize_segments True (replicate n ''..'' @ rest) acc = normalize_segments True rest (replicate n ''..'' @ acc)"
proof (induction n arbitrary: acc)
  case (Suc n)
  then have "normalize_segments True (''..'' # replicate n ''..'' @ rest) acc =
      normalize_segments True (replicate n ''..'' @ rest) (''..'' # acc)"
    by (cases acc) auto
  also have "\<dots> = normalize_segments True rest (replicate n ''..'' @ ''..'' # acc)"
    using Suc by (intro Suc.IH) auto
  finally show ?case by (simp add: replicate_app_Cons_same)
qed simp

lemma normalize_ups_below:
  "\<forall>s \<in> set acc. proper_segment s \<Longrightarrow> n \<le> length acc \<Longrightarrow>
     normalize_segments False (replicate n ''..'' @ rest) acc = normalize_segments False rest (drop n acc)"
proof (induction n arbitrary: acc)
  case (Suc n)
  then obtain a as where "acc = a # as" by (cases acc) auto
  with Suc show ?case by (auto simp: proper_segment_def)
qed simp

definition absolute_path :: "string list \<Rightarrow> string" where
  "absolute_path ss = slash # join_path ss"

lemma split_absolute: "\<forall>s \<in> set ss. proper_segment s \<Longrightarrow> split_path (absolute_path ss) = [] # (if ss = [] then [[]] else ss)"
  by (auto simp: absolute_path_def split_join proper_segment_def)

lemma normalize_absolute:
  "\<forall>s \<in> set ss. proper_segment s \<Longrightarrow> normalize_segments allow_above (split_path (absolute_path ss)) [] = ss"
  using normalize_proper [of ss allow_above "[]" "[]"] by (simp add: split_absolute)

lemma split_path_ne: "split_path p \<noteq> []"
  by (induction p) (auto split: list.split)

lemma split_path_slash: "split_path (a @ slash # b) = split_path a @ split_path b"
  by (induction a) (auto simp: split_path_ne split: list.split)

lemma segments_resolve:
  assumes "\<forall>s \<in> set ss. proper_segment s"
  shows "filter (\<lambda>s. s \<noteq> []) (split_path (absolute_path ss)) = ss"
  using assms by (auto simp: split_absolute proper_segment_def intro!: filter_True)

lemma resolve_absolute: "\<forall>s \<in> set ss. proper_segment s \<Longrightarrow> path_resolve cwd (absolute_path ss) = absolute_path ss"
proof -
  assume "\<forall>s \<in> set ss. proper_segment s"
  then have "normalize_segments False (split_path (absolute_path ss)) [] = ss" by (rule normalize_absolute)
  moreover have "is_absolute (absolute_path ss)" by (simp add: is_absolute_def absolute_path_def)
  ultimately show ?thesis by (simp add: path_resolve_def) (simp add: absolute_path_def)
qed

lemma normalize_split_cwd:
  assumes "\<forall>s \<in> set cs. proper_segment s"
  shows "normalize_segments False (split_path (absolute_path cs @ slash # p)) [] =
    normalize_segments False (split_path p) (rev cs)"
  using assms normalize_proper [of cs False "split_path p" "[]"]
  by (simp add: split_path_slash split_absolute)

lemma resolve_dot: "\<forall>s \<in> set cs. proper_segment s \<Longrightarrow> path_resolve (absolute_path cs) ''.'' = absolute_path cs"
  by (simp add: path_resolve_def is_absolute_def normalize_split_cwd) (simp add: absolute_path_def)

section \<open>The printed path\<close>

text \<open>The segments of the printed path: up to the common ancestor, down again, and the directory.\<close>

definition relative_segments :: "string list \<Rightarrow> string list \<Rightarrow> string list" where
  "relative_segments cs ds =
     (let k = length (longest_common_prefix cs ds) in replicate (length cs - k) ''..'' @ drop k ds)"

lemma relative_eq:
  assumes "\<forall>s \<in> set cs. proper_segment s" "\<forall>s \<in> set ds. proper_segment s"
  shows "path_relative (absolute_path cs) ''.'' (absolute_path ds) = join_path (relative_segments cs ds)"
  using assms
  by (simp add: path_relative_def relative_segments_def resolve_dot resolve_absolute segments_resolve Let_def)

lemma set_relative_segments: "set (relative_segments cs ds) \<subseteq> insert ''..'' (set ds)"
proof -
  let ?k = "length (longest_common_prefix cs ds)"
  have "set (relative_segments cs ds) = set (replicate (length cs - ?k) ''..'') \<union> set (drop ?k ds)"
    by (simp only: relative_segments_def Let_def set_append)
  also have "\<dots> \<subseteq> {''..''} \<union> set ds"
    using set_drop_subset [of ?k ds] by (intro Un_mono) (auto simp: set_replicate_conv_if)
  finally show ?thesis by simp
qed

lemma relative_segments_ok:
  assumes "\<forall>s \<in> set ds. proper_segment s" "s \<in> set (relative_segments cs ds)"
  shows "slash \<notin> set s \<and> s \<noteq> []"
proof -
  from assms(2) set_relative_segments consider "s = ''..''" | "s \<in> set ds" by fast
  then show ?thesis
  proof cases
    case 2
    with assms(1) have "proper_segment s" by simp
    then show ?thesis by (simp add: proper_segment_def)
  qed simp
qed

lemma join_Cons: "join_path (s # ss) = (if ss = [] then s else s @ slash # join_path ss)"
  by (cases ss) simp_all

lemma join_ends:
  assumes "\<forall>s \<in> set ss. slash \<notin> set s \<and> s \<noteq> []" "ss \<noteq> []"
  shows "join_path ss \<noteq> []" "\<not> is_absolute (join_path ss)" "last (join_path ss) \<noteq> slash"
proof -
  obtain s rest where ss: "ss = s # rest" using assms(2) by (cases ss) auto
  then have "s \<noteq> []" "slash \<notin> set s" using assms(1) by auto
  then show "join_path ss \<noteq> []" "\<not> is_absolute (join_path ss)"
    by (auto simp: ss join_Cons is_absolute_def neq_Nil_conv)
  show "last (join_path ss) \<noteq> slash"
    using assms
  proof (induction ss)
    case (Cons s ss)
    show ?case
    proof (cases "ss = []")
      case True
      with Cons.prems have "last s \<in> set s" "slash \<notin> set s" by auto
      then have "last s \<noteq> slash" by metis
      with True show ?thesis by (simp add: join_Cons)
    next
      case False
      moreover have "join_path ss \<noteq> []" using False Cons.prems by (cases ss) (auto simp: join_Cons)
      ultimately show ?thesis using Cons by (simp add: join_Cons)
    qed
  qed simp
qed

lemma path_join_segments:
  assumes "\<forall>s \<in> set ss. slash \<notin> set s \<and> s \<noteq> []"
  shows "path_join (join_path ss) ''include'' = path_normalize (join_path (ss @ [''include'']))"
  using assms join_ends [of ss] join_append [of ss "[''include'']"]
  by (cases "ss = []") (simp_all add: path_join_def)

lemma normalize_relative:
  assumes "\<forall>s \<in> set ds. proper_segment s"
  shows "normalize_segments True (replicate n ''..'' @ ds) [] = replicate n ''..'' @ ds"
  using normalize_ups_above [of "[]" n ds] normalize_proper [OF assms, of True "[]" "replicate n ''..''"]
  by simp

lemma include_dirs_segments:
  assumes "\<forall>s \<in> set cs. proper_segment s" "\<forall>s \<in> set ds. proper_segment s"
  shows "include_dirs (absolute_path cs) (absolute_path ds) = join_path (relative_segments cs ds @ [''include''])"
proof -
  let ?S = "relative_segments cs ds @ [''include'']"
  have ok: "\<forall>s \<in> set ?S. slash \<notin> set s \<and> s \<noteq> []"
    using relative_segments_ok [OF assms(2)] by auto
  let ?k = "length (longest_common_prefix cs ds)"
  have S: "?S = replicate (length cs - ?k) ''..'' @ (drop ?k ds @ [''include''])"
    by (simp add: relative_segments_def Let_def)
  have "\<forall>s \<in> set (drop ?k ds @ [''include'']). proper_segment s"
    using assms(2) by (auto simp: proper_segment_def dest: in_set_dropD)
  then have norm: "normalize_segments True ?S [] = ?S" unfolding S by (rule normalize_relative)
  have split: "split_path (join_path ?S) = ?S" using ok by (intro split_join) auto
  have "?S \<noteq> []" by simp
  from join_ends [OF ok this] have "path_normalize (join_path ?S) = join_path ?S"
    unfolding path_normalize_def Let_def split by (simp only: norm not_False_eq_True if_False append.simps append_Nil2)
  then show ?thesis
    using path_join_segments [of "relative_segments cs ds"] ok
    by (simp add: include_dirs_def relative_eq [OF assms])
qed

text \<open>
  C35: the printed path leads from the working directory to the \<^verbatim>\<open>include\<close> directory beside the
  script: resolved against the working directory it is \<^verbatim>\<open>__dirname\<close> with \<^verbatim>\<open>include\<close> appended, for all
  absolute normalised directories, also when one contains the other or they share only the root;
  and it is always a relative path.
\<close>
theorem include_dirs_correct:
  assumes "\<forall>s \<in> set cs. proper_segment s" "\<forall>s \<in> set ds. proper_segment s"
  shows "path_resolve (absolute_path cs) (include_dirs (absolute_path cs) (absolute_path ds)) =
      absolute_path (ds @ [''include''])
    \<and> \<not> is_absolute (include_dirs (absolute_path cs) (absolute_path ds))"
proof
  let ?S = "relative_segments cs ds @ [''include'']" and ?k = "length (longest_common_prefix cs ds)"
  have ok: "\<forall>s \<in> set ?S. slash \<notin> set s \<and> s \<noteq> []"
    using relative_segments_ok [OF assms(2)] by auto
  have split: "split_path (join_path ?S) = ?S" using ok by (intro split_join) auto
  show rel: "\<not> is_absolute (include_dirs (absolute_path cs) (absolute_path ds))"
    using join_ends(2) [OF ok] by (simp add: include_dirs_segments [OF assms])
  have common: "take ?k cs = take ?k ds" "?k \<le> length cs"
    using longest_common_prefix_prefix1 [of cs ds] longest_common_prefix_prefix2 [of cs ds]
    by (metis append_eq_conv_conj prefix_def) (rule prefix_length_le, rule longest_common_prefix_prefix1)
  have "\<forall>s \<in> set (drop ?k ds @ [''include'']). proper_segment s"
    using assms(2) by (auto simp: proper_segment_def dest: in_set_dropD)
  from normalize_proper [OF this, of False "[]"]
  have "normalize_segments False ?S (rev cs) = take ?k cs @ drop ?k ds @ [''include'']"
    using normalize_ups_below [of "rev cs" "length cs - ?k" "drop ?k ds @ [''include'']"] assms(1) common(2)
    by (simp add: relative_segments_def Let_def drop_rev)
  also have "\<dots> = ds @ [''include'']" by (simp add: common(1))
  finally show "path_resolve (absolute_path cs) (include_dirs (absolute_path cs) (absolute_path ds)) =
      absolute_path (ds @ [''include''])"
    using rel
    by (simp only: path_resolve_def normalize_split_cwd [OF assms(1)] include_dirs_segments [OF assms] split
        if_False absolute_path_def [of "ds @ _"])
qed

theorem include_dirs_correct_witness:
  "absolute_path [''home'', ''build''] = ''/home/build''
   \<and> include_dirs (absolute_path [''home'', ''build'']) (absolute_path [''home'', ''src'', ''rapidjson'']) =
       ''../src/rapidjson/include''
   \<and> path_resolve ''/home/build'' ''../src/rapidjson/include'' = ''/home/src/rapidjson/include''"
proof -
  have ok: "\<forall>s \<in> set [''home'', ''build'']. proper_segment s" "\<forall>s \<in> set [''home'', ''src'', ''rapidjson'']. proper_segment s"
    by (simp_all add: proper_segment_def)
  have inc: "include_dirs (absolute_path [''home'', ''build'']) (absolute_path [''home'', ''src'', ''rapidjson'']) =
      ''../src/rapidjson/include''"
    unfolding include_dirs_segments [OF ok] relative_segments_def by simp
  show ?thesis
    using include_dirs_correct [OF ok] unfolding inc by (simp add: absolute_path_def)
qed

end
