(* ===== verification/Tally_Wire.thy ===== *)
theory Tally_Wire
  imports Binary_Archive Lifecycle
begin

text \<open>
  The records of the encrypted vote and of its tally, as they are kept in the database and sent over the network:
  the key record and its parts (\<^verbatim>\<open>src/src/governance/dao_dkg.cpp\<close>, \<^verbatim>\<open>dao_tally_key.cpp\<close>), the sessions and shares of the
  committee (\<^verbatim>\<open>dao_tally_session_cycle.cpp\<close>, \<^verbatim>\<open>dao_tally_share.cpp\<close>), the certificate and the outcome
  (\<^verbatim>\<open>dao_tally.cpp\<close>), the supply snapshot (\<^verbatim>\<open>dao_supply.h\<close>), and the vote record and aggregate
  (\<^verbatim>\<open>src/src/blockchain_db/blockchain_db.h\<close>). Each of these files has its own copy of the functions that push and pull
  integers and vectors; the copies agree, and there is one model of them. A position in the input is the list of the bytes
  behind it. Every record has a lemma that reading gives back what was written.
\<close>

section \<open>Pushing and pulling\<close>

definition push_u32 :: "u32 \<Rightarrow> bytes" where
  "push_u32 w = le_bytes 4 (unat w)"

definition pull_u32 :: "bytes \<Rightarrow> (u32 \<times> bytes) option" where
  "pull_u32 bs = (if length bs < 4 then None else Some (word_of_nat (le_val (take 4 bs)), drop 4 bs))"

text \<open>Numbers of 128 bits are big-endian.\<close>

definition push_u128 :: "u128 \<Rightarrow> bytes" where
  "push_u128 w = rev (le_bytes 16 (unat w))"

definition pull_u128 :: "bytes \<Rightarrow> (u128 \<times> bytes) option" where
  "pull_u128 bs = (if length bs < 16 then None else Some (word_of_nat (le_val (rev (take 16 bs))), drop 16 bs))"

definition push_vec :: "bytes \<Rightarrow> bytes" where
  "push_vec b = push_u32 (word_of_nat (length b)) @ b"

text \<open>One step of a reader: the value is read, or the reader returns false.\<close>

definition pull :: "(bytes \<Rightarrow> ('a \<times> bytes) option) \<Rightarrow> bytes \<Rightarrow> ('a \<Rightarrow> bytes \<Rightarrow> 'b option) \<Rightarrow> 'b option" where
  "pull dec bs k = (case dec bs of None \<Rightarrow> None | Some (x, r) \<Rightarrow> k x r)"

definition pull_vec :: "bytes \<Rightarrow> (bytes \<times> bytes) option" where
  "pull_vec bs = pull pull_u32 bs (\<lambda>n r. get_raw (unat n) r)"

text \<open>A vector whose size is checked right after it is read.\<close>

definition pull_sized :: "nat \<Rightarrow> bytes \<Rightarrow> (bytes \<times> bytes) option" where
  "pull_sized n bs = pull pull_vec bs (\<lambda>v r. if length v \<noteq> n then None else Some (v, r))"

definition push_list :: "('a \<Rightarrow> bytes) \<Rightarrow> 'a list \<Rightarrow> bytes" where
  "push_list enc xs = push_u32 (word_of_nat (length xs)) @ concat (map enc xs)"

definition pull_list :: "nat \<Rightarrow> (bytes \<Rightarrow> ('a \<times> bytes) option) \<Rightarrow> bytes \<Rightarrow> ('a list \<times> bytes) option" where
  "pull_list most dec bs = pull pull_u32 bs (\<lambda>n r. if most < unat n then None else get_n dec (unat n) r)"

text \<open>\<^verbatim>\<open>return off == in.size()\<close>.\<close>

definition at_end :: "'a \<Rightarrow> bytes \<Rightarrow> 'a option" where
  "at_end x bs = (if bs = [] then Some x else None)"

lemma unat_word_of_nat32: "n < 2 ^ 32 \<Longrightarrow> unat (word_of_nat n :: u32) = n"
  by (simp add: unat_of_nat)

lemma word_128_bound: "unat (w :: u128) < 256 ^ 16"
  using unsigned_less [of w] by simp

interpretation u32: byte_codec push_u32 pull_u32 "\<lambda>_. True"
proof
  fix x :: u32 and r
  have "unat x < 256 ^ 4" using unsigned_less [of x] by simp
  then show "pull_u32 (push_u32 x @ r) = Some (x, r)" by (simp add: push_u32_def pull_u32_def)
qed

interpretation u128: byte_codec push_u128 pull_u128 "\<lambda>_. True"
proof
  fix x :: u128 and r
  show "pull_u128 (push_u128 x @ r) = Some (x, r)" using word_128_bound [of x] by (simp add: push_u128_def pull_u128_def)
qed

context byte_codec
begin

lemma pull_enc [codec_simps]: "ok x \<Longrightarrow> pull dec (enc x @ r) k = k x r"
  by (simp add: pull_def dec_enc)

lemma pull_enc_end [codec_simps]: "ok x \<Longrightarrow> pull dec (enc x) k = k x []"
  using pull_enc [of x "[]"] by simp

lemma pull_n_enc [codec_simps]: "\<forall>x \<in> set xs. ok x \<Longrightarrow> pull (get_n dec (length xs)) (concat (map enc xs) @ r) k = k xs r"
  by (simp add: pull_def dec_list_enc)

end

interpretation vec: byte_codec push_vec pull_vec "\<lambda>b. length b < 2 ^ 32"
  by unfold_locales (simp add: push_vec_def pull_vec_def u32.pull_enc unat_word_of_nat32 raw.dec_enc)

interpretation sized: byte_codec push_vec "pull_sized n" "\<lambda>b. length b = n \<and> n < 2 ^ 32" for n
  by unfold_locales (simp add: pull_sized_def vec.pull_enc)

context byte_codec
begin

lemma pull_list_enc [codec_simps]:
  "length xs \<le> most \<Longrightarrow> most < 2 ^ 32 \<Longrightarrow> \<forall>x \<in> set xs. ok x \<Longrightarrow> pull (pull_list most dec) (push_list enc xs @ r) k = k xs r"
  by (simp add: pull_def [of "pull_list most dec"] pull_list_def push_list_def u32.pull_enc unat_word_of_nat32 dec_list_enc)

lemma pull_list_enc_end [codec_simps]:
  "length xs \<le> most \<Longrightarrow> most < 2 ^ 32 \<Longrightarrow> \<forall>x \<in> set xs. ok x \<Longrightarrow> pull (pull_list most dec) (push_list enc xs) k = k xs []"
  using pull_list_enc [of xs most "[]"] by simp

end

section \<open>Snapshots of the supply\<close>

record dao_supply_snapshot =
  ss_height :: u64
  ss_minted :: u128
  ss_treasury :: u128
  ss_burned :: u128
  ss_circulating :: u128

definition snapshot_serialize :: "dao_supply_snapshot \<Rightarrow> bytes" where
  "snapshot_serialize s =
     put_u64 (ss_height s) @ push_u128 (ss_minted s) @ push_u128 (ss_treasury s) @ push_u128 (ss_burned s)
     @ push_u128 (ss_circulating s)"

definition snapshot_deserialize :: "bytes \<Rightarrow> dao_supply_snapshot option" where
  "snapshot_deserialize bs =
     (if length bs \<noteq> 8 + 4 * 16 then None
      else
        pull get_u64 bs (\<lambda>h bs.
        pull pull_u128 bs (\<lambda>m bs.
        pull pull_u128 bs (\<lambda>t bs.
        pull pull_u128 bs (\<lambda>b bs.
        pull pull_u128 bs (\<lambda>c bs.
          Some \<lparr>ss_height = h, ss_minted = m, ss_treasury = t, ss_burned = b, ss_circulating = c\<rparr>))))))"

text \<open>What circulates, unless a subtraction would go below zero.\<close>

definition compute_circulating :: "u128 \<Rightarrow> u128 \<Rightarrow> u128 \<Rightarrow> u128 option" where
  "compute_circulating minted treasury burned =
     (if minted < treasury then None
      else let m1 = minted - treasury in if m1 < burned then None else Some (m1 - burned))"

lemma length_push [simp]: "length (push_u32 a) = 4" "length (push_u128 b) = 16" "length (push_vec v) = 4 + length v"
  by (simp_all add: push_u32_def push_u128_def push_vec_def)

lemma snapshot_round_trip: "snapshot_deserialize (snapshot_serialize s) = Some s"
  by (simp add: snapshot_deserialize_def snapshot_serialize_def codec_simps)

lemma circulating_exact:
  "compute_circulating minted treasury burned = Some c \<longleftrightarrow>
     unat treasury + unat burned \<le> unat minted \<and> unat c = unat minted - unat treasury - unat burned"
proof (cases "treasury \<le> minted")
  case True
  then have m: "unat (minted - treasury) = unat minted - unat treasury" "unat treasury \<le> unat minted"
    by (simp_all add: unat_sub word_le_nat_alt)
  show ?thesis
  proof (cases "burned \<le> minted - treasury")
    case fits: True
    then have "unat (minted - treasury - burned) = unat minted - unat treasury - unat burned" by (simp add: unat_sub m)
    then show ?thesis using True fits m
      by (auto simp: compute_circulating_def Let_def word_le_nat_alt word_less_nat_alt word_unat_eq_iff)
  next
    case False
    then show ?thesis using True m by (auto simp: compute_circulating_def Let_def not_less word_le_nat_alt)
  qed
qed (auto simp: compute_circulating_def word_le_nat_alt word_less_nat_alt)

section \<open>Votes and aggregates\<close>

record dao_vote_record_v2 =
  vr_proposal_id :: hash32
  vr_vote_height :: u64
  vr_tx_hash :: hash32
  vr_nullifiers :: "hash32 list"

definition vote_record_serialize :: "dao_vote_record_v2 \<Rightarrow> bytes" where
  "vote_record_serialize r =
     vr_proposal_id r @ put_u64 (vr_vote_height r) @ vr_tx_hash r @ push_list (\<lambda>h. h) (vr_nullifiers r)"

definition vote_record_deserialize :: "bytes \<Rightarrow> dao_vote_record_v2 option" where
  "vote_record_deserialize bs =
     (if length bs < 32 + 8 + 32 + 4 then None
      else
        let sz = length bs in
        pull (get_raw 32) bs (\<lambda>p bs.
        pull get_u64 bs (\<lambda>h bs.
        pull (get_raw 32) bs (\<lambda>t bs.
        pull pull_u32 bs (\<lambda>n bs.
          if sz \<noteq> 32 + 8 + 32 + 4 + unat n * 32 then None
          else pull (get_n (get_raw 32) (unat n)) bs (\<lambda>ns bs.
            Some \<lparr>vr_proposal_id = p, vr_vote_height = h, vr_tx_hash = t, vr_nullifiers = ns\<rparr>))))))"

record dao_proposal_aggregate =
  ag_E_W :: bytes
  ag_E_S :: bytes
  ag_E_B :: bytes
  ag_C_W :: bytes
  ag_C_S :: bytes
  ag_C_B :: bytes

definition aggregate_serialize :: "dao_proposal_aggregate \<Rightarrow> bytes" where
  "aggregate_serialize a =
     push_vec (ag_E_W a) @ push_vec (ag_E_S a) @ push_vec (ag_E_B a) @ ag_C_W a @ ag_C_S a @ ag_C_B a"

definition aggregate_deserialize :: "bytes \<Rightarrow> dao_proposal_aggregate option" where
  "aggregate_deserialize bs =
     pull pull_vec bs (\<lambda>ew bs.
     pull pull_vec bs (\<lambda>es bs.
     pull pull_vec bs (\<lambda>eb bs.
       if length bs \<noteq> 96 then None
       else
         pull (get_raw 32) bs (\<lambda>cw bs.
         pull (get_raw 32) bs (\<lambda>cs bs.
         pull (get_raw 32) bs (\<lambda>cb bs.
           Some \<lparr>ag_E_W = ew, ag_E_S = es, ag_E_B = eb, ag_C_W = cw, ag_C_S = cs, ag_C_B = cb\<rparr>))))))"

definition vote_record_ok :: "dao_vote_record_v2 \<Rightarrow> bool" where
  "vote_record_ok r \<longleftrightarrow> length (vr_proposal_id r) = 32 \<and> length (vr_tx_hash r) = 32
     \<and> length (vr_nullifiers r) < 2 ^ 32 \<and> list_all (\<lambda>h. length h = 32) (vr_nullifiers r)"

definition aggregate_ok :: "dao_proposal_aggregate \<Rightarrow> bool" where
  "aggregate_ok a \<longleftrightarrow> list_all (\<lambda>e. length e < 2 ^ 32) [ag_E_W a, ag_E_S a, ag_E_B a]
     \<and> list_all (\<lambda>k. length k = 32) [ag_C_W a, ag_C_S a, ag_C_B a]"

lemma length_concat_same: "list_all (\<lambda>h. length h = n) xs \<Longrightarrow> length (concat xs) = length xs * n"
  by (induction xs) auto

lemma vote_record_round_trip: "vote_record_ok r \<Longrightarrow> vote_record_deserialize (vote_record_serialize r) = Some r"
proof -
  assume ok: "vote_record_ok r"
  let ?n = "word_of_nat (length (vr_nullifiers r)) :: u32"
  have n: "unat ?n = length (vr_nullifiers r)" using ok by (simp add: vote_record_ok_def unat_word_of_nat32)
  have len: "length (concat (vr_nullifiers r)) = length (vr_nullifiers r) * 32"
    using ok by (simp add: vote_record_ok_def length_concat_same)
  have "get_n (get_raw 32) (length (vr_nullifiers r)) (concat (vr_nullifiers r)) = Some (vr_nullifiers r, [])"
    using raw.dec_list_enc [of "vr_nullifiers r" 32 "[]"] ok by (simp add: vote_record_ok_def list_all_iff)
  then show ?thesis using ok
    by (simp add: vote_record_deserialize_def vote_record_serialize_def push_list_def codec_simps Let_def n len vote_record_ok_def)
      (simp add: pull_def)
qed

lemma aggregate_round_trip: "aggregate_ok a \<Longrightarrow> aggregate_deserialize (aggregate_serialize a) = Some a"
  by (simp add: aggregate_deserialize_def aggregate_serialize_def aggregate_ok_def codec_simps)

section \<open>Keys of the tally\<close>

abbreviation (input) DAO_DKG_MAX_COMMITTEE_SIZE :: nat where "DAO_DKG_MAX_COMMITTEE_SIZE \<equiv> 16"
abbreviation (input) CT_BYTES :: nat where "CT_BYTES \<equiv> 512"
abbreviation (input) MODULUS_BYTES :: nat where "MODULUS_BYTES \<equiv> 256"

record dao_tally_key_record =
  tk_version :: u32
  tk_committee_size :: u32
  tk_threshold :: u32
  tk_t :: u32
  tk_committee_id_hash :: bytes
  tk_committee_members :: "bytes list"
  tk_delta :: bytes
  tk_N :: bytes
  tk_G :: bytes
  tk_theta :: bytes
  tk_V :: bytes
  tk_V_K_i :: "bytes list"
  tk_vss_P :: bytes
  tk_vss_P_prime :: bytes
  tk_vss_g :: bytes
  tk_vss_h :: bytes
  tk_activation_height :: u64
  tk_dkg_transcript_hash :: bytes
  tk_key_id :: bytes

definition key_record_serialize :: "dao_tally_key_record \<Rightarrow> bytes option" where
  "key_record_serialize k =
     (if length (tk_committee_id_hash k) \<noteq> 32 then None
      else if length (tk_committee_members k) \<noteq> unat (tk_committee_size k) then None
      else if list_ex (\<lambda>m. length m \<noteq> 32) (tk_committee_members k) then None
      else if length (tk_delta k) \<noteq> 32 then None
      else if length (tk_N k) \<noteq> MODULUS_BYTES then None
      else if length (tk_G k) \<noteq> MODULUS_BYTES then None
      else if length (tk_theta k) \<noteq> MODULUS_BYTES then None
      else if length (tk_V k) \<noteq> CT_BYTES then None
      else if length (tk_V_K_i k) \<noteq> unat (tk_committee_size k) then None
      else if list_ex (\<lambda>v. length v \<noteq> CT_BYTES) (tk_V_K_i k) then None
      else if length (tk_dkg_transcript_hash k) \<noteq> 32 then None
      else if length (tk_key_id k) \<noteq> 32 then None
      else Some
       (push_u32 (tk_version k) @ push_u32 (tk_committee_size k) @ push_u32 (tk_threshold k) @ push_u32 (tk_t k)
        @ tk_committee_id_hash k @ concat (tk_committee_members k)
        @ tk_delta k @ tk_N k @ tk_G k @ tk_theta k @ tk_V k @ concat (tk_V_K_i k)
        @ push_vec (tk_vss_P k) @ push_vec (tk_vss_P_prime k) @ push_vec (tk_vss_g k) @ push_vec (tk_vss_h k)
        @ put_u64 (tk_activation_height k) @ tk_dkg_transcript_hash k @ tk_key_id k))"

definition key_record_deserialize :: "bytes \<Rightarrow> dao_tally_key_record option" where
  "key_record_deserialize bs =
     pull pull_u32 bs (\<lambda>v bs.
     pull pull_u32 bs (\<lambda>cs bs.
     pull pull_u32 bs (\<lambda>th bs.
     pull pull_u32 bs (\<lambda>tt bs.
       if cs = 0 \<or> 64 < unat cs then None
       else
         pull (get_raw 32) bs (\<lambda>cid bs.
         pull (get_n (get_raw 32) (unat cs)) bs (\<lambda>ms bs.
         pull (get_raw 32) bs (\<lambda>delta bs.
         pull (get_raw MODULUS_BYTES) bs (\<lambda>N bs.
         pull (get_raw MODULUS_BYTES) bs (\<lambda>G bs.
         pull (get_raw MODULUS_BYTES) bs (\<lambda>theta bs.
         pull (get_raw CT_BYTES) bs (\<lambda>V bs.
         pull (get_n (get_raw CT_BYTES) (unat cs)) bs (\<lambda>vks bs.
         pull pull_vec bs (\<lambda>P bs.
         pull pull_vec bs (\<lambda>P' bs.
         pull pull_vec bs (\<lambda>g bs.
         pull pull_vec bs (\<lambda>h bs.
         pull get_u64 bs (\<lambda>ah bs.
         pull (get_raw 32) bs (\<lambda>tr bs.
         pull (get_raw 32) bs (\<lambda>kid bs.
           at_end
             \<lparr>tk_version = v, tk_committee_size = cs, tk_threshold = th, tk_t = tt, tk_committee_id_hash = cid,
              tk_committee_members = ms, tk_delta = delta, tk_N = N, tk_G = G, tk_theta = theta, tk_V = V,
              tk_V_K_i = vks, tk_vss_P = P, tk_vss_P_prime = P', tk_vss_g = g, tk_vss_h = h,
              tk_activation_height = ah, tk_dkg_transcript_hash = tr, tk_key_id = kid\<rparr> bs)))))))))))))))))))"

text \<open>
  The writer does not check the size of the committee, which the reader bounds by 64, nor the vectors of the group
  against the width of their length field.
\<close>

definition key_record_bounds :: "dao_tally_key_record \<Rightarrow> bool" where
  "key_record_bounds k \<longleftrightarrow> tk_committee_size k \<noteq> 0 \<and> unat (tk_committee_size k) \<le> 64
     \<and> list_all (\<lambda>v. length v < 2 ^ 32) [tk_vss_P k, tk_vss_P_prime k, tk_vss_g k, tk_vss_h k]"

lemma not_list_ex_neq: "\<not> list_ex (\<lambda>x. f x \<noteq> n) xs \<longleftrightarrow> (\<forall>x \<in> set xs. f x = n)"
  by (auto simp: list_ex_iff)

text \<open>Lists of fixed length, with the count known.\<close>

lemma pull_raws:
  assumes "length xs = n" "\<forall>x \<in> set xs. length x = m"
  shows "pull (get_n (get_raw m) n) (concat xs @ r) k = k xs r"
  using raw.pull_n_enc [OF assms(2)] assms(1) by simp

lemma key_record_round_trip:
  assumes "key_record_serialize k = Some bs" "key_record_bounds k"
  shows "key_record_deserialize bs = Some k"
  using assms unfolding key_record_serialize_def not_list_ex_neq
  by (auto simp: key_record_deserialize_def key_record_bounds_def not_list_ex_neq codec_simps pull_raws at_end_def split: if_splits)

text \<open>The key alone, and the committee alone.\<close>

record dao_tally_public_key_record =
  pkr_version :: u32
  pkr_key_epoch :: u32
  pkr_delta :: bytes
  pkr_N :: bytes
  pkr_G :: bytes
  pkr_theta :: bytes
  pkr_V :: bytes
  pkr_vss_P :: bytes
  pkr_vss_P_prime :: bytes
  pkr_vss_g :: bytes
  pkr_vss_h :: bytes
  pkr_key_id :: bytes
  pkr_dkg_transcript_hash :: bytes
  pkr_activation_height :: u64

definition public_key_serialize :: "dao_tally_public_key_record \<Rightarrow> bytes option" where
  "public_key_serialize k =
     (if length (pkr_delta k) \<noteq> 32 then None
      else if length (pkr_N k) \<noteq> MODULUS_BYTES then None
      else if length (pkr_G k) \<noteq> MODULUS_BYTES then None
      else if length (pkr_theta k) \<noteq> MODULUS_BYTES then None
      else if length (pkr_V k) \<noteq> CT_BYTES then None
      else if length (pkr_key_id k) \<noteq> 32 then None
      else if length (pkr_dkg_transcript_hash k) \<noteq> 32 then None
      else Some
       (push_u32 (pkr_version k) @ push_u32 (pkr_key_epoch k) @ push_vec (pkr_delta k) @ push_vec (pkr_N k)
        @ push_vec (pkr_G k) @ push_vec (pkr_theta k) @ push_vec (pkr_V k) @ push_vec (pkr_vss_P k)
        @ push_vec (pkr_vss_P_prime k) @ push_vec (pkr_vss_g k) @ push_vec (pkr_vss_h k)
        @ pkr_key_id k @ pkr_dkg_transcript_hash k @ put_u64 (pkr_activation_height k)))"

definition public_key_deserialize :: "bytes \<Rightarrow> dao_tally_public_key_record option" where
  "public_key_deserialize bs =
     pull pull_u32 bs (\<lambda>v bs.
     pull pull_u32 bs (\<lambda>e bs.
     pull pull_vec bs (\<lambda>delta bs.
     pull pull_vec bs (\<lambda>N bs.
     pull pull_vec bs (\<lambda>G bs.
     pull pull_vec bs (\<lambda>theta bs.
     pull pull_vec bs (\<lambda>V bs.
     pull pull_vec bs (\<lambda>P bs.
     pull pull_vec bs (\<lambda>P' bs.
     pull pull_vec bs (\<lambda>g bs.
     pull pull_vec bs (\<lambda>h bs.
     pull (get_raw 32) bs (\<lambda>kid bs.
     pull (get_raw 32) bs (\<lambda>tr bs.
     pull get_u64 bs (\<lambda>ah bs.
       at_end
         \<lparr>pkr_version = v, pkr_key_epoch = e, pkr_delta = delta, pkr_N = N, pkr_G = G, pkr_theta = theta, pkr_V = V,
          pkr_vss_P = P, pkr_vss_P_prime = P', pkr_vss_g = g, pkr_vss_h = h, pkr_key_id = kid,
          pkr_dkg_transcript_hash = tr, pkr_activation_height = ah\<rparr> bs))))))))))))))"

record dao_tally_committee_record =
  tc_version :: u32
  tc_share_epoch :: u32
  tc_committee_size :: u32
  tc_threshold :: u32
  tc_t :: u32
  tc_public_key_id :: bytes
  tc_committee_id_hash :: bytes
  tc_committee_members :: "bytes list"
  tc_V_K_i :: "bytes list"
  tc_selection_height :: u64
  tc_activation_height :: u64

definition committee_serialize :: "dao_tally_committee_record \<Rightarrow> bytes option" where
  "committee_serialize c =
     (if length (tc_public_key_id c) \<noteq> 32 then None
      else if length (tc_committee_id_hash c) \<noteq> 32 then None
      else if length (tc_committee_members c) \<noteq> unat (tc_committee_size c) then None
      else if list_ex (\<lambda>m. length m \<noteq> 32) (tc_committee_members c) then None
      else if length (tc_V_K_i c) \<noteq> unat (tc_committee_size c) then None
      else if list_ex (\<lambda>v. length v \<noteq> CT_BYTES) (tc_V_K_i c) then None
      else Some
       (push_u32 (tc_version c) @ push_u32 (tc_share_epoch c) @ push_u32 (tc_committee_size c)
        @ push_u32 (tc_threshold c) @ push_u32 (tc_t c) @ tc_public_key_id c @ tc_committee_id_hash c
        @ concat (tc_committee_members c) @ concat (tc_V_K_i c)
        @ put_u64 (tc_selection_height c) @ put_u64 (tc_activation_height c)))"

definition committee_deserialize :: "bytes \<Rightarrow> dao_tally_committee_record option" where
  "committee_deserialize bs =
     pull pull_u32 bs (\<lambda>v bs.
     pull pull_u32 bs (\<lambda>se bs.
     pull pull_u32 bs (\<lambda>cs bs.
     pull pull_u32 bs (\<lambda>th bs.
     pull pull_u32 bs (\<lambda>tt bs.
       if cs = 0 \<or> 64 < unat cs then None
       else
         pull (get_raw 32) bs (\<lambda>kid bs.
         pull (get_raw 32) bs (\<lambda>cid bs.
         pull (get_n (get_raw 32) (unat cs)) bs (\<lambda>ms bs.
         pull (get_n (get_raw CT_BYTES) (unat cs)) bs (\<lambda>vks bs.
         pull get_u64 bs (\<lambda>sh bs.
         pull get_u64 bs (\<lambda>ah bs.
           at_end
             \<lparr>tc_version = v, tc_share_epoch = se, tc_committee_size = cs, tc_threshold = th, tc_t = tt,
              tc_public_key_id = kid, tc_committee_id_hash = cid, tc_committee_members = ms, tc_V_K_i = vks,
              tc_selection_height = sh, tc_activation_height = ah\<rparr> bs)))))))))))"

lemma public_key_round_trip:
  assumes "public_key_serialize k = Some bs" "list_all (\<lambda>v. length v < 2 ^ 32) [pkr_vss_P k, pkr_vss_P_prime k, pkr_vss_g k, pkr_vss_h k]"
  shows "public_key_deserialize bs = Some k"
  using assms by (auto simp: public_key_serialize_def public_key_deserialize_def codec_simps at_end_def split: if_splits)

lemma committee_round_trip:
  assumes "committee_serialize c = Some bs" "tc_committee_size c \<noteq> 0" "unat (tc_committee_size c) \<le> 64"
  shows "committee_deserialize bs = Some c"
  using assms unfolding committee_serialize_def not_list_ex_neq
  by (auto simp: committee_deserialize_def not_list_ex_neq codec_simps pull_raws at_end_def split: if_splits)

section \<open>Share sets\<close>

record dao_share_set_record =
  sh_version :: u32
  sh_share_set_id :: u64
  sh_height :: u64
  sh_threshold :: u32
  sh_key_id :: bytes
  sh_committee_id_hash :: bytes
  sh_committee_members :: "bytes list"
  sh_VK_i :: "bytes list"
  sh_base_share_set_id :: u64
  sh_contributions :: "bytes list"
  sh_contributor_indices :: "u32 list"
  sh_contributor_vk :: "bytes list"

definition share_set_serialize :: "dao_share_set_record \<Rightarrow> bytes option" where
  "share_set_serialize s =
     (if length (sh_key_id s) \<noteq> 32 then None
      else if length (sh_committee_id_hash s) \<noteq> 32 then None
      else if length (sh_committee_members s) = 0 then None
      else if length (sh_committee_members s) \<noteq> length (sh_VK_i s) then None
      else if sh_threshold s = 0 \<or> length (sh_committee_members s) < unat (sh_threshold s) then None
      else if list_ex (\<lambda>m. length m \<noteq> 32) (sh_committee_members s) then None
      else if list_ex (\<lambda>v. length v \<noteq> CT_BYTES) (sh_VK_i s) then None
      else Some
       (push_u32 2 @ put_u64 (sh_share_set_id s) @ put_u64 (sh_height s) @ push_u32 (sh_threshold s)
        @ push_vec (sh_key_id s) @ push_vec (sh_committee_id_hash s)
        @ push_u32 (word_of_nat (length (sh_committee_members s)))
        @ concat (map push_vec (sh_committee_members s)) @ concat (map push_vec (sh_VK_i s))
        @ put_u64 (sh_base_share_set_id s) @ push_list push_vec (sh_contributions s)
        @ push_list push_u32 (sh_contributor_indices s) @ push_list push_vec (sh_contributor_vk s)))"

definition share_set_evidence ::
    "u32 \<Rightarrow> bytes \<Rightarrow> ((u64 \<times> bytes list \<times> u32 list \<times> bytes list) \<times> bytes) option" where
  "share_set_evidence v bs =
     (if v \<noteq> 2 then Some ((0, [], [], []), bs)
      else
        pull get_u64 bs (\<lambda>b bs.
        pull (pull_list DAO_DKG_MAX_COMMITTEE_SIZE pull_vec) bs (\<lambda>cs bs.
        pull (pull_list DAO_DKG_MAX_COMMITTEE_SIZE pull_u32) bs (\<lambda>is bs.
        pull (pull_list DAO_DKG_MAX_COMMITTEE_SIZE pull_vec) bs (\<lambda>vs bs. Some ((b, cs, is, vs), bs))))))"

definition share_set_deserialize :: "bytes \<Rightarrow> dao_share_set_record option" where
  "share_set_deserialize bs =
     pull pull_u32 bs (\<lambda>v bs.
       if v \<noteq> 1 \<and> v \<noteq> 2 then None
       else
         pull get_u64 bs (\<lambda>sid bs.
         pull get_u64 bs (\<lambda>h bs.
         pull pull_u32 bs (\<lambda>th bs.
         pull (pull_sized 32) bs (\<lambda>kid bs.
         pull (pull_sized 32) bs (\<lambda>cid bs.
         pull pull_u32 bs (\<lambda>n bs.
           if n = 0 \<or> DAO_DKG_MAX_COMMITTEE_SIZE < unat n then None
           else if th = 0 \<or> n < th then None
           else
             pull (get_n (pull_sized 32) (unat n)) bs (\<lambda>ms bs.
             pull (get_n (pull_sized CT_BYTES) (unat n)) bs (\<lambda>vks bs.
             pull (share_set_evidence v) bs (\<lambda>(b, cs, is, vs) bs.
               at_end
                 \<lparr>sh_version = v, sh_share_set_id = sid, sh_height = h, sh_threshold = th, sh_key_id = kid,
                  sh_committee_id_hash = cid, sh_committee_members = ms, sh_VK_i = vks, sh_base_share_set_id = b,
                  sh_contributions = cs, sh_contributor_indices = is, sh_contributor_vk = vs\<rparr> bs))))))))))"

definition share_set_bounds :: "dao_share_set_record \<Rightarrow> bool" where
  "share_set_bounds s \<longleftrightarrow> length (sh_committee_members s) \<le> 16 \<and> length (sh_contributions s) \<le> 16
     \<and> length (sh_contributor_indices s) \<le> 16 \<and> length (sh_contributor_vk s) \<le> 16
     \<and> list_all (\<lambda>c. length c < 2 ^ 32) (sh_contributions s) \<and> list_all (\<lambda>v. length v < 2 ^ 32) (sh_contributor_vk s)"

lemma unat_word_of_nat_le16: "n \<le> 16 \<Longrightarrow> unat (word_of_nat n :: u32) = n"
  by (simp add: unat_word_of_nat32)

lemma pull_sizeds:
  assumes "length xs = n" "\<forall>x \<in> set xs. length x = m" "m < 2 ^ 32"
  shows "pull (get_n (pull_sized m) n) (concat (map push_vec xs) @ r) k = k xs r"
  using sized.pull_n_enc [of xs m r k] assms by simp

lemma share_set_evidence_enc:
  assumes "share_set_bounds s"
  shows "pull (share_set_evidence 2) (put_u64 (sh_base_share_set_id s) @ push_list push_vec (sh_contributions s)
      @ push_list push_u32 (sh_contributor_indices s) @ push_list push_vec (sh_contributor_vk s)) k
    = k (sh_base_share_set_id s, sh_contributions s, sh_contributor_indices s, sh_contributor_vk s) []"
  using assms by (simp add: pull_def [of "share_set_evidence 2"] share_set_evidence_def share_set_bounds_def codec_simps list_all_iff)

text \<open>The writer always writes version 2.\<close>

lemma share_set_round_trip:
  assumes "share_set_serialize s = Some bs" "share_set_bounds s"
  shows "share_set_deserialize bs = Some (s\<lparr>sh_version := 2\<rparr>)"
proof -
  let ?n = "word_of_nat (length (sh_committee_members s)) :: u32"
  have n: "unat ?n = length (sh_committee_members s)" using assms(2) by (simp add: share_set_bounds_def unat_word_of_nat_le16)
  have "sh_committee_members s \<noteq> []" "sh_threshold s \<noteq> 0" "unat (sh_threshold s) \<le> length (sh_committee_members s)"
    using assms(1) by (auto simp: share_set_serialize_def split: if_splits)
  then have "?n \<noteq> 0" "\<not> ?n < sh_threshold s" using n by (auto simp: word_less_nat_alt unat_eq_0 [symmetric] simp del: unat_eq_0)
  moreover have "length (sh_committee_members s) \<le> 16" using assms(2) by (simp add: share_set_bounds_def)
  ultimately show ?thesis using assms(1) unfolding share_set_serialize_def not_list_ex_neq
    by (auto simp: share_set_deserialize_def not_list_ex_neq codec_simps unat_word_of_nat_le16 pull_sizeds share_set_evidence_enc [OF assms(2)] at_end_def
        split: if_splits)
qed

section \<open>Activation of a key\<close>

abbreviation (input) SIGNATURE_BYTES :: nat where "SIGNATURE_BYTES \<equiv> 64"

record dao_dkg_key_attestation =
  ka_member_index :: u32
  ka_signature :: bytes

definition push_attestation :: "dao_dkg_key_attestation \<Rightarrow> bytes" where
  "push_attestation a = push_u32 (ka_member_index a) @ push_vec (ka_signature a)"

definition attestation_serialize :: "dao_dkg_key_attestation \<Rightarrow> bytes option" where
  "attestation_serialize a = (if length (ka_signature a) \<noteq> SIGNATURE_BYTES then None else Some (push_attestation a))"

definition attestation_deserialize :: "bytes \<Rightarrow> dao_dkg_key_attestation option" where
  "attestation_deserialize bs =
     pull pull_u32 bs (\<lambda>mi bs.
     pull (pull_sized SIGNATURE_BYTES) bs (\<lambda>sig bs. at_end \<lparr>ka_member_index = mi, ka_signature = sig\<rparr> bs))"

record dao_dkg_key_activation =
  act_version :: u32
  act_selection_height :: u64
  act_proposal_id :: hash32
  act_record :: dao_tally_key_record
  act_attestations :: "dao_dkg_key_attestation list"

text \<open>The indices go up, so that no member attests twice.\<close>

fun attestations_ok :: "u32 \<Rightarrow> dao_dkg_key_attestation list \<Rightarrow> bool" where
  "attestations_ok prev [] = True"
| "attestations_ok prev (a # as) =
     (if ka_member_index a = 0 then False
      else if ka_member_index a \<le> prev then False
      else if length (ka_signature a) \<noteq> SIGNATURE_BYTES then False
      else attestations_ok (ka_member_index a) as)"

definition activation_serialize :: "dao_dkg_key_activation \<Rightarrow> bytes option" where
  "activation_serialize a =
     (if act_version a \<noteq> 2 then None
      else if 64 < length (act_attestations a) then None
      else if \<not> attestations_ok 0 (act_attestations a) then None
      else case key_record_serialize (act_record a) of
        None \<Rightarrow> None
      | Some rec_blob \<Rightarrow> Some
         (push_u32 (act_version a) @ put_u64 (act_selection_height a) @ act_proposal_id a @ push_vec rec_blob
          @ push_list push_attestation (act_attestations a)))"

primrec pull_attestations :: "u32 \<Rightarrow> u32 \<Rightarrow> nat \<Rightarrow> bytes \<Rightarrow> (dao_dkg_key_attestation list \<times> bytes) option" where
  "pull_attestations committee_size prev 0 bs = Some ([], bs)"
| "pull_attestations committee_size prev (Suc n) bs =
     pull pull_u32 bs (\<lambda>mi bs.
       if mi = 0 then None
       else if mi \<le> prev then None
       else if committee_size < mi then None
       else
         pull (pull_sized SIGNATURE_BYTES) bs (\<lambda>sig bs.
         pull (pull_attestations committee_size mi n) bs (\<lambda>as bs. Some (\<lparr>ka_member_index = mi, ka_signature = sig\<rparr> # as, bs))))"

definition activation_deserialize :: "bytes \<Rightarrow> dao_dkg_key_activation option" where
  "activation_deserialize bs =
     pull pull_u32 bs (\<lambda>v bs.
       if v \<noteq> 2 then None
       else
         pull get_u64 bs (\<lambda>sh bs.
         pull (get_raw 32) bs (\<lambda>p bs.
         pull pull_vec bs (\<lambda>rec_blob bs.
           case key_record_deserialize rec_blob of
             None \<Rightarrow> None
           | Some rec \<Rightarrow>
               pull pull_u32 bs (\<lambda>n bs.
                 if 64 < unat n then None
                 else
                   pull (pull_attestations (tk_committee_size rec) 0 (unat n)) bs (\<lambda>as bs.
                     at_end \<lparr>act_version = v, act_selection_height = sh, act_proposal_id = p, act_record = rec, act_attestations = as\<rparr> bs))))))"

lemma attestation_round_trip: "attestation_serialize a = Some bs \<Longrightarrow> attestation_deserialize bs = Some a"
  by (auto simp: attestation_serialize_def push_attestation_def attestation_deserialize_def codec_simps at_end_def split: if_splits)

lemma pull_attestations_enc:
  assumes "attestations_ok prev as" "list_all (\<lambda>a. ka_member_index a \<le> cs) as"
  shows "pull_attestations cs prev (length as) (concat (map push_attestation as) @ r) = Some (as, r)"
  using assms
proof (induction as arbitrary: prev)
  case (Cons a as)
  then have "pull_attestations cs (ka_member_index a) (length as) (concat (map push_attestation as) @ r) = Some (as, r)"
    by (simp split: if_splits)
  with Cons.prems show ?case
    by (auto simp: push_attestation_def [of a] codec_simps not_less split: if_splits) (simp add: pull_def)
qed simp

text \<open>The reader also wants the members to be of the committee, which the writer leaves open.\<close>

lemma activation_round_trip:
  assumes ser: "activation_serialize a = Some bs" and rec: "key_record_bounds (act_record a)"
    and blob: "key_record_serialize (act_record a) = Some rec_blob" "length rec_blob < 2 ^ 32"
    and "length (act_proposal_id a) = 32" "list_all (\<lambda>x. ka_member_index x \<le> tk_committee_size (act_record a)) (act_attestations a)"
  shows "activation_deserialize bs = Some a"
proof -
  have a: "act_version a = 2" "length (act_attestations a) \<le> 64" "attestations_ok 0 (act_attestations a)"
    "bs = push_u32 2 @ put_u64 (act_selection_height a) @ act_proposal_id a @ push_vec rec_blob
       @ push_u32 (word_of_nat (length (act_attestations a))) @ concat (map push_attestation (act_attestations a))"
    using ser blob by (auto simp: activation_serialize_def push_list_def split: if_splits)
  have n: "unat (word_of_nat (length (act_attestations a)) :: u32) = length (act_attestations a)" using a(2) by (simp add: unat_word_of_nat32)
  have "pull (pull_attestations (tk_committee_size (act_record a)) 0 (length (act_attestations a)))
      (concat (map push_attestation (act_attestations a))) k = k (act_attestations a) []" for k :: "_ \<Rightarrow> _ \<Rightarrow> dao_dkg_key_activation option"
    using pull_attestations_enc [OF a(3) assms(6), of "[]"] by (simp add: pull_def)
  then show ?thesis using assms(4,5) a(1,2) key_record_round_trip [OF blob(1) rec]
    by (simp add: a(4) activation_deserialize_def codec_simps n at_end_def)
qed

section \<open>Sessions of the committee\<close>

record dao_tally_session =
  se_version :: u32
  se_share_epoch :: u32
  se_proposal_id :: hash32
  se_public_key_id :: hash32
  se_selection_height :: u64
  se_vote_end_height :: u64
  se_committee_size :: u32
  se_threshold :: u32
  se_t :: u32
  se_committee_id_hash :: hash32
  se_committee_members :: "bytes list"
  se_committee_global_indices :: "u32 list"
  se_tally_complete :: bool

definition session_serialize :: "dao_tally_session \<Rightarrow> bytes option" where
  "session_serialize s =
     (if length (se_committee_members s) \<noteq> unat (se_committee_size s) then None
      else Some
       (push_u32 (se_version s) @ push_u32 (se_share_epoch s) @ se_proposal_id s @ se_public_key_id s
        @ put_u64 (se_selection_height s) @ put_u64 (se_vote_end_height s) @ push_u32 (se_committee_size s)
        @ push_u32 (se_threshold s) @ push_u32 (se_t s) @ se_committee_id_hash s @ concat (se_committee_members s)
        @ push_list push_u32 (se_committee_global_indices s) @ put_bool (se_tally_complete s)))"

definition session_deserialize :: "bytes \<Rightarrow> dao_tally_session option" where
  "session_deserialize bs =
     pull pull_u32 bs (\<lambda>v bs.
     pull pull_u32 bs (\<lambda>se bs.
     pull (get_raw 32) bs (\<lambda>p bs.
     pull (get_raw 32) bs (\<lambda>k bs.
     pull get_u64 bs (\<lambda>sh bs.
     pull get_u64 bs (\<lambda>vh bs.
     pull pull_u32 bs (\<lambda>cs bs.
     pull pull_u32 bs (\<lambda>th bs.
     pull pull_u32 bs (\<lambda>tt bs.
       if cs = 0 \<or> 64 < unat cs then None
       else
         pull (get_raw 32) bs (\<lambda>cid bs.
         pull (get_n (get_raw 32) (unat cs)) bs (\<lambda>ms bs.
         pull (pull_list 64 pull_u32) bs (\<lambda>is bs.
         pull get_bool bs (\<lambda>tc bs.
           at_end
             \<lparr>se_version = v, se_share_epoch = se, se_proposal_id = p, se_public_key_id = k, se_selection_height = sh,
              se_vote_end_height = vh, se_committee_size = cs, se_threshold = th, se_t = tt, se_committee_id_hash = cid,
              se_committee_members = ms, se_committee_global_indices = is, se_tally_complete = tc\<rparr> bs)))))))))))))"

definition session_bounds :: "dao_tally_session \<Rightarrow> bool" where
  "session_bounds s \<longleftrightarrow> se_committee_size s \<noteq> 0 \<and> unat (se_committee_size s) \<le> 64 \<and> length (se_committee_global_indices s) \<le> 64
     \<and> list_all (\<lambda>h. length h = 32) ([se_proposal_id s, se_public_key_id s, se_committee_id_hash s] @ se_committee_members s)"

lemma session_round_trip:
  assumes "session_serialize s = Some bs" "session_bounds s"
  shows "session_deserialize bs = Some s"
  using assms
  by (auto simp: session_serialize_def session_deserialize_def session_bounds_def codec_simps pull_raws list_all_iff at_end_def split: if_splits)

section \<open>Partial decryptions\<close>

abbreviation (input) DAO_DKG_PARTIAL_PROOF_Z_BYTES :: nat where "DAO_DKG_PARTIAL_PROOF_Z_BYTES \<equiv> 1200"

record dao_partial_decryption_proof =
  pp_member_index :: u32
  pp_E :: bytes
  pp_Z :: bytes

definition push_proof :: "dao_partial_decryption_proof \<Rightarrow> bytes" where
  "push_proof p = push_u32 (pp_member_index p) @ push_vec (pp_E p) @ push_vec (pp_Z p)"

definition pull_proof :: "bytes \<Rightarrow> (dao_partial_decryption_proof \<times> bytes) option" where
  "pull_proof bs =
     pull pull_u32 bs (\<lambda>i bs.
     pull pull_vec bs (\<lambda>e bs.
     pull pull_vec bs (\<lambda>z bs. Some (\<lparr>pp_member_index = i, pp_E = e, pp_Z = z\<rparr>, bs))))"

definition proof_sizes :: "dao_partial_decryption_proof \<Rightarrow> bool" where
  "proof_sizes p \<longleftrightarrow> length (pp_E p) = 32 \<and> length (pp_Z p) = DAO_DKG_PARTIAL_PROOF_Z_BYTES"

interpretation partial_proof: byte_codec push_proof pull_proof proof_sizes
  by unfold_locales (simp add: push_proof_def pull_proof_def proof_sizes_def codec_simps)

record dao_v2_tally_share =
  ts_version :: u8
  ts_proposal_id :: hash32
  ts_vote_end_height :: u64
  ts_tally_key_id :: bytes
  ts_reset_transcript_hash :: hash32
  ts_aggregate_ciphertext_hash :: hash32
  ts_member_index :: u32
  ts_partial_W :: bytes
  ts_partial_S :: bytes
  ts_partial_B :: bytes
  ts_proof_W :: dao_partial_decryption_proof
  ts_proof_S :: dao_partial_decryption_proof
  ts_proof_B :: dao_partial_decryption_proof

definition share_sizes :: "dao_v2_tally_share \<Rightarrow> bool" where
  "share_sizes s \<longleftrightarrow> length (ts_partial_W s) = CT_BYTES \<and> length (ts_partial_S s) = CT_BYTES \<and> length (ts_partial_B s) = CT_BYTES
     \<and> proof_sizes (ts_proof_W s) \<and> proof_sizes (ts_proof_S s) \<and> proof_sizes (ts_proof_B s)"

definition share_serialize :: "dao_v2_tally_share \<Rightarrow> bytes option" where
  "share_serialize s =
     (if ts_version s \<noteq> 2 then None
      else if \<not> share_sizes s then None
      else Some
       (put_u8 (ts_version s) @ ts_proposal_id s @ put_u64 (ts_vote_end_height s) @ push_vec (ts_tally_key_id s)
        @ ts_reset_transcript_hash s @ ts_aggregate_ciphertext_hash s @ push_u32 (ts_member_index s)
        @ push_vec (ts_partial_W s) @ push_vec (ts_partial_S s) @ push_vec (ts_partial_B s)
        @ push_proof (ts_proof_W s) @ push_proof (ts_proof_S s) @ push_proof (ts_proof_B s)))"

definition share_deserialize :: "bytes \<Rightarrow> dao_v2_tally_share option" where
  "share_deserialize bs =
     (if 8 * 1024 < length bs then None
      else
        pull get_u8 bs (\<lambda>v bs.
          if v \<noteq> 2 then None
          else
            pull (get_raw 32) bs (\<lambda>p bs.
            pull get_u64 bs (\<lambda>h bs.
            pull pull_vec bs (\<lambda>kid bs.
            pull (get_raw 32) bs (\<lambda>rt bs.
            pull (get_raw 32) bs (\<lambda>ah bs.
            pull pull_u32 bs (\<lambda>mi bs.
            pull pull_vec bs (\<lambda>w bs.
            pull pull_vec bs (\<lambda>s bs.
            pull pull_vec bs (\<lambda>b bs.
            pull pull_proof bs (\<lambda>pw bs.
            pull pull_proof bs (\<lambda>ps bs.
            pull pull_proof bs (\<lambda>pb bs.
              let share =
                \<lparr>ts_version = v, ts_proposal_id = p, ts_vote_end_height = h, ts_tally_key_id = kid,
                 ts_reset_transcript_hash = rt, ts_aggregate_ciphertext_hash = ah, ts_member_index = mi,
                 ts_partial_W = w, ts_partial_S = s, ts_partial_B = b, ts_proof_W = pw, ts_proof_S = ps, ts_proof_B = pb\<rparr>
              in if share_sizes share then at_end share bs else None))))))))))))))"

lemma length_push_proof: "proof_sizes p \<Longrightarrow> length (push_proof p) = 1244"
  by (simp add: push_proof_def proof_sizes_def)

text \<open>The reader's bound on the whole share leaves room for the key identifier of 32 bytes, and more.\<close>

lemma share_round_trip:
  assumes "share_serialize s = Some bs" "length (ts_tally_key_id s) \<le> 2000"
    and "list_all (\<lambda>h. length h = 32) [ts_proposal_id s, ts_reset_transcript_hash s, ts_aggregate_ciphertext_hash s]"
  shows "share_deserialize bs = Some s"
proof -
  have s: "ts_version s = 2" "share_sizes s" using assms(1) by (auto simp: share_serialize_def split: if_splits)
  then have p: "proof_sizes (ts_proof_W s)" "proof_sizes (ts_proof_S s)" "proof_sizes (ts_proof_B s)" by (simp_all add: share_sizes_def)
  have len: "length bs \<le> 8 * 1024"
    using assms s by (auto simp: share_serialize_def share_sizes_def length_push_proof)
  show ?thesis
    using assms s p len by (auto simp: share_serialize_def share_deserialize_def codec_simps Let_def at_end_def share_sizes_def split: if_splits)
qed

record dao_partial_set =
  set_member_indices :: "u32 list"
  set_partials :: "bytes list"
  set_proofs :: "dao_partial_decryption_proof list"

text \<open>The entries of a set: the index of a member, its partial decryption, and the proof.\<close>

definition set_entries :: "dao_partial_set \<Rightarrow> (u32 \<times> bytes \<times> dao_partial_decryption_proof) list" where
  "set_entries s = zip (set_member_indices s) (zip (set_partials s) (set_proofs s))"

fun push_entry :: "u32 \<times> bytes \<times> dao_partial_decryption_proof \<Rightarrow> bytes" where
  "push_entry (i, p, pr) = push_u32 i @ push_vec p @ push_proof pr"

fun entry_sizes :: "u32 \<times> bytes \<times> dao_partial_decryption_proof \<Rightarrow> bool" where
  "entry_sizes (i, p, pr) \<longleftrightarrow> length p = CT_BYTES \<and> proof_sizes pr"

definition pull_entry :: "bytes \<Rightarrow> ((u32 \<times> bytes \<times> dao_partial_decryption_proof) \<times> bytes) option" where
  "pull_entry bs =
     pull pull_u32 bs (\<lambda>i bs.
     pull (pull_sized CT_BYTES) bs (\<lambda>p bs.
     pull pull_u32 bs (\<lambda>j bs.
     pull (pull_sized 32) bs (\<lambda>e bs.
     pull (pull_sized DAO_DKG_PARTIAL_PROOF_Z_BYTES) bs (\<lambda>z bs.
       Some ((i, p, \<lparr>pp_member_index = j, pp_E = e, pp_Z = z\<rparr>), bs))))))"

definition partial_set_serialize :: "dao_partial_set \<Rightarrow> bytes option" where
  "partial_set_serialize s =
     (if length (set_member_indices s) \<noteq> length (set_partials s) then None
      else if length (set_proofs s) \<noteq> length (set_partials s) then None
      else if DAO_DKG_MAX_COMMITTEE_SIZE < length (set_member_indices s) then None
      else if \<not> list_all entry_sizes (set_entries s) then None
      else Some (push_list push_entry (set_entries s)))"

definition partial_set_deserialize :: "bytes \<Rightarrow> dao_partial_set option" where
  "partial_set_deserialize bs =
     pull (pull_list DAO_DKG_MAX_COMMITTEE_SIZE pull_entry) bs (\<lambda>es bs.
       at_end \<lparr>set_member_indices = map fst es, set_partials = map (fst \<circ> snd) es, set_proofs = map (snd \<circ> snd) es\<rparr> bs)"

interpretation entry: byte_codec push_entry pull_entry entry_sizes
  by unfold_locales (auto simp: pull_entry_def push_proof_def proof_sizes_def codec_simps)

lemma zip3_maps:
  assumes "length xs = length ys" "length zs = length ys"
  shows "map fst (zip xs (zip ys zs)) = xs" "map (fst \<circ> snd) (zip xs (zip ys zs)) = ys" "map (snd \<circ> snd) (zip xs (zip ys zs)) = zs"
proof -
  show "map fst (zip xs (zip ys zs)) = xs" using assms by simp
  have "map (f \<circ> snd) (zip xs (zip ys zs)) = map f (zip ys zs)" for f :: "_ \<Rightarrow> 'd"
    using assms by (simp only: map_map [symmetric]) simp
  note this [of fst]
  then show "map (fst \<circ> snd) (zip xs (zip ys zs)) = ys" using assms by (simp only: map_fst_zip)
  have "map (snd \<circ> snd) (zip xs (zip ys zs)) = map snd (zip ys zs)"
    using assms by (simp only: map_map [symmetric]) simp
  then show "map (snd \<circ> snd) (zip xs (zip ys zs)) = zs" using assms by (simp only: map_snd_zip)
qed

lemma partial_set_round_trip:
  assumes "partial_set_serialize s = Some bs"
  shows "partial_set_deserialize bs = Some s"
proof -
  have s: "length (set_member_indices s) = length (set_partials s)" "length (set_proofs s) = length (set_partials s)"
    "length (set_member_indices s) \<le> 16" "\<forall>e \<in> set (set_entries s). entry_sizes e" "bs = push_list push_entry (set_entries s)"
    using assms by (auto simp: partial_set_serialize_def list_all_iff split: if_splits)
  have "length (set_entries s) \<le> 16" using s(1-3) by (simp add: set_entries_def)
  then show ?thesis
    using s(4) by (simp add: s(5) partial_set_deserialize_def codec_simps at_end_def) (simp add: set_entries_def zip3_maps [OF s(1,2)])
qed

lemma length_partial_set: "partial_set_serialize s = Some bs \<Longrightarrow> length bs < 2 ^ 32"
proof -
  assume "partial_set_serialize s = Some bs"
  then have s: "length (set_entries s) \<le> 16" "\<forall>e \<in> set (set_entries s). entry_sizes e" "bs = push_list push_entry (set_entries s)"
    by (auto simp: partial_set_serialize_def list_all_iff set_entries_def split: if_splits)
  have "\<forall>e \<in> set (set_entries s). length (push_entry e) = 1764"
    using s(2) by (auto simp: length_push_proof)
  then have "length (concat (map push_entry (set_entries s))) = length (set_entries s) * 1764"
    using length_concat_same [of 1764 "map push_entry (set_entries s)"] by (simp add: list_all_iff)
  with s(1,3) show ?thesis by (simp add: push_list_def)
qed

section \<open>Certificates and outcomes\<close>

record dao_tally_certificate =
  ce_proposal_id :: hash32
  ce_vote_end_height :: u64
  ce_key_id :: bytes
  ce_aggregate_ciphertext_hash :: hash32
  ce_W :: dao_partial_set
  ce_S :: dao_partial_set
  ce_B :: dao_partial_set
  ce_W_total :: u128
  ce_s_negative :: bool
  ce_S_abs :: u128
  ce_B_total :: u128
  ce_YES_weight :: u128
  ce_NO_weight :: u128
  ce_quorum_threshold :: u128
  ce_quorum_met :: bool
  ce_majority_met :: bool
  ce_passed :: bool
  ce_per_event_share_set_id :: u64
  ce_threshold :: u32
  ce_member_pubkeys :: "bytes list"
  ce_per_event_VK_i :: "bytes list"
  ce_base_share_set_id :: u64
  ce_contributions :: "bytes list"
  ce_contributor_indices :: "u32 list"
  ce_contributor_vk :: "bytes list"

definition certificate_serialize :: "dao_tally_certificate \<Rightarrow> bytes option" where
  "certificate_serialize c =
     (case (partial_set_serialize (ce_W c), partial_set_serialize (ce_S c), partial_set_serialize (ce_B c)) of
        (Some w, Some s, Some b) \<Rightarrow> Some
          (put_u8 6 @ ce_proposal_id c @ put_u64 (ce_vote_end_height c) @ push_vec (ce_key_id c)
           @ ce_aggregate_ciphertext_hash c @ push_vec w @ push_vec s @ push_vec b
           @ push_u128 (ce_W_total c) @ put_bool (ce_s_negative c) @ push_u128 (ce_S_abs c) @ push_u128 (ce_B_total c)
           @ push_u128 (ce_YES_weight c) @ push_u128 (ce_NO_weight c) @ push_u128 (ce_quorum_threshold c)
           @ put_bool (ce_quorum_met c) @ put_bool (ce_majority_met c) @ put_bool (ce_passed c)
           @ put_u64 (ce_per_event_share_set_id c) @ push_u32 (ce_threshold c)
           @ push_list push_vec (ce_member_pubkeys c) @ push_list push_vec (ce_per_event_VK_i c)
           @ put_u64 (ce_base_share_set_id c) @ push_list push_vec (ce_contributions c)
           @ push_list push_u32 (ce_contributor_indices c) @ push_list push_vec (ce_contributor_vk c))
      | _ \<Rightarrow> None)"

text \<open>
  The 32 bytes of the hash behind the key identifier are copied without looking at the size of the input. An input
  that ends there is read past its end, and then refused by the next step; the model only has the refusal.
\<close>

definition certificate_deserialize :: "bytes \<Rightarrow> dao_tally_certificate option" where
  "certificate_deserialize bs =
     (if length bs < 1 + 32 + 8 + 32 then None
      else
        pull get_u8 bs (\<lambda>v bs.
          if v \<noteq> 6 then None
          else
            pull (get_raw 32) bs (\<lambda>p bs.
            pull get_u64 bs (\<lambda>h bs.
            pull pull_vec bs (\<lambda>kid bs.
            pull (get_raw 32) bs (\<lambda>ah bs.
            pull pull_vec bs (\<lambda>w bs.
            pull pull_vec bs (\<lambda>s bs.
            pull pull_vec bs (\<lambda>b bs.
              case (partial_set_deserialize w, partial_set_deserialize s, partial_set_deserialize b) of
                (Some W, Some S, Some B) \<Rightarrow>
                  pull pull_u128 bs (\<lambda>wt bs.
                  pull get_bool bs (\<lambda>sn bs.
                  pull pull_u128 bs (\<lambda>sa bs.
                  pull pull_u128 bs (\<lambda>bt bs.
                  pull pull_u128 bs (\<lambda>yes bs.
                  pull pull_u128 bs (\<lambda>no bs.
                  pull pull_u128 bs (\<lambda>qt bs.
                  pull get_bool bs (\<lambda>qm bs.
                  pull get_bool bs (\<lambda>mm bs.
                  pull get_bool bs (\<lambda>pa bs.
                  pull get_u64 bs (\<lambda>sid bs.
                  pull pull_u32 bs (\<lambda>th bs.
                  pull (pull_list DAO_DKG_MAX_COMMITTEE_SIZE (pull_sized 32)) bs (\<lambda>mp bs.
                  pull (pull_list DAO_DKG_MAX_COMMITTEE_SIZE pull_vec) bs (\<lambda>vk bs.
                  pull get_u64 bs (\<lambda>bid bs.
                  pull (pull_list DAO_DKG_MAX_COMMITTEE_SIZE pull_vec) bs (\<lambda>cs bs.
                  pull (pull_list DAO_DKG_MAX_COMMITTEE_SIZE pull_u32) bs (\<lambda>ci bs.
                  pull (pull_list DAO_DKG_MAX_COMMITTEE_SIZE pull_vec) bs (\<lambda>cv bs.
                    at_end
                      \<lparr>ce_proposal_id = p, ce_vote_end_height = h, ce_key_id = kid, ce_aggregate_ciphertext_hash = ah,
                       ce_W = W, ce_S = S, ce_B = B, ce_W_total = wt, ce_s_negative = sn, ce_S_abs = sa, ce_B_total = bt,
                       ce_YES_weight = yes, ce_NO_weight = no, ce_quorum_threshold = qt, ce_quorum_met = qm,
                       ce_majority_met = mm, ce_passed = pa, ce_per_event_share_set_id = sid, ce_threshold = th,
                       ce_member_pubkeys = mp, ce_per_event_VK_i = vk, ce_base_share_set_id = bid,
                       ce_contributions = cs, ce_contributor_indices = ci, ce_contributor_vk = cv\<rparr> bs))))))))))))))))))
              | _ \<Rightarrow> None)))))))))"

definition certificate_bounds :: "dao_tally_certificate \<Rightarrow> bool" where
  "certificate_bounds c \<longleftrightarrow> length (ce_proposal_id c) = 32 \<and> length (ce_aggregate_ciphertext_hash c) = 32
     \<and> length (ce_key_id c) < 2 ^ 32
     \<and> length (ce_member_pubkeys c) \<le> 16 \<and> list_all (\<lambda>m. length m = 32) (ce_member_pubkeys c)
     \<and> length (ce_per_event_VK_i c) \<le> 16 \<and> list_all (\<lambda>v. length v < 2 ^ 32) (ce_per_event_VK_i c)
     \<and> length (ce_contributions c) \<le> 16 \<and> list_all (\<lambda>v. length v < 2 ^ 32) (ce_contributions c)
     \<and> length (ce_contributor_indices c) \<le> 16
     \<and> length (ce_contributor_vk c) \<le> 16 \<and> list_all (\<lambda>v. length v < 2 ^ 32) (ce_contributor_vk c)"

lemma certificate_round_trip:
  assumes "certificate_serialize c = Some bs" "certificate_bounds c"
  shows "certificate_deserialize bs = Some c"
proof -
  obtain w s b where wsb: "partial_set_serialize (ce_W c) = Some w" "partial_set_serialize (ce_S c) = Some s"
    "partial_set_serialize (ce_B c) = Some b"
    using assms(1) by (auto simp: certificate_serialize_def split: option.splits)
  note len = wsb [THEN length_partial_set, simplified] and trip = wsb [THEN partial_set_round_trip]
  show ?thesis using assms
    by (auto simp: certificate_serialize_def wsb certificate_deserialize_def certificate_bounds_def codec_simps len trip list_all_iff at_end_def)
qed

record dao_v2_outcome_record =
  oc_proposal_id :: hash32
  oc_vote_end_height :: u64
  oc_key_id :: bytes
  oc_aggregate_ciphertext_hash :: hash32
  oc_yes_weight :: u128
  oc_no_weight :: u128
  oc_participation_coins :: u128
  oc_quorum_threshold :: u128
  oc_quorum_met :: bool
  oc_majority_met :: bool
  oc_passed :: bool

definition outcome_serialize :: "dao_v2_outcome_record \<Rightarrow> bytes" where
  "outcome_serialize c =
     put_u8 3 @ oc_proposal_id c @ put_u64 (oc_vote_end_height c) @ push_vec (oc_key_id c)
     @ oc_aggregate_ciphertext_hash c @ push_u128 (oc_yes_weight c) @ push_u128 (oc_no_weight c)
     @ push_u128 (oc_participation_coins c) @ push_u128 (oc_quorum_threshold c)
     @ put_bool (oc_quorum_met c) @ put_bool (oc_majority_met c) @ put_bool (oc_passed c)"

definition outcome_deserialize :: "bytes \<Rightarrow> dao_v2_outcome_record option" where
  "outcome_deserialize bs =
     (if length bs < 1 + 32 + 8 + 32 then None
      else
        pull get_u8 bs (\<lambda>v bs.
          if v \<noteq> 3 then None
          else
            pull (get_raw 32) bs (\<lambda>p bs.
            pull get_u64 bs (\<lambda>h bs.
            pull pull_vec bs (\<lambda>kid bs.
            pull (get_raw 32) bs (\<lambda>ah bs.
            pull pull_u128 bs (\<lambda>yes bs.
            pull pull_u128 bs (\<lambda>no bs.
            pull pull_u128 bs (\<lambda>pc bs.
            pull pull_u128 bs (\<lambda>qt bs.
            pull get_bool bs (\<lambda>qm bs.
            pull get_bool bs (\<lambda>mm bs.
            pull get_bool bs (\<lambda>pa bs.
              at_end
                \<lparr>oc_proposal_id = p, oc_vote_end_height = h, oc_key_id = kid, oc_aggregate_ciphertext_hash = ah,
                 oc_yes_weight = yes, oc_no_weight = no, oc_participation_coins = pc, oc_quorum_threshold = qt,
                 oc_quorum_met = qm, oc_majority_met = mm, oc_passed = pa\<rparr> bs)))))))))))))"

definition outcome_bounds :: "dao_v2_outcome_record \<Rightarrow> bool" where
  "outcome_bounds c \<longleftrightarrow> length (oc_proposal_id c) = 32 \<and> length (oc_aggregate_ciphertext_hash c) = 32 \<and> length (oc_key_id c) < 2 ^ 32"

lemma outcome_round_trip: "outcome_bounds c \<Longrightarrow> outcome_deserialize (outcome_serialize c) = Some c"
  by (simp add: outcome_serialize_def outcome_deserialize_def outcome_bounds_def codec_simps at_end_def)

end
