(* ===== verification/Paillier.thy ===== *)
theory Paillier
  imports Byte_Codecs Voting_Weight
begin

text \<open>
  \<^verbatim>\<open>src/src/governance/dao_paillier.cpp\<close>: the additively homomorphic encryption of the weights of encrypted votes. A
  \<^verbatim>\<open>BIGNUM\<close> of OpenSSL is an integer, and its functions are arithmetic; a function that fails gives \<open>None\<close>. Failures
  to allocate memory are not modelled. A key object whose pointers are null is no key at all.
\<close>

section \<open>Big numbers\<close>

type_synonym bignum = int

definition BN_bin2bn :: "bytes \<Rightarrow> bignum" where
  "BN_bin2bn bs = int (le_val (rev bs))"

definition BN_bn2binpad :: "nat \<Rightarrow> bignum \<Rightarrow> bytes option" where
  "BN_bn2binpad len v = (if nat \<bar>v\<bar> < 256 ^ len then Some (rev (le_bytes len (nat \<bar>v\<bar>))) else None)"

definition BN_div :: "bignum \<Rightarrow> bignum \<Rightarrow> bignum" where
  "BN_div a b = sgn a * sgn b * (\<bar>a\<bar> div \<bar>b\<bar>)"

definition BN_mod_mul :: "bignum \<Rightarrow> bignum \<Rightarrow> bignum \<Rightarrow> bignum" where
  "BN_mod_mul a b n = a * b mod n"

text \<open>Exponentiation looks at the bits of the exponent and not at its sign.\<close>

definition BN_mod_exp :: "bignum \<Rightarrow> bignum \<Rightarrow> bignum \<Rightarrow> bignum" where
  "BN_mod_exp a k n = a ^ nat \<bar>k\<bar> mod n"

text \<open>The variant with Montgomery multiplication refuses an even modulus.\<close>

definition BN_mod_exp_mont_consttime :: "bignum \<Rightarrow> bignum \<Rightarrow> bignum \<Rightarrow> bignum option" where
  "BN_mod_exp_mont_consttime a k n = (if even n then None else Some (a ^ nat \<bar>k\<bar> mod n))"

definition BN_mod_inverse :: "bignum \<Rightarrow> bignum \<Rightarrow> bignum option" where
  "BN_mod_inverse a n = (if gcd a n = 1 then Some (fst (bezw (nat (a mod n)) (nat n)) mod n) else None)"

section \<open>Public keys\<close>

abbreviation (input) PAILLIER_MODULUS_BYTES :: nat where "PAILLIER_MODULUS_BYTES \<equiv> 256"
abbreviation (input) PAILLIER_CT_BYTES :: nat where "PAILLIER_CT_BYTES \<equiv> 512"

record paillier_public_key =
  pk_N :: bignum
  pk_N2 :: bignum

definition set_modulus :: "bignum \<Rightarrow> paillier_public_key option" where
  "set_modulus N = (if N < 0 then None else if N = 0 then None else if N = 1 then None else Some \<lparr>pk_N = N, pk_N2 = N * N\<rparr>)"

definition deserialize_modulus :: "bytes \<Rightarrow> paillier_public_key option" where
  "deserialize_modulus bs = (if length bs \<noteq> PAILLIER_MODULUS_BYTES then None else set_modulus (BN_bin2bn bs))"

definition serialize_modulus :: "paillier_public_key \<Rightarrow> bytes option" where
  "serialize_modulus pk = BN_bn2binpad PAILLIER_MODULUS_BYTES (pk_N pk)"

definition encrypt_with :: "bignum \<Rightarrow> bignum \<Rightarrow> bignum \<Rightarrow> bignum \<Rightarrow> bignum" where
  "encrypt_with N N2 m r =
     (let mN = BN_mod_mul m N N2;
          one_mN = mN + 1;
          one_mN = (if N2 \<le> one_mN then one_mN mod N2 else one_mN);
          rN = BN_mod_exp r N N2
      in BN_mod_mul one_mN rN N2)"

definition encrypt :: "paillier_public_key \<Rightarrow> bignum \<Rightarrow> bignum \<Rightarrow> bytes option" where
  "encrypt pk m r =
     (if m < 0 \<or> r < 0 then None
      else if pk_N pk \<le> m then None
      else if r = 0 then None
      else if gcd r (pk_N pk) \<noteq> 1 then None
      else BN_bn2binpad PAILLIER_CT_BYTES (encrypt_with (pk_N pk) (pk_N2 pk) m r))"

definition is_valid_ciphertext :: "paillier_public_key \<Rightarrow> bytes \<Rightarrow> bool" where
  "is_valid_ciphertext pk c =
     (if length c \<noteq> PAILLIER_CT_BYTES then False
      else
        let bn = BN_bin2bn c in
        if pk_N2 pk \<le> bn then False else if bn = 0 then False else gcd bn (pk_N pk) = 1)"

definition ct_add :: "paillier_public_key \<Rightarrow> bytes \<Rightarrow> bytes \<Rightarrow> bytes option" where
  "ct_add pk c1 c2 =
     (if \<not> is_valid_ciphertext pk c1 \<or> \<not> is_valid_ciphertext pk c2 then None
      else BN_bn2binpad PAILLIER_CT_BYTES (BN_mod_mul (BN_bin2bn c1) (BN_bin2bn c2) (pk_N2 pk)))"

definition ct_inverse :: "paillier_public_key \<Rightarrow> bytes \<Rightarrow> bytes option" where
  "ct_inverse pk c =
     (if \<not> is_valid_ciphertext pk c then None
      else case BN_mod_inverse (BN_bin2bn c) (pk_N2 pk) of
        None \<Rightarrow> None
      | Some a_inv \<Rightarrow> BN_bn2binpad PAILLIER_CT_BYTES a_inv)"

definition scalar_mul :: "paillier_public_key \<Rightarrow> bytes \<Rightarrow> bignum \<Rightarrow> bytes option" where
  "scalar_mul pk c k =
     (if \<not> is_valid_ciphertext pk c then None
      else BN_bn2binpad PAILLIER_CT_BYTES (BN_mod_exp (BN_bin2bn c) k (pk_N2 pk)))"

section \<open>Private keys\<close>

record paillier_private_key =
  sk_N :: bignum
  sk_N2 :: bignum
  sk_lambda :: bignum
  sk_mu :: bignum

text \<open>The key for two primes, which the code takes from the generator of OpenSSL.\<close>

definition generate_for_testing :: "bignum \<Rightarrow> bignum \<Rightarrow> paillier_private_key option" where
  "generate_for_testing p q =
     (if p = q then None
      else
        let N = p * q;
            N2 = N * N;
            lambda = BN_div ((p - 1) * (q - 1)) (gcd (p - 1) (q - 1));
            gl = BN_mod_exp (N + 1) lambda N2;
            L = BN_div (gl - 1) N
        in case BN_mod_inverse L N of
             None \<Rightarrow> None
           | Some mu \<Rightarrow> Some \<lparr>sk_N = N, sk_N2 = N2, sk_lambda = lambda, sk_mu = mu\<rparr>)"

definition public_key :: "paillier_private_key \<Rightarrow> paillier_public_key option" where
  "public_key sk = set_modulus (sk_N sk)"

definition decrypt :: "paillier_private_key \<Rightarrow> bytes \<Rightarrow> bignum option" where
  "decrypt sk ct =
     (if length ct \<noteq> PAILLIER_CT_BYTES then None
      else
        let c = BN_bin2bn ct in
        if sk_N2 sk \<le> c \<or> gcd c (sk_N sk) \<noteq> 1 then None
        else case BN_mod_exp_mont_consttime c (sk_lambda sk) (sk_N2 sk) of
          None \<Rightarrow> None
        | Some u \<Rightarrow> Some (BN_mod_mul (BN_div (u - 1) (sk_N sk)) (sk_mu sk) (sk_N sk)))"

section \<open>Signed values\<close>

text \<open>An \<^verbatim>\<open>int128_t\<close> of Boost is a sign and a magnitude of 128 bits, here an integer.\<close>

definition int128_to_bn :: "int \<Rightarrow> bignum option" where
  "int128_to_bn v = (if v < 0 then None else Some (BN_bin2bn (rev (le_bytes 16 (nat v)))))"

definition bn_to_int128 :: "bignum \<Rightarrow> int option" where
  "bn_to_int128 v =
     (if v < 0 then None
      else if 2 ^ 127 \<le> v then None
      else map_option (\<lambda>buf. foldl (\<lambda>mag b. mag * 256 + int (byte_val b)) 0 buf) (BN_bn2binpad 16 v))"

definition governance_weight_to_bn :: "nat \<Rightarrow> bignum" where
  "governance_weight_to_bn w = BN_bin2bn (rev (le_bytes 16 w))"

definition encode_unsigned_weight :: "nat \<Rightarrow> bignum \<Rightarrow> bignum option" where
  "encode_unsigned_weight w N =
     (if governance_w_max < w then None
      else let bn = governance_weight_to_bn w in if N \<le> bn then None else Some bn)"

definition encode_signed_value :: "int \<Rightarrow> bignum \<Rightarrow> bignum option" where
  "encode_signed_value s N =
     (if 0 \<le> s then
        (case int128_to_bn s of
           None \<Rightarrow> None
         | Some abs_bn \<Rightarrow> if abs_bn < N then Some abs_bn else None)
      else
        (case int128_to_bn (- s) of
           None \<Rightarrow> None
         | Some abs_bn \<Rightarrow> if N \<le> abs_bn then None else Some (N - abs_bn)))"

definition decode_signed_value :: "bignum \<Rightarrow> bignum \<Rightarrow> int option" where
  "decode_signed_value m N =
     (if m < 0 \<or> N < 0 then None
      else if N \<le> m then None
      else if m \<le> N div 2 then bn_to_int128 m
      else map_option uminus (bn_to_int128 (N - m)))"

section \<open>Numbers as bytes\<close>

lemma BN_bin2bn_nonneg [simp]: "0 \<le> BN_bin2bn bs"
  by (simp add: BN_bin2bn_def)

lemma BN_bin2bn_bound: "BN_bin2bn bs < 256 ^ length bs"
proof -
  have "int (le_val (rev bs)) < int (256 ^ length bs)" using le_val_bound [of "rev bs"] by (simp only: of_nat_less_iff length_rev)
  then show ?thesis by (simp add: BN_bin2bn_def)
qed

lemma le_bytes_le_val: "le_bytes (length bs) (le_val bs) = bs"
proof (induction bs)
  case (Cons c bs)
  have "byte_val (byte_of (byte_val c + 256 * le_val bs)) = byte_val c" by (simp add: byte_val_byte_of)
  with Cons show ?case by simp
qed simp

lemma BN_bytes: "0 \<le> v \<Longrightarrow> v < 256 ^ len \<Longrightarrow> \<exists>bs. BN_bn2binpad len v = Some bs \<and> BN_bin2bn bs = v \<and> length bs = len"
proof -
  assume v: "0 \<le> v" "v < 256 ^ len"
  then have "nat v < 256 ^ len" by (simp add: nat_less_iff)
  with v show ?thesis by (simp add: BN_bn2binpad_def BN_bin2bn_def)
qed

lemma bytes_BN: "BN_bn2binpad (length bs) (BN_bin2bn bs) = Some bs"
  using le_val_bound [of "rev bs"] le_bytes_le_val [of "rev bs"] by (simp add: BN_bn2binpad_def BN_bin2bn_def)

section \<open>Arithmetic\<close>

lemma BN_div_nonneg: "0 \<le> a \<Longrightarrow> 0 < b \<Longrightarrow> BN_div a b = a div b"
  by (cases "a = 0") (simp_all add: BN_div_def)

lemma BN_mod_inverse_spec:
  assumes n: "1 < n"
  shows "case BN_mod_inverse a n of None \<Rightarrow> gcd a n \<noteq> 1 | Some i \<Rightarrow> 0 \<le> i \<and> i < n \<and> a * i mod n = 1"
proof (cases "gcd a n = 1")
  case True
  let ?x = "nat (a mod n)" and ?y = "nat n"
  have "gcd (a mod n) n = 1" using True by (simp add: gcd.commute flip: gcd_red_int)
  then have "int (gcd ?x ?y) = 1" using n by (simp add: gcd_int_int_eq [symmetric])
  then have "fst (bezw ?x ?y) * (a mod n) + snd (bezw ?x ?y) * n = 1" using n by (simp add: bezw_aux)
  then have "(fst (bezw ?x ?y) * (a mod n) + snd (bezw ?x ?y) * n) mod n = 1" using n by simp
  then have "a * (fst (bezw ?x ?y) mod n) mod n = 1" by (simp add: mod_simps mult.commute)
  with True n show ?thesis by (simp add: BN_mod_inverse_def)
qed (simp add: BN_mod_inverse_def)

lemma power_one_plus: "(1 + k * N) ^ n mod (N * N) = (1 + int n * k * N) mod (N * N :: int)"
proof (induction n)
  case (Suc n)
  have "(1 + k * N) ^ Suc n mod (N * N) = (1 + k * N) * ((1 + k * N) ^ n mod (N * N)) mod (N * N)" by (simp add: mod_simps)
  also have "\<dots> = (1 + k * N) * (1 + int n * k * N) mod (N * N)" by (simp only: Suc.IH mod_mult_right_eq)
  also have "(1 + k * N) * (1 + int n * k * N) = (1 + int (Suc n) * k * N) + int n * k * k * (N * N)" by (simp add: algebra_simps)
  finally show ?case by simp
qed simp

lemma one_plus_mod:
  assumes "1 < N"
  shows "(1 + k * N) mod (N * N) = 1 + (k mod N) * (N :: int)"
proof -
  have "k = k mod N + (k div N) * N" by simp
  then have "1 + k * N = (1 + (k mod N) * N) + (k div N) * (N * N)" by (metis (no_types, lifting) add.assoc distrib_right mult.assoc)
  then have "(1 + k * N) mod (N * N) = (1 + (k mod N) * N) mod (N * N)" by (simp only: mod_mult_self1)
  moreover have "(k mod N) * N \<le> (N - 1) * N" using assms by (intro mult_right_mono) simp_all
  then have "1 + (k mod N) * N < N * N" using assms by (simp add: left_diff_distrib)
  ultimately show ?thesis using assms by simp
qed

section \<open>Ciphertexts\<close>

definition pk_ok :: "paillier_public_key \<Rightarrow> bool" where
  "pk_ok pk \<longleftrightarrow> 1 < pk_N pk \<and> pk_N pk < 256 ^ 256 \<and> pk_N2 pk = pk_N pk * pk_N pk"

lemma deserialize_modulus_ok: "deserialize_modulus bs = Some pk \<Longrightarrow> pk_ok pk"
  using BN_bin2bn_bound [of bs] by (auto simp: deserialize_modulus_def set_modulus_def pk_ok_def split: if_splits)

lemma square_room: "1 < N \<Longrightarrow> N < b ^ k \<Longrightarrow> N * N < (b :: int) ^ (k + k)"
  by (simp add: power_add mult_strict_mono')

lemma N2_room: "pk_ok pk \<Longrightarrow> pk_N2 pk < 256 ^ 512"
  using square_room [of "pk_N pk" 256 256] unfolding pk_ok_def by (simp only: simp_thms) (simp only: numeral_plus_numeral add_num_simps)

lemma coprime_mod_square: "coprime (x mod (N * N)) N \<longleftrightarrow> coprime x (N :: int)"
proof -
  have "gcd (x mod (N * N)) N = gcd (x mod (N * N) mod N) N" by (metis gcd.commute gcd_red_int)
  also have "\<dots> = gcd (x mod N) N" by (simp add: mod_mod_cancel)
  also have "\<dots> = gcd x N" by (metis gcd.commute gcd_red_int)
  finally show ?thesis by (simp only: coprime_iff_gcd_eq_1)
qed

lemma valid_iff:
  "is_valid_ciphertext pk c \<longleftrightarrow> length c = 512 \<and> BN_bin2bn c < pk_N2 pk \<and> BN_bin2bn c \<noteq> 0 \<and> coprime (BN_bin2bn c) (pk_N pk)"
  by (auto simp: is_valid_ciphertext_def Let_def coprime_iff_gcd_eq_1)

text \<open>A number modulo the square that is prime to the modulus is a ciphertext.\<close>

lemma stored_ciphertext:
  assumes "pk_ok pk" "v = x mod pk_N2 pk" "coprime x (pk_N pk)"
  shows "\<exists>c. BN_bn2binpad 512 v = Some c \<and> is_valid_ciphertext pk c \<and> BN_bin2bn c = v"
proof -
  have n: "1 < pk_N pk" "pk_N2 pk = pk_N pk * pk_N pk" using assms(1) by (simp_all add: pk_ok_def)
  then have pos: "0 < pk_N2 pk" by simp
  then have v: "0 \<le> v" "v < pk_N2 pk" using assms(2) by simp_all
  have c: "coprime v (pk_N pk)" using assms(2,3) n by (simp add: coprime_mod_square)
  with n have "v \<noteq> 0" by auto
  obtain c where "BN_bn2binpad 512 v = Some c" "BN_bin2bn c = v" "length c = 512"
    using BN_bytes [of v 512] v N2_room [OF assms(1)] by auto
  with v c \<open>v \<noteq> 0\<close> show ?thesis by (auto simp: valid_iff)
qed

lemma ciphertext_eqI:
  assumes "is_valid_ciphertext pk c" "is_valid_ciphertext pk d" "BN_bin2bn c = BN_bin2bn d"
  shows "c = d"
  using assms bytes_BN [of c] bytes_BN [of d] by (simp add: valid_iff)

lemma ct_add_valid:
  assumes "pk_ok pk" "is_valid_ciphertext pk a" "is_valid_ciphertext pk b"
  shows "\<exists>c. ct_add pk a b = Some c \<and> is_valid_ciphertext pk c \<and> BN_bin2bn c = BN_bin2bn a * BN_bin2bn b mod pk_N2 pk"
  using stored_ciphertext [OF assms(1) refl, of "BN_bin2bn a * BN_bin2bn b"] assms
  by (simp add: ct_add_def BN_mod_mul_def valid_iff)

lemma ct_inverse_valid:
  assumes "pk_ok pk" "is_valid_ciphertext pk a"
  shows "\<exists>c. ct_inverse pk a = Some c \<and> is_valid_ciphertext pk c \<and> BN_bin2bn a * BN_bin2bn c mod pk_N2 pk = 1"
proof -
  have n: "1 < pk_N pk" "pk_N2 pk = pk_N pk * pk_N pk" using assms(1) by (simp_all add: pk_ok_def)
  then have n2: "1 < pk_N2 pk" by (metis less_1_mult)
  have "coprime (BN_bin2bn a) (pk_N2 pk)" using assms(2) n by (simp add: valid_iff)
  then obtain i where i: "BN_mod_inverse (BN_bin2bn a) (pk_N2 pk) = Some i" "0 \<le> i" "i < pk_N2 pk" "BN_bin2bn a * i mod pk_N2 pk = 1"
    using BN_mod_inverse_spec [OF n2, of "BN_bin2bn a"] by (auto split: option.splits simp: coprime_iff_gcd_eq_1)
  have "coprime (BN_bin2bn a * i mod pk_N2 pk) (pk_N pk)" by (simp add: i(4))
  then have "coprime i (pk_N pk)" by (simp add: n coprime_mod_square)
  from stored_ciphertext [OF assms(1) _ this, of i] i obtain c where
    "BN_bn2binpad 512 i = Some c" "is_valid_ciphertext pk c" "BN_bin2bn c = i" by auto
  with i assms(2) show ?thesis by (simp add: ct_inverse_def)
qed

text \<open>Adding a ciphertext and then its inverse gives back what was there before.\<close>

lemma ct_add_inverse:
  assumes ok: "pk_ok pk" and s: "ct_add pk a c = Some s"
  shows "\<exists>i. ct_inverse pk c = Some i \<and> ct_add pk s i = Some a"
proof -
  have v: "is_valid_ciphertext pk a" "is_valid_ciphertext pk c" using s by (auto simp: ct_add_def split: if_splits)
  obtain i where i: "ct_inverse pk c = Some i" "is_valid_ciphertext pk i" "BN_bin2bn c * BN_bin2bn i mod pk_N2 pk = 1"
    using ct_inverse_valid [OF ok v(2)] by blast
  have s': "is_valid_ciphertext pk s" "BN_bin2bn s = BN_bin2bn a * BN_bin2bn c mod pk_N2 pk"
    using ct_add_valid [OF ok v] s by auto
  obtain t where t: "ct_add pk s i = Some t" "is_valid_ciphertext pk t" "BN_bin2bn t = BN_bin2bn s * BN_bin2bn i mod pk_N2 pk"
    using ct_add_valid [OF ok s'(1) i(2)] by blast
  have "BN_bin2bn t = BN_bin2bn a * (BN_bin2bn c * BN_bin2bn i mod pk_N2 pk) mod pk_N2 pk"
    by (simp add: t(3) s'(2) mod_simps mult.assoc)
  also have "\<dots> = BN_bin2bn a" using v(1) by (simp add: i(3) valid_iff)
  finally have "t = a" by (rule ciphertext_eqI [OF t(2) v(1)])
  with i(1) t(1) show ?thesis by simp
qed

section \<open>Encryption\<close>

lemma encrypt_with_eq: "0 \<le> N \<Longrightarrow> encrypt_with N N2 m r = (1 + m * N) * r ^ nat N mod N2"
proof -
  have "(if N2 \<le> x then x mod N2 else x) mod N2 = x mod N2" for x by simp
  then have "(if N2 \<le> x then x mod N2 else x) * y mod N2 = x * y mod N2" for x y by (metis mod_mult_left_eq)
  moreover assume "0 \<le> N"
  ultimately have "encrypt_with N N2 m r = (m * N mod N2 + 1) * r ^ nat N mod N2"
    by (simp add: encrypt_with_def BN_mod_mul_def BN_mod_exp_def Let_def mod_mult_right_eq)
  then show ?thesis by (metis add.commute mod_add_right_eq mod_mult_left_eq)
qed

lemma encrypt_valid:
  assumes ok: "pk_ok pk" and "0 \<le> m" "m < pk_N pk" "0 < r" "coprime r (pk_N pk)"
  shows "\<exists>c. encrypt pk m r = Some c \<and> is_valid_ciphertext pk c \<and> BN_bin2bn c = (1 + m * pk_N pk) * r ^ nat (pk_N pk) mod pk_N2 pk"
proof -
  have "coprime (1 + m * pk_N pk) (pk_N pk)"
    by (metis coprime_1_left coprime_iff_gcd_eq_1 gcd.commute gcd_add_mult add.commute mult.commute)
  then have "coprime ((1 + m * pk_N pk) * r ^ nat (pk_N pk)) (pk_N pk)" using assms(5) by simp
  from stored_ciphertext [OF ok refl this] assms show ?thesis
    by (simp add: encrypt_def encrypt_with_eq coprime_iff_gcd_eq_1)
qed

lemma encryptD:
  assumes "encrypt pk m r = Some c"
  shows "0 \<le> m" "m < pk_N pk" "0 < r" "coprime r (pk_N pk)"
  using assms by (auto simp: encrypt_def coprime_iff_gcd_eq_1 split: if_splits)

lemma encrypt_add:
  assumes ok: "pk_ok pk" and c: "encrypt pk m r = Some c" and d: "encrypt pk m' r' = Some d"
  shows "ct_add pk c d = encrypt pk ((m + m') mod pk_N pk) (r * r')"
proof -
  let ?N = "pk_N pk"
  have n: "1 < ?N" "pk_N2 pk = ?N * ?N" using ok by (simp_all add: pk_ok_def)
  note e = encryptD [OF c] and e' = encryptD [OF d]
  have c': "is_valid_ciphertext pk c" "BN_bin2bn c = (1 + m * ?N) * r ^ nat ?N mod pk_N2 pk"
    using encrypt_valid [OF ok e] c by auto
  have d': "is_valid_ciphertext pk d" "BN_bin2bn d = (1 + m' * ?N) * r' ^ nat ?N mod pk_N2 pk"
    using encrypt_valid [OF ok e'] d by auto
  obtain s where s: "ct_add pk c d = Some s" "is_valid_ciphertext pk s" "BN_bin2bn s = BN_bin2bn c * BN_bin2bn d mod pk_N2 pk"
    using ct_add_valid [OF ok c'(1) d'(1)] by blast
  obtain t where t: "encrypt pk ((m + m') mod ?N) (r * r') = Some t" "is_valid_ciphertext pk t"
    "BN_bin2bn t = (1 + (m + m') mod ?N * ?N) * (r * r') ^ nat ?N mod pk_N2 pk"
    using encrypt_valid [OF ok, of "(m + m') mod ?N" "r * r'"] e e' n by auto
  have "(1 + m * ?N) * (1 + m' * ?N) = (1 + (m + m') * ?N) + m * m' * (?N * ?N)" by (simp add: algebra_simps)
  then have one: "(1 + m * ?N) * (1 + m' * ?N) mod (?N * ?N) = 1 + (m + m') mod ?N * ?N"
    by (simp only: mod_mult_self1 one_plus_mod [OF n(1)])
  have "BN_bin2bn s = (1 + m * ?N) * r ^ nat ?N * ((1 + m' * ?N) * r' ^ nat ?N) mod (?N * ?N)"
    by (simp only: s(3) c'(2) d'(2) n(2) mod_mult_eq)
  also have "\<dots> = (1 + m * ?N) * (1 + m' * ?N) * (r * r') ^ nat ?N mod (?N * ?N)"
    by (simp only: power_mult_distrib mult_ac)
  also have "\<dots> = ((1 + m * ?N) * (1 + m' * ?N) mod (?N * ?N)) * (r * r') ^ nat ?N mod (?N * ?N)"
    by (simp only: mod_mult_left_eq)
  finally have "BN_bin2bn s = ((1 + m * ?N) * (1 + m' * ?N) mod (?N * ?N)) * (r * r') ^ nat ?N mod (?N * ?N)" .
  then have "s = t" by (intro ciphertext_eqI [OF s(2) t(2)]) (simp only: one t(3) n(2))
  with s(1) t(1) show ?thesis by simp
qed

section \<open>Fermat's theorem\<close>

definition is_prime :: "nat \<Rightarrow> bool" where
  "is_prime p \<longleftrightarrow> 1 < p \<and> (\<forall>d. d dvd p \<longrightarrow> d = 1 \<or> d = p)"

lemma prime_coprime: "is_prime p \<Longrightarrow> \<not> p dvd a \<Longrightarrow> coprime a p"
proof -
  assume p: "is_prime p" and a: "\<not> p dvd a"
  have "gcd a p dvd p" "gcd a p dvd a" by simp_all
  with p a show ?thesis by (metis coprime_iff_gcd_eq_1 is_prime_def)
qed

lemma prime_dvd_choose: "is_prime p \<Longrightarrow> 0 < k \<Longrightarrow> k < p \<Longrightarrow> p dvd (p choose k)"
proof -
  assume p: "is_prime p" and k: "0 < k" "k < p"
  have "k * (p choose k) = p * ((p - 1) choose (k - 1))" using k times_binomial_minus1_eq [of k p] by simp
  moreover have "coprime p k" using prime_coprime [OF p, of k] k nat_dvd_not_less by (simp add: coprime_commute)
  ultimately show ?thesis by (metis coprime_dvd_mult_right_iff dvd_triv_left)
qed

lemma freshman: "is_prime p \<Longrightarrow> (a + 1) ^ p mod p = (a ^ p + 1) mod (p :: nat)"
proof -
  assume p: "is_prime p"
  then have p1: "1 < p" by (simp add: is_prime_def)
  have "(a + 1) ^ p = (\<Sum>k\<le>p. (p choose k) * a ^ k)" using binomial [of a 1 p] by simp
  also have "{..p} = insert 0 (insert p {0<..<p})" using p1 by auto
  also have "(\<Sum>k\<in>insert 0 (insert p {0<..<p}). (p choose k) * a ^ k) = 1 + (a ^ p + (\<Sum>k\<in>{0<..<p}. (p choose k) * a ^ k))"
    using p1 by simp
  also have "\<dots> mod p = (a ^ p + 1) mod p"
  proof -
    have "p dvd (\<Sum>k\<in>{0<..<p}. (p choose k) * a ^ k)" by (intro dvd_sum) (simp add: prime_dvd_choose [OF p])
    then obtain q where "(\<Sum>k\<in>{0<..<p}. (p choose k) * a ^ k) = p * q" ..
    then show ?thesis by (simp add: add.assoc [symmetric])
  qed
  finally show ?thesis .
qed

lemma fermat: "is_prime p \<Longrightarrow> a ^ p mod p = a mod p"
proof (induction a)
  case 0
  then show ?case by (auto simp: is_prime_def power_0_left)
next
  case (Suc a)
  have "(a + 1) ^ p mod p = (a ^ p mod p + 1) mod p" using freshman [OF Suc.prems, of a] by (simp only: mod_add_left_eq)
  also have "\<dots> = (a + 1) mod p" by (simp only: Suc.IH [OF Suc.prems] mod_add_left_eq)
  finally show ?case by simp
qed

lemma fermat_unit:
  assumes p: "is_prime p" and a: "coprime a p"
  shows "a ^ (p - 1) mod p = 1"
proof -
  have p1: "1 < p" using p by (simp add: is_prime_def)
  have "a ^ p = a * a ^ (p - 1)" using p1 by (cases p) simp_all
  then have "a * a ^ (p - 1) mod p = a * 1 mod p" using fermat [OF p, of a] by simp
  then have "int p dvd int a * (int (a ^ (p - 1)) - 1)"
    by (metis mod_eq_dvd_iff of_nat_1 of_nat_mult right_diff_distrib zmod_int)
  moreover have "coprime (int p) (int a)" using a by (simp add: coprime_commute)
  ultimately have "int p dvd int (a ^ (p - 1)) - 1" by (simp add: coprime_dvd_mult_right_iff)
  then have "int (a ^ (p - 1)) mod int p = 1 mod int p" by (simp add: mod_eq_dvd_iff)
  then have "int (a ^ (p - 1) mod p) = 1" using p1 by (simp add: zmod_int)
  then show ?thesis by simp
qed

section \<open>Decryption\<close>

lemma power_multiple_mod: "(x :: nat) ^ k mod n = 1 \<Longrightarrow> k dvd l \<Longrightarrow> 1 < n \<Longrightarrow> x ^ l mod n = 1"
proof -
  assume x: "x ^ k mod n = 1" and "k dvd l" and n: "1 < n"
  then obtain j where "l = k * j" by (auto elim: dvdE)
  then have "x ^ l mod n = (x ^ k mod n) ^ j mod n" by (simp add: power_mult power_mod)
  with x n show ?thesis by simp
qed

text \<open>The exponent of the key takes every unit to one.\<close>

lemma carmichael:
  assumes p: "is_prime p" and q: "is_prime q" and "p \<noteq> q" and r: "coprime r (p * q)"
  shows "int r ^ lcm (p - 1) (q - 1) mod int (p * q) = 1"
proof -
  have one: "1 < p" "1 < q" using p q by (simp_all add: is_prime_def)
  let ?x = "r ^ lcm (p - 1) (q - 1)"
  have "r ^ (p - 1) mod p = 1" "r ^ (q - 1) mod q = 1" using fermat_unit [OF p, of r] fermat_unit [OF q, of r] r by simp_all
  then have "?x mod p = 1" "?x mod q = 1"
    using power_multiple_mod [OF _ dvd_lcm1 one(1)] power_multiple_mod [OF _ dvd_lcm2 one(2)] by blast+
  then have "int (?x mod p) = 1" "int (?x mod q) = 1" by simp_all
  then have "int ?x mod int p = 1 mod int p" "int ?x mod int q = 1 mod int q" using one by (simp_all only: zmod_int) simp_all
  then have "int p dvd int ?x - 1" "int q dvd int ?x - 1" by (simp_all add: mod_eq_dvd_iff)
  moreover have "\<not> q dvd p" using p q assms(3) one by (auto simp: is_prime_def)
  then have "coprime p q" by (rule prime_coprime [OF q])
  ultimately have "int p * int q dvd int ?x - 1" by (intro divides_mult) simp_all
  then have "int ?x mod (int p * int q) = 1 mod (int p * int q)" by (simp add: mod_eq_dvd_iff)
  moreover have "1 < int p * int q" using one by (simp add: less_1_mult)
  ultimately show ?thesis by simp
qed

lemma power_N_mod:
  assumes "1 < N" "x mod N = (1 :: int)"
  shows "x ^ nat N mod (N * N) = 1"
proof -
  have "x = 1 + (x div N) * N" using assms(2) by (metis add.commute div_mult_mod_eq)
  then have "x ^ nat N mod (N * N) = (1 + int (nat N) * (x div N) * N) mod (N * N)" by (metis power_one_plus)
  also have "\<dots> = 1 + (N * (x div N)) mod N * N" using assms(1) one_plus_mod [OF assms(1), of "N * (x div N)"] by simp
  finally show ?thesis by simp
qed

lemma encrypted_power:
  assumes "1 < N" "r ^ l mod N = (1 :: int)"
  shows "((1 + m * N) * r ^ nat N mod (N * N)) ^ l mod (N * N) = (1 + int l * m * N) mod (N * N)"
proof -
  have rN: "(r ^ l) ^ nat N mod (N * N) = 1" by (rule power_N_mod [OF assms])
  have "((1 + m * N) * r ^ nat N mod (N * N)) ^ l mod (N * N) = (1 + m * N) ^ l * (r ^ l) ^ nat N mod (N * N)"
    by (simp only: power_mod power_mult_distrib) (simp only: power_mult [symmetric] mult.commute)
  also have "\<dots> = (1 + m * N) ^ l mod (N * N)" by (metis rN mod_mult_right_eq mult.right_neutral)
  finally show ?thesis by (simp only: power_one_plus)
qed

lemma unit_power:
  assumes "is_prime p" "is_prime q" "p \<noteq> q" "0 < r" "coprime r (int p * int q)"
  shows "r ^ lcm (p - 1) (q - 1) mod (int p * int q) = 1"
proof -
  obtain k where k: "r = int k" using \<open>0 < r\<close> by (metis zero_less_imp_eq_int)
  have "coprime k (p * q)" using assms(5) by (simp only: k flip: of_nat_mult) simp
  from carmichael [OF assms(1-3) this] show ?thesis by (simp add: k)
qed

definition sk_ok :: "paillier_private_key \<Rightarrow> bool" where
  "sk_ok sk \<longleftrightarrow> 1 < sk_N sk \<and> odd (sk_N sk) \<and> sk_N2 sk = sk_N sk * sk_N sk \<and> sk_lambda sk * sk_mu sk mod sk_N sk = 1
     \<and> 0 \<le> sk_lambda sk \<and> (\<forall>r > 0. coprime r (sk_N sk) \<longrightarrow> r ^ nat (sk_lambda sk) mod sk_N sk = 1)"

lemma decrypt_encrypted:
  assumes sk: "sk_ok sk" and pk: "pk_ok pk" "pk_N pk = sk_N sk" and c: "encrypt pk m r = Some c"
  shows "decrypt sk c = Some m"
proof -
  let ?N = "sk_N sk" and ?l = "nat (sk_lambda sk)"
  have n: "1 < ?N" "odd ?N" "sk_N2 sk = ?N * ?N" "pk_N2 pk = ?N * ?N" using sk pk by (simp_all add: sk_ok_def pk_ok_def)
  note e = encryptD [OF c, unfolded pk(2)]
  have c': "is_valid_ciphertext pk c" "BN_bin2bn c = (1 + m * ?N) * r ^ nat ?N mod (?N * ?N)"
    using encrypt_valid [OF pk(1) encryptD [OF c]] c n by (auto simp: pk(2))
  have "r ^ ?l mod ?N = 1" using sk e by (simp add: sk_ok_def)
  then have "BN_bin2bn c ^ ?l mod (?N * ?N) = (1 + int ?l * m * ?N) mod (?N * ?N)" by (simp only: c'(2) encrypted_power [OF n(1)])
  also have "\<dots> = 1 + (sk_lambda sk * m) mod ?N * ?N" using sk by (simp add: one_plus_mod [OF n(1), symmetric] sk_ok_def)
  finally have u: "BN_bin2bn c ^ ?l mod (?N * ?N) = 1 + (sk_lambda sk * m) mod ?N * ?N" .
  have "(sk_lambda sk * m) mod ?N * sk_mu sk mod ?N = (sk_lambda sk * sk_mu sk mod ?N) * m mod ?N"
    by (simp add: mod_simps mult_ac)
  also have "\<dots> = m" using sk e by (simp add: sk_ok_def)
  finally have "(sk_lambda sk * m) mod ?N * sk_mu sk mod ?N = m" .
  moreover have "\<bar>sk_lambda sk\<bar> = sk_lambda sk" using sk by (simp add: sk_ok_def)
  ultimately show ?thesis using u c'(1) n e
    by (simp add: decrypt_def valid_iff pk(2) coprime_iff_gcd_eq_1 [symmetric] BN_mod_exp_mont_consttime_def BN_mod_mul_def Let_def BN_div_nonneg)
qed

lemma generated_key:
  assumes p: "is_prime p" "2 < p" and q: "is_prime q" "2 < q" and g: "generate_for_testing (int p) (int q) = Some sk"
  shows "sk_ok sk" "sk_N sk = int p * int q"
proof -
  let ?N = "int p * int q" and ?l = "int (lcm (p - 1) (q - 1))"
  have pq: "p \<noteq> q" using g by (auto simp: generate_for_testing_def)
  have N: "1 < ?N" using p(2) q(2) by (simp add: less_1_mult)
  have "BN_div ((int p - 1) * (int q - 1)) (gcd (int p - 1) (int q - 1)) = ?l"
    using p(2) q(2) by (simp add: BN_div_nonneg lcm_nat_def zdiv_int of_nat_diff flip: gcd_int_int_eq)
  moreover have "BN_div (((?N + 1) ^ nat ?l mod (?N * ?N)) - 1) ?N = ?l mod ?N"
    using power_one_plus [of 1 ?N "nat ?l"] N by (simp add: add.commute one_plus_mod BN_div_nonneg)
  ultimately obtain mu where mu: "BN_mod_inverse (?l mod ?N) ?N = Some mu"
    "sk = \<lparr>sk_N = ?N, sk_N2 = ?N * ?N, sk_lambda = ?l, sk_mu = mu\<rparr>"
    using g pq by (auto simp: generate_for_testing_def Let_def BN_mod_exp_def split: option.splits)
  have "?l * mu mod ?N = 1" using BN_mod_inverse_spec [OF N, of "?l mod ?N"] mu(1) by (simp add: mod_simps)
  moreover have "odd p" "odd q" using p q by (auto simp: is_prime_def)
  ultimately show "sk_ok sk" "sk_N sk = int p * int q" using N unit_power [OF p(1) q(1) pq] by (simp_all add: sk_ok_def mu(2))
qed

section \<open>Signed values\<close>

lemma be_fold: "foldl (\<lambda>mag b. mag * 256 + int (byte_val b)) 0 (rev bs) = int (le_val bs)"
  by (induction bs) simp_all

lemma bn_to_int128_eq: "bn_to_int128 v = (if 0 \<le> v \<and> v < 2 ^ 127 then Some v else None)"
proof (cases "0 \<le> v \<and> v < 2 ^ 127")
  case True
  then have "nat v < 256 ^ 16" by (simp add: nat_less_iff)
  with True show ?thesis by (simp add: bn_to_int128_def BN_bn2binpad_def be_fold)
qed (auto simp: bn_to_int128_def)

lemma int128_to_bn_eq: "0 \<le> v \<Longrightarrow> v < 2 ^ 128 \<Longrightarrow> int128_to_bn v = Some v"
  by (simp add: int128_to_bn_def BN_bin2bn_def nat_less_iff)

lemma decode_encode:
  assumes "\<bar>s\<bar> < 2 ^ 127" "2 * \<bar>s\<bar> < N"
  shows "\<exists>m. encode_signed_value s N = Some m \<and> m = s mod N \<and> decode_signed_value m N = Some s"
proof (cases "0 \<le> s")
  case True
  with assms show ?thesis
    by (simp add: encode_signed_value_def int128_to_bn_eq decode_signed_value_def bn_to_int128_eq)
next
  case False
  have "s mod N = (N + s) mod N" by simp
  also have "\<dots> = N + s" using assms False by (intro mod_pos_pos_trivial) simp_all
  finally have "s mod N = N + s" .
  with False assms show ?thesis
    by (simp add: encode_signed_value_def int128_to_bn_eq decode_signed_value_def bn_to_int128_eq)
qed

section \<open>Sums\<close>

text \<open>The ciphertexts of a proposal, added one after the other to the first.\<close>

primrec ct_sum :: "paillier_public_key \<Rightarrow> bytes \<Rightarrow> bytes list \<Rightarrow> bytes option" where
  "ct_sum pk c [] = Some c"
| "ct_sum pk c (d # ds) = (case ct_add pk c d of None \<Rightarrow> None | Some e \<Rightarrow> ct_sum pk e ds)"

lemma ct_sum_encrypted:
  assumes "pk_ok pk" "encrypt pk (s mod pk_N pk) r = Some c" "list_all2 (\<lambda>(s, r) c. encrypt pk (s mod pk_N pk) r = Some c) vs cs"
  shows "\<exists>t e. ct_sum pk c cs = Some e \<and> encrypt pk ((s + sum_list (map fst vs)) mod pk_N pk) t = Some e"
  using assms(3,2)
proof (induction arbitrary: s r c rule: list_all2_induct)
  case Nil
  then show ?case by auto
next
  case (Cons v vs d ds)
  obtain s' r' where v: "v = (s', r')" by (cases v)
  have d: "encrypt pk (s' mod pk_N pk) r' = Some d" using Cons.hyps(1) by (simp add: v)
  have sum: "ct_add pk c d = encrypt pk ((s + s') mod pk_N pk) (r * r')"
    using encrypt_add [OF assms(1) Cons.prems d] by (simp only: mod_add_eq)
  have n: "1 < pk_N pk" using assms(1) by (simp add: pk_ok_def)
  have "coprime (r * r') (pk_N pk)" "0 < r * r'" using encryptD(3,4) [OF Cons.prems] encryptD(3,4) [OF d] by simp_all
  then obtain e where e: "encrypt pk ((s + s') mod pk_N pk) (r * r') = Some e"
    using encrypt_valid [OF assms(1), of "(s + s') mod pk_N pk" "r * r'"] n by auto
  from Cons.IH [OF e] show ?case by (simp add: sum e v add.assoc)
qed

text \<open>
  C0: the encrypted tally is the tally. For a key made from two different odd primes that fits the format, let votes
  be encoded as signed values and encrypted, each with any unit as randomness. Adding the ciphertexts, decrypting
  the sum and decoding it gives the sum of the votes, as long as twice the sum stays below the modulus and the sum
  within 127 bits.
\<close>
theorem paillier_tally:
  assumes "is_prime p" "2 < p" "is_prime q" "2 < q" "generate_for_testing (int p) (int q) = Some sk"
    and "public_key sk = Some pk" "pk_N pk < 256 ^ 256"
    and "list_all2 (\<lambda>(s, r) c. \<bar>s\<bar> < 2 ^ 127 \<and> 2 * \<bar>s\<bar> < pk_N pk
           \<and> (\<exists>m. encode_signed_value s (pk_N pk) = Some m \<and> encrypt pk m r = Some c)) (v # vs) (c # cs)"
    and "\<bar>sum_list (map fst (v # vs))\<bar> < 2 ^ 127" "2 * \<bar>sum_list (map fst (v # vs))\<bar> < pk_N pk"
  shows "\<exists>e m. ct_sum pk c cs = Some e \<and> decrypt sk e = Some m \<and> decode_signed_value m (pk_N pk) = Some (sum_list (map fst (v # vs)))"
proof -
  note sk = generated_key [OF assms(1-5)]
  have pk: "pk_N pk = sk_N sk" "pk_ok pk"
    using assms(6,7) sk by (auto simp: public_key_def set_modulus_def pk_ok_def sk_ok_def split: if_splits)
  have votes: "list_all2 (\<lambda>(s, r) c. encrypt pk (s mod pk_N pk) r = Some c) (v # vs) (c # cs)"
    using assms(8) by (rule list_all2_mono) (use decode_encode [of _ "pk_N pk"] in fastforce)
  obtain s r where v: "v = (s, r)" by (cases v)
  obtain t e where e: "ct_sum pk c cs = Some e" "encrypt pk ((s + sum_list (map fst vs)) mod pk_N pk) t = Some e"
    using ct_sum_encrypted [OF pk(2), of s r c vs cs] votes by (auto simp: v)
  have "decrypt sk e = Some ((s + sum_list (map fst vs)) mod pk_N pk)" by (rule decrypt_encrypted [OF sk(1) pk(2,1) e(2)])
  with e(1) decode_encode [OF assms(9,10)] show ?thesis by (auto simp: v)
qed

lemma is_primeI:
  assumes "1 < p" "\<forall>d \<in> {2..<p}. \<not> d dvd p"
  shows "is_prime p"
  unfolding is_prime_def
proof (intro conjI allI impI)
  fix d assume d: "d dvd p"
  have "d \<le> p" using d assms(1) by (intro dvd_imp_le) simp_all
  moreover have "d \<noteq> 0" using d assms(1) by (cases "d = 0") simp_all
  ultimately show "d = 1 \<or> d = p" using assms(2) d by (cases "d \<in> {2..<p}") auto
qed (rule assms)

lemma ex_primes: "is_prime 5" "is_prime 7" "is_prime 17" "is_prime 19"
proof -
  have "\<forall>d \<in> {2..<5}. \<not> d dvd (5 :: nat)" "\<forall>d \<in> {2..<7}. \<not> d dvd (7 :: nat)"
    "\<forall>d \<in> {2..<17}. \<not> d dvd (17 :: nat)" "\<forall>d \<in> {2..<19}. \<not> d dvd (19 :: nat)" by code_simp+
  then show "is_prime 5" "is_prime 7" "is_prime 17" "is_prime 19" by (simp_all add: is_primeI)
qed

lemma ex_key: "generate_for_testing 5 7 = Some \<lparr>sk_N = 35, sk_N2 = 1225, sk_lambda = 12, sk_mu = 3\<rparr>"
  by code_simp

theorem paillier_tally_witness:
  "\<exists>sk pk c d e m. generate_for_testing 5 7 = Some sk \<and> public_key sk = Some pk \<and> encrypt pk 3 2 = Some c \<and> encrypt pk 30 4 = Some d
    \<and> ct_sum pk c [d] = Some e \<and> decrypt sk e = Some m \<and> decode_signed_value m (pk_N pk) = Some (-2)"
proof -
  let ?sk = "\<lparr>sk_N = 35, sk_N2 = 1225, sk_lambda = 12, sk_mu = 3\<rparr>" and ?pk = "\<lparr>pk_N = 35, pk_N2 = 1225\<rparr>"
  have pk: "public_key ?sk = Some ?pk" by (simp add: public_key_def set_modulus_def)
  have ok: "pk_ok ?pk" by (simp add: pk_ok_def)
  have "coprime (2 :: int) 35" "coprime (4 :: int) 35" by (simp_all add: coprime_iff_gcd_eq_1) code_simp+
  then obtain c d where c: "encrypt ?pk 3 2 = Some c" "encrypt ?pk 30 4 = Some d"
    using encrypt_valid [OF ok, of 3 2] encrypt_valid [OF ok, of 30 4] by auto
  have "list_all2 (\<lambda>(s, r) c. \<bar>s\<bar> < 2 ^ 127 \<and> 2 * \<bar>s\<bar> < pk_N ?pk
      \<and> (\<exists>m. encode_signed_value s (pk_N ?pk) = Some m \<and> encrypt ?pk m r = Some c)) [(3, 2), (-5, 4)] [c, d]"
    using c decode_encode [of 3 35] decode_encode [of "-5" 35] by simp
  from paillier_tally [OF ex_primes(1) _ ex_primes(2) _ _ pk _ this] ex_key pk c show ?thesis by simp
qed

end
