(* ===== verification/Threshold.thy ===== *)
theory Threshold
  imports Paillier Complex_Main
begin

text \<open>
  \<^verbatim>\<open>src/src/governance/dao_threshold.cpp\<close>: decryption by a committee. Every member raises a ciphertext to its share of
  the secret exponent, and the partial results are combined with integer Lagrange coefficients, so that the secret
  exponent itself is never put together.
\<close>

section \<open>Arithmetic with signs\<close>

definition modexp_signed :: "bignum \<Rightarrow> bignum \<Rightarrow> bignum \<Rightarrow> bignum option" where
  "modexp_signed base exp_signed modulus =
     (if \<not> exp_signed < 0 then Some (BN_mod_exp base exp_signed modulus)
      else case BN_mod_inverse base modulus of
        None \<Rightarrow> None
      | Some base_inv \<Rightarrow> Some (BN_mod_exp base_inv (- exp_signed) modulus))"

definition inverse_mod_signed :: "bignum \<Rightarrow> bignum \<Rightarrow> bignum option" where
  "inverse_mod_signed a n =
     (case BN_mod_inverse \<bar>a\<bar> n of
        None \<Rightarrow> None
      | Some a_inv \<Rightarrow> Some ((if a < 0 then - a_inv else a_inv) mod n))"

section \<open>Decryption\<close>

definition dao_dkg_delta :: bignum where
  "dao_dkg_delta = 20922789888000"

definition dao_dkg_expected_threshold :: "nat \<Rightarrow> nat" where
  "dao_dkg_expected_threshold n = (if n < 3 \<or> 16 < n then 0 else (n + 1) div 2)"

text \<open>The factors \<open>- j\<close> of the numerator and \<open>i - j\<close> of the denominator, over the other members.\<close>

definition lagrange_step :: "nat \<Rightarrow> nat \<Rightarrow> bignum \<times> bignum \<Rightarrow> bignum \<times> bignum" where
  "lagrange_step i j acc = (if j = i then acc else (- (fst acc * int j), snd acc * (int i - int j)))"

definition dao_dkg_lagrange_mu :: "nat list \<Rightarrow> nat \<Rightarrow> bignum option" where
  "dao_dkg_lagrange_mu members i =
     (if length members < 2 then None
      else if i \<notin> set members then None
      else
        let (num, den) = fold (lagrange_step i) members (dao_dkg_delta, 1) in
        if \<bar>num\<bar> mod \<bar>den\<bar> = 0 then Some (BN_div num den) else None)"

definition dao_threshold_partial_decrypt :: "paillier_public_key \<Rightarrow> bytes \<Rightarrow> bignum \<Rightarrow> bytes option" where
  "dao_threshold_partial_decrypt pk c_bytes share =
     (if length c_bytes \<noteq> PAILLIER_CT_BYTES then None
      else case modexp_signed (BN_bin2bn c_bytes) (share * dao_dkg_delta * 2) (pk_N2 pk) of
        None \<Rightarrow> None
      | Some result \<Rightarrow> BN_bn2binpad PAILLIER_CT_BYTES result)"

fun combine_loop :: "paillier_public_key \<Rightarrow> nat list \<Rightarrow> (nat \<times> bytes) list \<Rightarrow> bignum \<Rightarrow> bignum option" where
  "combine_loop pk members [] C = Some C"
| "combine_loop pk members ((i, p) # rest) C =
     (if length p \<noteq> PAILLIER_CT_BYTES then None
      else case dao_dkg_lagrange_mu members i of
        None \<Rightarrow> None
      | Some mu \<Rightarrow>
          (case modexp_signed (BN_bin2bn p) (mu * 2) (pk_N2 pk) of
             None \<Rightarrow> None
           | Some term \<Rightarrow> combine_loop pk members rest (BN_mod_mul C term (pk_N2 pk))))"

definition dao_threshold_combine :: "paillier_public_key \<Rightarrow> nat list \<Rightarrow> bytes list \<Rightarrow> nat \<Rightarrow> bytes option" where
  "dao_threshold_combine pk members partials threshold =
     (if length members \<noteq> length partials then None
      else if threshold = 0 then None
      else if length members < threshold then None
      else case combine_loop pk members (zip members partials) 1 of
        None \<Rightarrow> None
      | Some C \<Rightarrow> BN_bn2binpad PAILLIER_CT_BYTES C)"

definition dao_threshold_finalize :: "paillier_public_key \<Rightarrow> bytes \<Rightarrow> bignum \<Rightarrow> bignum option" where
  "dao_threshold_finalize pk C_bytes theta_prime =
     (if length C_bytes \<noteq> PAILLIER_CT_BYTES then None
      else
        let L = BN_div (BN_bin2bn C_bytes - 1) (pk_N pk);
            coeff = - \<bar>dao_dkg_delta * dao_dkg_delta * 4 * theta_prime\<bar> in
        case inverse_mod_signed coeff (pk_N pk) of
          None \<Rightarrow> None
        | Some coeff_inv \<Rightarrow> Some (BN_mod_mul L coeff_inv (pk_N pk)))"

section \<open>Interpolation\<close>

text \<open>The value at zero of the Lagrange basis polynomials, and the interpolation at any point.\<close>

definition basis :: "nat set \<Rightarrow> nat \<Rightarrow> rat \<Rightarrow> rat" where
  "basis S i x = (\<Prod>j \<in> S - {i}. (x - of_nat j) / (of_nat i - of_nat j))"

lemma basis_insert:
  assumes "finite T" "a \<notin> T" "i \<in> T"
  shows "basis (insert a T) i x = basis T i x * (x - of_nat a) / (of_nat i - of_nat a)"
proof -
  have "insert a T - {i} = insert a (T - {i})" using assms by auto
  then show ?thesis using assms by (simp add: basis_def)
qed

lemma neville: "u \<noteq> 0 \<Longrightarrow> v \<noteq> 0 \<Longrightarrow> (u - v) * (P * y / v * z / u) = z * (P * y / v) - y * (P * z / (u :: rat))"
  by (simp add: field_simps)

text \<open>The basis polynomials add up to one.\<close>

lemma basis_sum: "finite S \<Longrightarrow> S \<noteq> {} \<Longrightarrow> (\<Sum>i\<in>S. basis S i x) = 1"
proof (induction "card S" arbitrary: S rule: less_induct)
  case less
  show ?case
  proof (cases "card S = 1")
    case True
    then obtain a where "S = {a}" by (auto simp: card_1_singleton_iff)
    then show ?thesis by (simp add: basis_def)
  next
    case False
    then have "\<not> card S \<le> Suc 0" using less.prems by (simp add: le_Suc_eq)
    then obtain a b where ab: "a \<in> S" "b \<in> S" "a \<noteq> b" using card_le_Suc0_iff_eq [OF less.prems(1)] by auto
    let ?T = "S - {a, b}"
    have fin: "finite ?T" and no: "a \<notin> ?T" "b \<notin> ?T" "a \<notin> insert b ?T" "b \<notin> insert a ?T" using less.prems ab by auto
    have S: "S = insert a (insert b ?T)" using ab by auto
    have one: "(\<Sum>i\<in>insert b ?T. basis (insert b ?T) i x) = 1" "(\<Sum>i\<in>insert a ?T. basis (insert a ?T) i x) = 1"
    proof -
      have "insert b ?T \<subset> S" "insert a ?T \<subset> S" using ab by auto
      then have "card (insert b ?T) < card S" "card (insert a ?T) < card S" by (simp_all only: psubset_card_mono less.prems(1))
      with less.hyps [of "insert b ?T"] less.hyps [of "insert a ?T"] fin
      show "(\<Sum>i\<in>insert b ?T. basis (insert b ?T) i x) = 1" "(\<Sum>i\<in>insert a ?T. basis (insert a ?T) i x) = 1" by blast+
    qed
    let ?A = "of_nat a :: rat" and ?B = "of_nat b :: rat"
    have AB: "?B - ?A \<noteq> 0" using ab(3) by simp
    have "(?B - ?A) * basis S i x = (x - ?A) * basis (insert b ?T) i x - (x - ?B) * basis (insert a ?T) i x" if i: "i \<in> ?T" for i
    proof -
      have d: "of_nat i - ?A \<noteq> 0" "of_nat i - ?B \<noteq> 0" using i by auto
      have "basis S i x = basis ?T i x * (x - ?B) / (of_nat i - ?B) * (x - ?A) / (of_nat i - ?A)"
        using basis_insert [of "insert b ?T" a i x] basis_insert [of ?T b i x] fin no i by (subst S) simp
      moreover have "basis (insert b ?T) i x = basis ?T i x * (x - ?B) / (of_nat i - ?B)"
        "basis (insert a ?T) i x = basis ?T i x * (x - ?A) / (of_nat i - ?A)"
        using basis_insert [of ?T b i x] basis_insert [of ?T a i x] fin no i by simp_all
      ultimately show ?thesis
        using neville [OF d, of "basis ?T i x" "x - ?B" "x - ?A"] by (simp only: diff_diff_eq2 diff_add_eq) (simp add: algebra_simps)
    qed
    then have t1: "(?B - ?A) * (\<Sum>i\<in>?T. basis S i x) =
        (x - ?A) * (\<Sum>i\<in>?T. basis (insert b ?T) i x) - (x - ?B) * (\<Sum>i\<in>?T. basis (insert a ?T) i x)"
      by (simp add: sum_distrib_left sum_subtractf [symmetric])
    have t2: "(?B - ?A) * basis S b x = (x - ?A) * basis (insert b ?T) b x"
      using basis_insert [of "insert b ?T" a b x] fin no AB by (subst S) simp
    have t3: "(?B - ?A) * basis S a x = - (x - ?B) * basis (insert a ?T) a x"
    proof -
      have S': "S = insert b (insert a ?T)" using ab by auto
      have "basis S a x = basis (insert a ?T) a x * (x - ?B) / (?A - ?B)"
        using basis_insert [of "insert a ?T" b a x] fin no by (subst S') simp
      then show ?thesis using AB by (simp add: field_simps)
    qed
    have "(\<Sum>i\<in>S. basis S i x) = basis S a x + (basis S b x + (\<Sum>i\<in>?T. basis S i x))"
      using fin no ab by (subst S, subst sum.insert) simp_all
    then have "(?B - ?A) * (\<Sum>i\<in>S. basis S i x) =
        (?B - ?A) * basis S a x + ((?B - ?A) * basis S b x + (?B - ?A) * (\<Sum>i\<in>?T. basis S i x))"
      by (simp only: distrib_left)
    also have "\<dots> = (x - ?A) * (basis (insert b ?T) b x + (\<Sum>i\<in>?T. basis (insert b ?T) i x))
        - (x - ?B) * (basis (insert a ?T) a x + (\<Sum>i\<in>?T. basis (insert a ?T) i x))"
      by (simp only: t1 t2 t3) (simp add: algebra_simps)
    also have "\<dots> = (?B - ?A) * 1" using one fin no by simp
    finally have "(?B - ?A) * (\<Sum>i\<in>S. basis S i x) = (?B - ?A) * 1" .
    then show ?thesis using AB by simp
  qed
qed

text \<open>Polynomial functions with at most \<open>n\<close> coefficients.\<close>

inductive polyfun :: "nat \<Rightarrow> (rat \<Rightarrow> rat) \<Rightarrow> bool" where
  zero: "polyfun 0 (\<lambda>_. 0)"
| horner: "polyfun n f \<Longrightarrow> polyfun (Suc n) (\<lambda>x. c + x * f x)"

inductive_cases polyfun_SucE: "polyfun (Suc n) f"
inductive_cases polyfun_0E: "polyfun 0 f"

lemma polyfun_SucD: "polyfun (Suc n) f \<Longrightarrow> \<exists>g c. polyfun n g \<and> f = (\<lambda>x. c + x * g x)"
  by (erule polyfun_SucE) blast

lemma polyfun_add: "polyfun n f \<Longrightarrow> polyfun n g \<Longrightarrow> polyfun n (\<lambda>x. f x + g x)"
proof (induction arbitrary: g rule: polyfun.induct)
  case zero
  then show ?case by (auto elim: polyfun_0E intro: polyfun.zero)
next
  case (horner n f c)
  from polyfun_SucD [OF horner.prems] obtain h d where g: "polyfun n h" "g = (\<lambda>x. d + x * h x)" by blast
  from polyfun.horner [OF horner.IH [OF g(1)], of "c + d"] show ?case by (simp add: g(2) algebra_simps)
qed

lemma polyfun_scale: "polyfun n f \<Longrightarrow> polyfun n (\<lambda>x. a * f x)"
proof (induction rule: polyfun.induct)
  case zero
  then show ?case by (simp add: polyfun.zero)
next
  case (horner n f c)
  from polyfun.horner [OF horner.IH, of "a * c"] show ?case by (simp add: algebra_simps)
qed

lemma polyfun_Suc: "polyfun n f \<Longrightarrow> polyfun (Suc n) f"
proof (induction rule: polyfun.induct)
  case zero
  from polyfun.horner [OF polyfun.zero, of 0] show ?case by simp
next
  case (horner n f c)
  from polyfun.horner [OF horner.IH, of c] show ?case .
qed

lemma polyfun_divide: "polyfun (Suc n) f \<Longrightarrow> \<exists>q. polyfun n q \<and> (\<forall>x. f x = f a + (x - a) * q x)"
proof (induction n arbitrary: f)
  case 0
  then obtain g c where "polyfun 0 g" "f = (\<lambda>x. c + x * g x)" using polyfun_SucD by blast
  then have "f = (\<lambda>_. c)" by (auto elim: polyfun_0E)
  with polyfun.zero show ?case by auto
next
  case (Suc n)
  from polyfun_SucD [OF Suc.prems] obtain g c where g: "polyfun (Suc n) g" "f = (\<lambda>x. c + x * g x)" by blast
  from Suc.IH [OF g(1)] obtain q where q: "polyfun n q" "\<forall>x. g x = g a + (x - a) * q x" by blast
  have p: "polyfun (Suc n) (\<lambda>x. g x + a * q x)" by (intro polyfun_add polyfun_scale polyfun_Suc g(1) q(1))
  have "f x = f a + (x - a) * (g x + a * q x)" for x
  proof -
    have "a * g x = a * (g a + (x - a) * q x)" by (rule arg_cong [OF q(2) [rule_format]])
    then show ?thesis by (simp add: g(2) algebra_simps)
  qed
  with p show ?case by blast
qed

lemma interpolation: "finite S \<Longrightarrow> polyfun (card S) f \<Longrightarrow> f x = (\<Sum>i\<in>S. f (of_nat i) * basis S i x)"
proof (induction S arbitrary: f rule: finite_induct)
  case empty
  then show ?case by (auto elim: polyfun_0E)
next
  case (insert a T)
  let ?S = "insert a T"
  obtain q where q: "polyfun (card T) q" "\<forall>x. f x = f (of_nat a) + (x - of_nat a) * q x"
    using polyfun_divide [of "card T" f "of_nat a"] insert.prems insert.hyps by auto
  have "f (of_nat i) * basis ?S i x = f (of_nat a) * basis ?S i x + (x - of_nat a) * (q (of_nat i) * basis T i x)" if i: "i \<in> T" for i
  proof -
    have d: "of_nat i - of_nat a \<noteq> (0 :: rat)" using i insert.hyps by auto
    have fi: "f (of_nat i) = f (of_nat a) + (of_nat i - of_nat a) * q (of_nat i)" using q(2) by blast
    have "(of_nat i - of_nat a) * basis ?S i x = basis T i x * (x - of_nat a)" using basis_insert [OF insert.hyps i, of x] d by simp
    then have "q (of_nat i) * ((of_nat i - of_nat a) * basis ?S i x) = q (of_nat i) * (basis T i x * (x - of_nat a))" by simp
    then show ?thesis by (simp add: fi algebra_simps)
  qed
  then have "(\<Sum>i\<in>T. f (of_nat i) * basis ?S i x) = f (of_nat a) * (\<Sum>i\<in>T. basis ?S i x) + (x - of_nat a) * (\<Sum>i\<in>T. q (of_nat i) * basis T i x)"
    by (simp add: sum_distrib_left sum.distrib)
  also have "(\<Sum>i\<in>T. q (of_nat i) * basis T i x) = q x" using insert.IH [OF q(1)] by simp
  finally have "(\<Sum>i\<in>?S. f (of_nat i) * basis ?S i x) = f (of_nat a) * (\<Sum>i\<in>?S. basis ?S i x) + (x - of_nat a) * q x"
    using insert.hyps by (simp add: algebra_simps)
  also have "(\<Sum>i\<in>?S. basis ?S i x) = 1" by (rule basis_sum) (use insert.hyps in simp_all)
  finally show ?case using q(2) by (metis mult.right_neutral)
qed

section \<open>Integer coefficients\<close>

lemma BN_div_exact: "d \<noteq> 0 \<Longrightarrow> BN_div (d * m) d = m"
  by (auto simp: BN_div_def abs_mult sgn_if zero_less_mult_iff)

lemma fold_lagrange:
  "fold (lagrange_step i) js (num, den) =
    (num * prod_list (map (\<lambda>j. - int j) (filter (\<lambda>j. j \<noteq> i) js)), den * prod_list (map (\<lambda>j. int i - int j) (filter (\<lambda>j. j \<noteq> i) js)))"
  by (induction js arbitrary: num den) (simp_all add: lagrange_step_def mult.assoc)

lemma fold_lagrange_set:
  assumes "distinct js"
  shows "fold (lagrange_step i) js (num, 1) = (num * (\<Prod>j\<in>set js - {i}. - int j), \<Prod>j\<in>set js - {i}. int i - int j)"
proof -
  have "prod_list (map f (filter (\<lambda>j. j \<noteq> i) js)) = (\<Prod>j\<in>set js - {i}. f j)" for f :: "nat \<Rightarrow> int"
    using assms prod.distinct_set_conv_list [of "filter (\<lambda>j. j \<noteq> i) js" f] by (simp add: set_diff_eq)
  then show ?thesis by (simp add: fold_lagrange)
qed

lemma delta_divides:
  assumes "i \<in> {1..16}" "S \<subseteq> {1..16}"
  shows "(\<Prod>j\<in>S - {i}. int i - int j) dvd dao_dkg_delta"
proof -
  have "(\<Prod>j\<in>S - {i}. int i - int j) dvd (\<Prod>j\<in>{1..16} - {i}. int i - int j)"
    by (rule prod_dvd_prod_subset) (use assms in auto)
  also have "(\<Prod>j\<in>{1..16} - {i}. int i - int j) = prod_list (map (\<lambda>j. int i - int j) (filter (\<lambda>j. j \<noteq> i) [1..<17]))"
    by (subst prod.distinct_set_conv_list [symmetric]) (auto intro!: prod.cong)
  also have "list_all (\<lambda>i. prod_list (map (\<lambda>j. int i - int j) (filter (\<lambda>j. j \<noteq> i) [1..<17])) dvd dao_dkg_delta) [1..<17]" by code_simp
  then have "prod_list (map (\<lambda>j. int i - int j) (filter (\<lambda>j. j \<noteq> i) [1..<17])) dvd dao_dkg_delta" using assms(1) by (simp add: list_all_iff)
  finally show ?thesis .
qed

text \<open>The coefficients are always integers, as \<open>16!\<close> clears the denominators.\<close>

lemma lagrange_mu:
  assumes "distinct js" "set js \<subseteq> {1..16}" "2 \<le> length js" "i \<in> set js"
  shows "\<exists>mu. dao_dkg_lagrange_mu js i = Some mu \<and> of_int mu = of_int dao_dkg_delta * basis (set js) i 0"
proof -
  let ?num = "\<Prod>j\<in>set js - {i}. - int j" and ?den = "\<Prod>j\<in>set js - {i}. int i - int j"
  have den: "?den \<noteq> 0" by (simp add: prod_zero_iff)
  have "?den dvd dao_dkg_delta" by (rule delta_divides) (use assms in auto)
  then have "?den dvd dao_dkg_delta * ?num" by simp
  then obtain mu where mu: "dao_dkg_delta * ?num = ?den * mu" ..
  then have "BN_div (dao_dkg_delta * ?num) ?den = mu"
    using BN_div_exact [OF den] by simp
  moreover have "\<bar>dao_dkg_delta * ?num\<bar> mod \<bar>?den\<bar> = 0" by (simp add: mu abs_mult)
  ultimately have "dao_dkg_lagrange_mu js i = Some mu"
    using assms(3,4) by (simp add: dao_dkg_lagrange_mu_def fold_lagrange_set [OF assms(1)])
  moreover have "of_int dao_dkg_delta * (of_int ?num :: rat) = of_int ?den * of_int mu" by (metis mu of_int_mult)
  then have "of_int mu = of_int dao_dkg_delta * (of_int ?num / of_int ?den :: rat)" using den by (simp add: field_simps)
  moreover have "(of_int ?num / of_int ?den :: rat) = basis (set js) i 0" unfolding basis_def prod_dividef by simp
  ultimately show ?thesis by metis
qed

text \<open>So the coefficients take the values of a polynomial at the members to its value at zero.\<close>

definition mu_of :: "nat list \<Rightarrow> nat \<Rightarrow> bignum" where
  "mu_of js i = the (dao_dkg_lagrange_mu js i)"

lemma horner_polyfun: "polyfun (length cs) (\<lambda>x. horner_sum rat_of_int x cs)"
proof (induction cs)
  case Nil
  show ?case by (simp add: polyfun.zero)
next
  case (Cons c cs)
  from polyfun.horner [OF this, of "rat_of_int c"] show ?case by simp
qed

lemma horner_of_int: "rat_of_int (horner_sum id x cs) = horner_sum rat_of_int (rat_of_int x) cs"
  by (induction cs) simp_all

lemma polyfun_mono: "polyfun m f \<Longrightarrow> m \<le> k \<Longrightarrow> polyfun k f"
  by (induction k) (auto simp: le_Suc_eq intro: polyfun_Suc)

lemma mu_interpolates:
  assumes js: "distinct js" "set js \<subseteq> {1..16}" "2 \<le> length js" and cs: "length cs \<le> length js"
  shows "(\<Sum>i\<in>set js. mu_of js i * horner_sum id (int i) cs) = dao_dkg_delta * horner_sum id 0 cs"
proof -
  let ?f = "\<lambda>x. horner_sum rat_of_int x cs"
  have "polyfun (card (set js)) ?f" using polyfun_mono [OF horner_polyfun cs] js(1) by (simp add: distinct_card)
  then have "(\<Sum>i\<in>set js. ?f (of_nat i) * basis (set js) i 0) = ?f 0" by (intro interpolation [symmetric]) simp_all
  moreover have "rat_of_int (mu_of js i) = of_int dao_dkg_delta * basis (set js) i 0" if "i \<in> set js" for i
    using lagrange_mu [OF js that] by (auto simp: mu_of_def)
  then have "rat_of_int (\<Sum>i\<in>set js. mu_of js i * horner_sum id (int i) cs)
      = of_int dao_dkg_delta * (\<Sum>i\<in>set js. ?f (of_nat i) * basis (set js) i 0)"
    by (simp add: horner_of_int sum_distrib_left mult_ac)
  ultimately have "rat_of_int (\<Sum>i\<in>set js. mu_of js i * horner_sum id (int i) cs) = rat_of_int (dao_dkg_delta * horner_sum id 0 cs)"
    by (simp add: horner_of_int)
  then show ?thesis by (simp only: of_int_eq_iff)
qed

section \<open>Powers with signs\<close>

text \<open>The power of a unit \<open>x\<close> with inverse \<open>y\<close>.\<close>

definition zpow :: "int \<Rightarrow> int \<Rightarrow> int \<Rightarrow> int" where
  "zpow x y e = (if 0 \<le> e then x ^ nat e else y ^ nat (- e))"

lemma zpow_Suc:
  assumes "x * y mod n = 1"
  shows "zpow x y (e + 1) mod n = zpow x y e * x mod n"
proof (cases "0 \<le> e")
  case True
  then show ?thesis by (simp add: zpow_def nat_add_distrib mult.commute)
next
  case False
  have "y * x mod n = 1" using assms by (simp add: mult.commute)
  have "nat (- e) = Suc (nat (- (e + 1)))" using False by simp
  then have "zpow x y e * x = y ^ nat (- (e + 1)) * (y * x)"
    using False by (simp add: zpow_def)
  then have "zpow x y e * x mod n = y ^ nat (- (e + 1)) * (y * x mod n) mod n" by (simp only: mod_mult_right_eq)
  also have "\<dots> = y ^ nat (- (e + 1)) mod n" using \<open>y * x mod n = 1\<close> by simp
  also have "y ^ nat (- (e + 1)) = zpow x y (e + 1)" using False by (cases "e = -1") (simp_all add: zpow_def)
  finally show ?thesis by simp
qed

lemma zpow_pred:
  assumes "x * y mod n = 1"
  shows "zpow x y (e - 1) mod n = zpow x y e * y mod n"
proof -
  have "zpow x y e * y mod n = zpow x y (e - 1) * x mod n * y mod n"
    using zpow_Suc [OF assms, of "e - 1"] by (metis diff_add_cancel mod_mult_left_eq)
  also have "\<dots> = zpow x y (e - 1) * (x * y mod n) mod n" by (simp add: mod_simps mult.assoc)
  finally show ?thesis by (simp add: assms)
qed

lemma zpow_add:
  assumes "x * y mod n = 1"
  shows "zpow x y (a + b) mod n = zpow x y a * zpow x y b mod n"
proof (induction b rule: int_induct [where k = 0])
  case base
  then show ?case by (simp add: zpow_def)
next
  case (step1 b)
  have "zpow x y (a + (b + 1)) mod n = zpow x y (a + b) mod n * x mod n"
    using zpow_Suc [OF assms, of "a + b"] by (simp add: add.assoc mod_simps)
  also have "\<dots> = zpow x y a * (zpow x y b * x mod n) mod n" by (simp add: step1.IH mod_simps mult.assoc)
  finally show ?case by (simp add: zpow_Suc [OF assms, symmetric] mod_simps)
next
  case (step2 b)
  have "zpow x y (a + (b - 1)) mod n = zpow x y (a + b) mod n * y mod n"
    using zpow_pred [OF assms, of "a + b"] by (simp add: add_diff_eq mod_simps)
  also have "\<dots> = zpow x y a * (zpow x y b * y mod n) mod n" by (simp add: step2.IH mod_simps mult.assoc)
  finally show ?case by (simp add: zpow_pred [OF assms, symmetric] mod_simps)
qed

lemma zpow_power:
  assumes "x * y mod n = 1"
  shows "zpow x y e ^ k mod n = zpow x y (e * int k) mod n"
proof (induction k)
  case 0
  then show ?case by (simp add: zpow_def)
next
  case (Suc k)
  have "zpow x y e ^ Suc k mod n = zpow x y e * (zpow x y e ^ k mod n) mod n" by (simp add: mod_simps)
  also have "\<dots> = zpow x y (e + e * int k) mod n" by (simp only: Suc.IH mod_mult_right_eq zpow_add [OF assms])
  finally show ?case by (simp add: distrib_left)
qed

lemma zpow_inverse: "x * y mod n = 1 \<Longrightarrow> zpow x y e * zpow x y (- e) mod n = 1 mod n"
  using zpow_add [of x y n e "- e"] by (simp add: zpow_def)

lemma inverse_unique:
  assumes "a * b mod n = 1 mod n" "a * c mod n = 1 mod (n :: int)"
  shows "b mod n = c mod n"
proof -
  have "b mod n = b * (a * c mod n) mod n" by (simp add: assms(2) mod_simps)
  also have "\<dots> = c * (a * b mod n) mod n" by (simp add: mod_simps mult_ac)
  finally show ?thesis by (simp add: assms(1) mod_simps)
qed

text \<open>The signed exponentiation of the code, applied to a power.\<close>

lemma modexp_signed_zpow:
  assumes xy: "x * y mod n = 1" and n: "1 < n"
  shows "modexp_signed (zpow x y e mod n) k n = Some (zpow x y (e * k) mod n)"
proof (cases "k < 0")
  case False
  then show ?thesis using zpow_power [OF xy, of e "nat k"] by (simp add: modexp_signed_def BN_mod_exp_def power_mod)
next
  case True
  let ?b = "zpow x y e mod n"
  have one: "?b * zpow x y (- e) mod n = 1 mod n" using zpow_inverse [OF xy] by (simp add: mod_simps)
  then have "coprime ?b n" using n
    by (metis coprime_1_left coprime_mod_left_iff coprime_mult_left_iff less_irrefl not_one_less_zero)
  then obtain i where i: "BN_mod_inverse ?b n = Some i" "?b * i mod n = 1"
    using BN_mod_inverse_spec [OF n, of ?b] by (auto split: option.splits simp: coprime_iff_gcd_eq_1)
  have "i mod n = zpow x y (- e) mod n" by (rule inverse_unique [OF _ one]) (use i n in simp)
  then have "i ^ nat (- k) mod n = zpow x y (- e) ^ nat (- k) mod n" by (metis power_mod)
  also have "\<dots> = zpow x y (e * k) mod n" using True by (simp add: zpow_power [OF xy])
  finally show ?thesis using True i(1) by (simp add: modexp_signed_def BN_mod_exp_def)
qed

section \<open>Combining\<close>

lemma combine_loop_zpow:
  assumes xy: "x * y mod n = 1" and n: "1 < n" "pk_N2 pk = n"
    and "list_all2 (\<lambda>i p. length p = 512 \<and> BN_bin2bn p = zpow x y (e i) mod n \<and> dao_dkg_lagrange_mu js i = Some (mu_of js i)) is ps"
  shows "combine_loop pk js (zip is ps) (zpow x y a mod n) = Some (zpow x y (a + sum_list (map (\<lambda>i. e i * (mu_of js i * 2)) is)) mod n)"
  using assms(4)
proof (induction arbitrary: a rule: list_all2_induct)
  case (Cons i "is" p ps)
  have "BN_mod_mul (zpow x y a mod n) (zpow x y (e i * (mu_of js i * 2)) mod n) n = zpow x y (a + e i * (mu_of js i * 2)) mod n"
    by (simp add: BN_mod_mul_def mod_mult_eq zpow_add [OF xy])
  with Cons show ?case by (simp add: n(2) modexp_signed_zpow [OF xy n(1)] add.assoc)
qed simp

lemma N2_gt_one: "pk_ok pk \<Longrightarrow> 1 < pk_N2 pk"
  by (simp add: pk_ok_def less_1_mult)

lemma N2_stored:
  assumes "pk_ok pk"
  shows "\<exists>c. BN_bn2binpad 512 (v mod pk_N2 pk) = Some c \<and> BN_bin2bn c = v mod pk_N2 pk \<and> length c = 512"
proof (rule BN_bytes)
  have "0 < pk_N2 pk" using N2_gt_one [OF assms] by simp
  then show "0 \<le> v mod pk_N2 pk" "v mod pk_N2 pk < 256 ^ 512"
    using N2_room [OF assms] less_trans [OF pos_mod_bound] by (auto intro: pos_mod_sign)
qed

lemma partial_zpow:
  assumes ok: "pk_ok pk" and c: "is_valid_ciphertext pk c" "BN_bin2bn c * y mod pk_N2 pk = 1"
  shows "\<exists>p. dao_threshold_partial_decrypt pk c s = Some p \<and> length p = 512
    \<and> BN_bin2bn p = zpow (BN_bin2bn c) y (2 * dao_dkg_delta * s) mod pk_N2 pk"
proof -
  have v: "length c = 512" "BN_bin2bn c < pk_N2 pk" using c(1) by (simp_all add: valid_iff)
  have "modexp_signed (zpow (BN_bin2bn c) y 1 mod pk_N2 pk) (s * dao_dkg_delta * 2) (pk_N2 pk)
      = Some (zpow (BN_bin2bn c) y (1 * (s * dao_dkg_delta * 2)) mod pk_N2 pk)"
    by (rule modexp_signed_zpow [OF c(2) N2_gt_one [OF ok]])
  moreover have "zpow (BN_bin2bn c) y 1 mod pk_N2 pk = BN_bin2bn c" using v by (simp add: zpow_def)
  ultimately have "dao_threshold_partial_decrypt pk c s = BN_bn2binpad 512 (zpow (BN_bin2bn c) y (2 * dao_dkg_delta * s) mod pk_N2 pk)"
    using v(1) by (simp add: dao_threshold_partial_decrypt_def mult_ac)
  with N2_stored [OF ok] show ?thesis by metis
qed

lemma those_Some: "(\<And>x. x \<in> set xs \<Longrightarrow> f x = Some (g x)) \<Longrightarrow> those (map f xs) = Some (map g xs)"
  by (induction xs) simp_all

text \<open>The combination of the partial results is the power the header file states.\<close>

lemma combine_power:
  assumes ok: "pk_ok pk" and c: "is_valid_ciphertext pk c" "BN_bin2bn c * y mod pk_N2 pk = 1"
    and js: "distinct js" "set js \<subseteq> {1..16}" "2 \<le> length js" and cs: "length cs \<le> length js"
    and t: "0 < t" "t \<le> length js"
  shows "\<exists>ps C. those (map (\<lambda>i. dao_threshold_partial_decrypt pk c (horner_sum id (int i) cs)) js) = Some ps
    \<and> dao_threshold_combine pk js ps t = Some C \<and> length C = 512
    \<and> BN_bin2bn C = zpow (BN_bin2bn c) y (4 * dao_dkg_delta * dao_dkg_delta * horner_sum id 0 cs) mod pk_N2 pk"
proof -
  let ?z = "zpow (BN_bin2bn c) y" and ?e = "\<lambda>i. 2 * dao_dkg_delta * horner_sum id (int i) cs"
  define p where "p i = the (dao_threshold_partial_decrypt pk c (horner_sum id (int i) cs))" for i
  have p: "dao_threshold_partial_decrypt pk c (horner_sum id (int i) cs) = Some (p i) \<and> length (p i) = 512
      \<and> BN_bin2bn (p i) = ?z (?e i) mod pk_N2 pk" for i
    using partial_zpow [OF ok c, of "horner_sum id (int i) cs"] by (auto simp: p_def)
  have "list_all2 (\<lambda>i p. length p = 512 \<and> BN_bin2bn p = ?z (?e i) mod pk_N2 pk \<and> dao_dkg_lagrange_mu js i = Some (mu_of js i)) js (map p js)"
    using p lagrange_mu [OF js] by (fastforce simp: list.rel_map mu_of_def intro: list.rel_refl_strong)
  from combine_loop_zpow [OF c(2) N2_gt_one [OF ok] refl this, of 0]
  have "combine_loop pk js (zip js (map p js)) (1 mod pk_N2 pk) = Some (?z (sum_list (map (\<lambda>i. ?e i * (mu_of js i * 2)) js)) mod pk_N2 pk)"
    by (simp add: zpow_def)
  moreover have "sum_list (map (\<lambda>i. ?e i * (mu_of js i * 2)) js) = 4 * dao_dkg_delta * (\<Sum>i\<in>set js. mu_of js i * horner_sum id (int i) cs)"
    using js(1) by (simp add: sum_list_distinct_conv_sum_set sum_distrib_left mult_ac)
  ultimately have "combine_loop pk js (zip js (map p js)) 1 = Some (?z (4 * dao_dkg_delta * dao_dkg_delta * horner_sum id 0 cs) mod pk_N2 pk)"
    using N2_gt_one [OF ok] by (simp add: mu_interpolates [OF js cs] mult_ac)
  moreover have "those (map (\<lambda>i. dao_threshold_partial_decrypt pk c (horner_sum id (int i) cs)) js) = Some (map p js)"
    using p by (intro those_Some) blast
  ultimately show ?thesis using N2_stored [OF ok, of "?z (4 * dao_dkg_delta * dao_dkg_delta * horner_sum id 0 cs)"] t
    by (auto simp: dao_threshold_combine_def)
qed

section \<open>Finishing\<close>

text \<open>A multiple of the secret exponent leaves only the plaintext.\<close>

lemma zpow_multiple:
  assumes N: "1 < N" and xy: "x * y mod (N * N) = 1" and l: "0 \<le> l" "x ^ nat l mod (N * N) = (1 + a * N) mod (N * N)"
  shows "zpow x y (l * k) mod (N * N) = (1 + a * k * N) mod (N * N)"
proof -
  have pos: "zpow x y (l * int k) mod (N * N) = (1 + a * int k * N) mod (N * N)" for k
  proof -
    have "zpow x y (l * int k) mod (N * N) = (x ^ nat l mod (N * N)) ^ k mod (N * N)"
      using zpow_power [OF xy, of l k] l(1) by (simp add: zpow_def power_mod)
    also have "\<dots> = (1 + a * N) ^ k mod (N * N)" by (simp only: l(2) power_mod)
    finally show ?thesis by (simp only: power_one_plus) (simp add: mult_ac)
  qed
  show ?thesis
  proof (cases "0 \<le> k")
    case True
    then show ?thesis using pos [of "nat k"] by simp
  next
    case False
    let ?b = "1 + a * (- k) * N"
    have b: "zpow x y (l * (- k)) mod (N * N) = ?b mod (N * N)" using pos [of "nat (- k)"] False by simp
    have "?b * zpow x y (l * k) mod (N * N) = 1 mod (N * N)"
      using zpow_inverse [OF xy, of "l * (- k)"] b by (metis minus_minus mod_mult_left_eq mult_minus_right)
    moreover have "?b * (1 + a * k * N) = 1 + (- (a * k * a * k)) * (N * N)" by (simp add: algebra_simps)
    then have "?b * (1 + a * k * N) mod (N * N) = 1 mod (N * N)" by (simp only: mod_mult_self1)
    ultimately show ?thesis by (rule inverse_unique)
  qed
qed

lemma finalize_result:
  assumes N: "1 < pk_N pk" and C: "length C = 512" "BN_bin2bn C = 1 + (E * m mod pk_N pk) * pk_N pk"
    and m: "0 \<le> m" "m < pk_N pk" and th: "0 \<le> th" "coprime (dao_dkg_delta * dao_dkg_delta * 4 * th) (pk_N pk)"
    and E: "(E + dao_dkg_delta * dao_dkg_delta * 4 * th) mod pk_N pk = 0"
  shows "dao_threshold_finalize pk C th = Some m"
proof -
  let ?N = "pk_N pk" and ?k = "dao_dkg_delta * dao_dkg_delta * 4 * th"
  have k: "\<bar>- \<bar>?k\<bar>\<bar> = ?k" "0 \<le> ?k" using th(1) by (simp_all add: dao_dkg_delta_def)
  obtain i where i: "BN_mod_inverse ?k ?N = Some i" "?k * i mod ?N = 1"
    using BN_mod_inverse_spec [OF N, of ?k] th(2) by (auto split: option.splits simp: coprime_iff_gcd_eq_1)
  have "?k \<noteq> 0" using i(2) N by auto
  then have neg: "- \<bar>?k\<bar> < 0" by (simp only: neg_less_0_iff_less zero_less_abs_iff simp_thms)
  have L: "BN_div (BN_bin2bn C - 1) ?N = E * m mod ?N" using N by (simp add: C(2) BN_div_nonneg)
  have "E mod ?N = (- ?k) mod ?N" using E by (metis add.commute diff_minus_eq_add mod_0_imp_dvd mod_eq_dvd_iff)
  then have "E * m mod ?N * ((- i) mod ?N) mod ?N = (- ?k) mod ?N * m * (- i) mod ?N" by (metis mod_mult_eq mod_mult_left_eq)
  also have "\<dots> = (- ?k) * (m * - i) mod ?N" by (simp only: mult.assoc mod_mult_left_eq)
  also have "(- ?k) * (m * - i) = (?k * i) * m" by (simp only: minus_mult_minus mult_minus_right mult_minus_left minus_minus mult_ac)
  also have "\<dots> mod ?N = (?k * i mod ?N) * m mod ?N" by (simp only: mod_mult_left_eq)
  also have "\<dots> = m" using i(2) m by simp
  finally show ?thesis
    using neg C(1) by (simp only: dao_threshold_finalize_def inverse_mod_signed_def Let_def k(1) i(1) L BN_mod_mul_def) simp
qed

lemma prime_coprime_delta:
  assumes "is_prime p" "16 < p"
  shows "coprime dao_dkg_delta (int p)"
proof -
  have "coprime k p" if "k \<in> {1..16}" for k using that assms by (intro prime_coprime) (auto dest: dvd_imp_le)
  then have "coprime (fact 16 :: nat) p" unfolding fact_prod of_nat_id by (rule prod_coprime_left)
  moreover have "(fact 16 :: nat) = 20922789888000" by (simp add: fact_numeral)
  ultimately have "coprime (int 20922789888000) (int p)" by (simp only: coprime_int_iff)
  then show ?thesis by (simp add: dao_dkg_delta_def)
qed

lemma committee_plaintext:
  assumes pk: "pk_ok pk" "pk_N pk = int p * int q" and p: "is_prime p" "16 < p" and q: "is_prime q" "16 < q" "p \<noteq> q"
    and c: "encrypt pk m r = Some c"
    and f: "int (lcm (p - 1) (q - 1)) dvd horner_sum id 0 coeffs" "(horner_sum id 0 coeffs + theta') mod pk_N pk = 0"
    and theta: "0 \<le> theta'" "coprime theta' (pk_N pk)"
    and js: "distinct members" "set members \<subseteq> {1..16}" "2 \<le> length members"
    and t: "0 < threshold" "threshold \<le> length members" "length coeffs \<le> length members"
    and ps: "\<And>i. i \<in> set members \<Longrightarrow> dao_threshold_partial_decrypt pk c (horner_sum id (int i) coeffs) = Some (part i)"
  shows "\<exists>C. dao_threshold_combine pk members (map part members) threshold = Some C \<and> dao_threshold_finalize pk C theta' = Some m"
proof -
  let ?N = "pk_N pk" and ?l = "int (lcm (p - 1) (q - 1))" and ?x = "BN_bin2bn c" and ?f0 = "horner_sum id 0 coeffs"
  let ?E = "4 * dao_dkg_delta * dao_dkg_delta * ?f0"
  have N: "1 < ?N" "pk_N2 pk = ?N * ?N" using pk(1) by (simp_all add: pk_ok_def)
  note e = encryptD [OF c]
  have c': "is_valid_ciphertext pk c" "?x = (1 + m * ?N) * r ^ nat ?N mod (?N * ?N)" using encrypt_valid [OF pk(1) e] c N(2) by auto
  obtain y where y: "?x * y mod pk_N2 pk = 1" using ct_inverse_valid [OF pk(1) c'(1)] by blast
  have "those (map (\<lambda>i. dao_threshold_partial_decrypt pk c (horner_sum id (int i) coeffs)) members) = Some (map part members)"
    by (rule those_Some) (rule ps)
  then obtain C where C: "dao_threshold_combine pk members (map part members) threshold = Some C" "length C = 512" "BN_bin2bn C = zpow ?x y ?E mod pk_N2 pk"
    using combine_power [OF pk(1) c'(1) y js t(3) t(1,2)] by auto
  have "?x ^ nat ?l mod (?N * ?N) = (1 + ?l * m * ?N) mod (?N * ?N)"
    using encrypted_power [OF N(1), of r "nat ?l"] unit_power [OF p(1) q(1,3) e(3)] e(4) by (simp only: c'(2) pk(2) nat_int int_nat_eq)
  moreover obtain k where k: "?f0 = ?l * k" using f(1) ..
  ultimately have "zpow ?x y (?l * (4 * dao_dkg_delta * dao_dkg_delta * k)) mod (?N * ?N) = (1 + ?l * m * (4 * dao_dkg_delta * dao_dkg_delta * k) * ?N) mod (?N * ?N)"
    using y N by (intro zpow_multiple) simp_all
  then have "BN_bin2bn C = (1 + ?E * m * ?N) mod (?N * ?N)" by (simp add: C(3) N(2) k mult_ac)
  then have L: "BN_bin2bn C = 1 + (?E * m mod ?N) * ?N" by (simp only: one_plus_mod [OF N(1)])
  have "coprime dao_dkg_delta ?N" using prime_coprime_delta [OF p] prime_coprime_delta [OF q(1,2)] by (simp add: pk(2))
  moreover from this have "coprime 4 ?N" by (rule coprime_divisors [OF _ dvd_refl, rotated]) (simp add: dao_dkg_delta_def)
  ultimately have "coprime (dao_dkg_delta * dao_dkg_delta * 4 * theta') ?N" using theta(2) by (simp only: coprime_mult_left_iff simp_thms)
  moreover have "?E + dao_dkg_delta * dao_dkg_delta * 4 * theta' = 4 * dao_dkg_delta * dao_dkg_delta * (?f0 + theta')"
    by (simp only: distrib_left mult_ac)
  then have "(?E + dao_dkg_delta * dao_dkg_delta * 4 * theta') mod ?N = 0" using f(2) by (metis mod_0_imp_dvd dvd_imp_mod_0 dvd_mult)
  ultimately have "dao_threshold_finalize pk C theta' = Some m" using N(1) C(2) L e(1,2) theta(1) by (intro finalize_result)
  with C(1) show ?thesis by blast
qed

text \<open>
  C0: a committee decrypts what was encrypted. Let the modulus be a product of two different primes above 16, let the
  shares of the members be the values of an integer polynomial whose value at zero is a multiple of the secret
  exponent and, modulo the modulus, the negative of the published parameter. Then for every list of at least two
  different members (with numbers from 1 to 16), no fewer than the threshold and the coefficients of the polynomial, every
  partial decryption of a ciphertext succeeds, combining them succeeds, and finishing gives the plaintext.
\<close>
theorem threshold_decrypts:
  assumes pk: "pk_ok pk" "pk_N pk = int p * int q" and p: "is_prime p" "16 < p" and q: "is_prime q" "16 < q" "p \<noteq> q"
    and c: "encrypt pk m r = Some c"
    and f: "int (lcm (p - 1) (q - 1)) dvd horner_sum id 0 coeffs" "(horner_sum id 0 coeffs + theta') mod pk_N pk = 0"
    and theta: "0 \<le> theta'" "coprime theta' (pk_N pk)"
    and js: "distinct members" "set members \<subseteq> {1..16}" "2 \<le> length members"
    and t: "0 < threshold" "threshold \<le> length members" "length coeffs \<le> length members"
  shows "\<exists>ps C. those (map (\<lambda>i. dao_threshold_partial_decrypt pk c (horner_sum id (int i) coeffs)) members) = Some ps
    \<and> dao_threshold_combine pk members ps threshold = Some C \<and> dao_threshold_finalize pk C theta' = Some m"
proof -
  have v: "is_valid_ciphertext pk c" using encrypt_valid [OF pk(1) encryptD [OF c]] c by auto
  obtain y where y: "BN_bin2bn c * y mod pk_N2 pk = 1" using ct_inverse_valid [OF pk(1) v] by blast
  define part where "part i = the (dao_threshold_partial_decrypt pk c (horner_sum id (int i) coeffs))" for i
  have ps: "dao_threshold_partial_decrypt pk c (horner_sum id (int i) coeffs) = Some (part i)" for i
    using partial_zpow [OF pk(1) v y, of "horner_sum id (int i) coeffs"] by (auto simp: part_def)
  then have "those (map (\<lambda>i. dao_threshold_partial_decrypt pk c (horner_sum id (int i) coeffs)) members) = Some (map part members)"
    by (rule those_Some)
  with committee_plaintext [OF pk p q c f theta js t ps] show ?thesis by blast
qed

theorem threshold_decrypts_witness:
  "\<exists>c ps C. encrypt \<lparr>pk_N = 323, pk_N2 = 104329\<rparr> 42 2 = Some c
    \<and> those (map (\<lambda>i. dao_threshold_partial_decrypt \<lparr>pk_N = 323, pk_N2 = 104329\<rparr> c (horner_sum id (int i) [144, - 5])) [3, 1]) = Some ps
    \<and> dao_threshold_combine \<lparr>pk_N = 323, pk_N2 = 104329\<rparr> [3, 1] ps 2 = Some C
    \<and> dao_threshold_finalize \<lparr>pk_N = 323, pk_N2 = 104329\<rparr> C 179 = Some 42"
proof -
  let ?pk = "\<lparr>pk_N = 323, pk_N2 = 104329\<rparr>"
  have ok: "pk_ok ?pk" by (simp add: pk_ok_def)
  have g: "coprime (2 :: int) 323" "coprime (179 :: int) 323" by (simp_all add: coprime_iff_gcd_eq_1) code_simp+
  then obtain c where c: "encrypt ?pk 42 2 = Some c" using encrypt_valid [OF ok, of 42 2] by auto
  have "lcm (17 - 1) (19 - 1) = (144 :: nat)" by code_simp
  with threshold_decrypts [OF ok _ ex_primes(3) _ ex_primes(4) _ _ c, of "[144, - 5]" 179 "[3, 1]" 2] g c show ?thesis by simp
qed

end
