(* ===== verification/Partial_Proofs.thy ===== *)
theory Partial_Proofs
  imports Tally_Wire Threshold
begin

text \<open>
  \<^verbatim>\<open>src/src/governance/dao_dkg.cpp\<close>: the verification keys of the members, and the proof that a partial decryption was made
  with the share behind such a key. SHA-256 is the argument \<open>sha256\<close>.
\<close>

section \<open>Proofs\<close>

definition challenge_hash :: "(bytes \<Rightarrow> bytes) \<Rightarrow> bytes \<Rightarrow> bytes \<Rightarrow> bytes \<Rightarrow> bytes \<Rightarrow> bignum" where
  "challenge_hash sha256 a b c4 ci2 = BN_bin2bn (sha256 (a @ b @ c4 @ ci2))"

text \<open>A number written into a vector of zeros, which stays as it is where the number is too long.\<close>

definition bn_fixed :: "nat \<Rightarrow> bignum \<Rightarrow> bytes" where
  "bn_fixed len v = (case BN_bn2binpad len v of None \<Rightarrow> replicate len (byte_of 0) | Some bs \<Rightarrow> bs)"

fun num_bytes :: "nat \<Rightarrow> nat" where
  "num_bytes n = (if n = 0 then 0 else Suc (num_bytes (n div 256)))"

declare num_bytes.simps [simp del]

definition BN_num_bytes :: "bignum \<Rightarrow> nat" where
  "BN_num_bytes v = num_bytes (nat \<bar>v\<bar>)"

text \<open>The random number \<open>v\<close> is an argument.\<close>

definition dao_choose_verification_base :: "paillier_public_key \<Rightarrow> bignum \<Rightarrow> bytes option" where
  "dao_choose_verification_base pk v =
     (if gcd v (pk_N2 pk) \<noteq> 1 then None else Some (bn_fixed PAILLIER_CT_BYTES (BN_mod_mul v v (pk_N2 pk))))"

definition dao_derive_verification_key :: "paillier_public_key \<Rightarrow> bytes \<Rightarrow> bignum \<Rightarrow> bytes option" where
  "dao_derive_verification_key pk V_K share =
     (if length V_K \<noteq> PAILLIER_CT_BYTES then None
      else Some (bn_fixed PAILLIER_CT_BYTES (BN_mod_exp (BN_bin2bn V_K) (dao_dkg_delta * share) (pk_N2 pk))))"

definition dao_partial_decryption_prove ::
    "(bytes \<Rightarrow> bytes) \<Rightarrow> paillier_public_key \<Rightarrow> bytes \<Rightarrow> bytes \<Rightarrow> u32 \<Rightarrow> bytes \<Rightarrow> bytes \<Rightarrow> bignum \<Rightarrow> bignum
      \<Rightarrow> dao_partial_decryption_proof option" where
  "dao_partial_decryption_prove sha256 pk V_K V_K_i member_index c_bytes c_i_bytes share randomness =
     (if length c_bytes \<noteq> PAILLIER_CT_BYTES then None
      else if length c_i_bytes \<noteq> PAILLIER_CT_BYTES then None
      else if length V_K \<noteq> PAILLIER_CT_BYTES then None
      else if length V_K_i \<noteq> PAILLIER_CT_BYTES then None
      else
        let c = BN_bin2bn c_bytes; ci = BN_bin2bn c_i_bytes; vk = BN_bin2bn V_K; N2 = pk_N2 pk;
            c4 = BN_mod_exp c 4 N2;
            ci2 = BN_mod_mul ci ci N2;
            a = BN_mod_exp c4 randomness N2;
            b = BN_mod_exp vk randomness N2;
            E = challenge_hash sha256 (bn_fixed PAILLIER_CT_BYTES a) (bn_fixed PAILLIER_CT_BYTES b)
                  (bn_fixed PAILLIER_CT_BYTES c4) (bn_fixed PAILLIER_CT_BYTES ci2);
            Z = randomness + E * dao_dkg_delta * share
        in
        if DAO_DKG_PARTIAL_PROOF_Z_BYTES < BN_num_bytes Z then None
        else if DAO_DKG_PARTIAL_PROOF_Z_BYTES - 1 < BN_num_bytes \<bar>Z\<bar> then None
        else case BN_bn2binpad (DAO_DKG_PARTIAL_PROOF_Z_BYTES - 1) \<bar>Z\<bar> of
          None \<Rightarrow> None
        | Some mag \<Rightarrow> Some \<lparr>pp_member_index = member_index, pp_E = bn_fixed 32 E, pp_Z = byte_of (if Z < 0 then 1 else 0) # mag\<rparr>)"

definition dao_partial_decryption_verify ::
    "(bytes \<Rightarrow> bytes) \<Rightarrow> paillier_public_key \<Rightarrow> bytes \<Rightarrow> bytes \<Rightarrow> u32 \<Rightarrow> bytes \<Rightarrow> bytes \<Rightarrow> dao_partial_decryption_proof \<Rightarrow> bool" where
  "dao_partial_decryption_verify sha256 pk V_K V_K_i member_index c_bytes c_i_bytes pr =
     (if pp_member_index pr \<noteq> member_index then False
      else if length (pp_E pr) \<noteq> 32 then False
      else if length (pp_Z pr) \<noteq> DAO_DKG_PARTIAL_PROOF_Z_BYTES then False
      else if length V_K \<noteq> PAILLIER_CT_BYTES then False
      else if length V_K_i \<noteq> PAILLIER_CT_BYTES then False
      else if byte_val (hd (pp_Z pr)) \<noteq> 0 \<and> byte_val (hd (pp_Z pr)) \<noteq> 1 then False
      else
        let c = BN_bin2bn c_bytes; ci = BN_bin2bn c_i_bytes; vk = BN_bin2bn V_K; vki = BN_bin2bn V_K_i; N2 = pk_N2 pk;
            E = BN_bin2bn (pp_E pr);
            Z = (if byte_val (hd (pp_Z pr)) = 1 then - BN_bin2bn (tl (pp_Z pr)) else BN_bin2bn (tl (pp_Z pr)));
            c4 = BN_mod_exp c 4 N2;
            ci2 = BN_mod_mul ci ci N2
        in
        case (modexp_signed c4 Z N2, modexp_signed ci2 (- E) N2, modexp_signed vk Z N2, modexp_signed vki (- E) N2) of
          (Some a1, Some a2, Some b1, Some b2) \<Rightarrow>
            E = challenge_hash sha256 (bn_fixed PAILLIER_CT_BYTES (BN_mod_mul a1 a2 N2)) (bn_fixed PAILLIER_CT_BYTES (BN_mod_mul b1 b2 N2))
                  (bn_fixed PAILLIER_CT_BYTES c4) (bn_fixed PAILLIER_CT_BYTES ci2)
        | _ \<Rightarrow> False)"

section \<open>Completeness\<close>

lemma bn_fixed_number: "0 \<le> v \<Longrightarrow> v < 256 ^ len \<Longrightarrow> length (bn_fixed len v) = len \<and> BN_bin2bn (bn_fixed len v) = v"
  using BN_bytes [of v len] by (auto simp: bn_fixed_def)

lemma bn_bytes_fixed: "length bs = len \<Longrightarrow> bn_fixed len (BN_bin2bn bs) = bs"
  using bytes_BN [of bs] by (simp add: bn_fixed_def)

lemma binpad_number: "BN_bn2binpad len \<bar>v\<bar> = Some bs \<Longrightarrow> length bs = len \<and> BN_bin2bn bs = \<bar>v\<bar>"
  by (auto simp: BN_bn2binpad_def BN_bin2bn_def split: if_splits)

text \<open>The powers of the verifier, for a base that is itself a power.\<close>

lemma proof_powers:
  assumes xy: "x * y mod n = 1" and n: "1 < n"
  shows "\<exists>a1 a2. modexp_signed (zpow x y u mod n) (r + E * w) n = Some a1 \<and> modexp_signed (zpow x y (u * w) mod n) (- E) n = Some a2
    \<and> BN_mod_mul a1 a2 n = zpow x y (u * r) mod n"
proof -
  have "BN_mod_mul (zpow x y (u * (r + E * w)) mod n) (zpow x y (u * w * (- E)) mod n) n = zpow x y (u * (r + E * w) + u * w * (- E)) mod n"
    by (simp only: BN_mod_mul_def mod_mult_eq zpow_add [OF xy])
  also have "u * (r + E * w) + u * w * (- E) = u * r" by (simp add: algebra_simps)
  finally show ?thesis by (simp only: modexp_signed_zpow [OF xy n]) simp
qed

lemma zpow_nat_power: "x * y mod n = 1 \<Longrightarrow> 0 \<le> k \<Longrightarrow> BN_mod_exp (zpow x y e mod n) k n = zpow x y (e * k) mod n"
  using zpow_power [of x y n e "nat k"] by (simp add: BN_mod_exp_def power_mod)

lemma zpow_one: "0 \<le> x \<Longrightarrow> x < n \<Longrightarrow> zpow x y 1 mod n = x"
  by (simp add: zpow_def)

text \<open>
  Honest partial decryptions are accepted: for a valid ciphertext and a valid base, a member that decrypts with its share,
  which may be negative, and whose verification key is the base raised to \<open>16!\<close> times the share, convinces the verifier,
  if its proof fits the fixed width.
\<close>

lemma proved_partial_verifies:
  assumes pk: "pk_ok pk" and c: "is_valid_ciphertext pk c" and V: "is_valid_ciphertext pk V_K"
    and ci: "dao_threshold_partial_decrypt pk c share = Some c_i"
    and VKi: "length V_K_i = 512" "modexp_signed (BN_bin2bn V_K) (dao_dkg_delta * share) (pk_N2 pk) = Some (BN_bin2bn V_K_i)"
    and r: "0 \<le> r" and sha: "\<forall>x. length (sha256 x) = 32"
    and pr: "dao_partial_decryption_prove sha256 pk V_K V_K_i i c c_i share r = Some pr"
  shows "dao_partial_decryption_verify sha256 pk V_K V_K_i i c c_i pr"
proof -
  let ?n = "pk_N2 pk" and ?x = "BN_bin2bn c" and ?X = "BN_bin2bn V_K" and ?w = "dao_dkg_delta * share"
  have n: "1 < ?n" by (rule N2_gt_one [OF pk])
  obtain y where y: "?x * y mod ?n = 1" using ct_inverse_valid [OF pk c] by blast
  obtain Y where Y: "?X * Y mod ?n = 1" using ct_inverse_valid [OF pk V] by blast
  have x1: "zpow ?x y 1 mod ?n = ?x" "zpow ?X Y 1 mod ?n = ?X" using c V by (simp_all add: zpow_one valid_iff)
  have ci': "length c_i = 512" "BN_bin2bn c_i = zpow ?x y (2 * ?w) mod ?n"
    using partial_zpow [OF pk c y, of share] ci by (auto simp: mult.assoc)
  let ?c4 = "BN_mod_exp ?x 4 ?n" and ?ci2 = "BN_mod_mul (BN_bin2bn c_i) (BN_bin2bn c_i) ?n"
  have c4: "?c4 = zpow ?x y 4 mod ?n" using zpow_nat_power [OF y, of 4 1] x1(1) by simp
  have "?ci2 = zpow ?x y (2 * ?w + 2 * ?w) mod ?n" by (simp only: ci'(2) BN_mod_mul_def mod_mult_eq zpow_add [OF y])
  then have ci2: "?ci2 = zpow ?x y (4 * ?w) mod ?n" by (simp add: mult_2 [symmetric])
  have a: "BN_mod_exp ?c4 r ?n = zpow ?x y (4 * r) mod ?n" using zpow_nat_power [OF y r] by (simp only: c4)
  have b: "BN_mod_exp ?X r ?n = zpow ?X Y (1 * r) mod ?n" using zpow_nat_power [OF Y r, of 1] by (simp only: x1(2))
  have vki: "BN_bin2bn V_K_i = zpow ?X Y (1 * ?w) mod ?n"
    using VKi(2) modexp_signed_zpow [OF Y n, of 1 ?w] by (simp only: x1(2) option.inject)
  define E where "E = challenge_hash sha256 (bn_fixed 512 (zpow ?x y (4 * r) mod ?n)) (bn_fixed 512 (zpow ?X Y (1 * r) mod ?n)) (bn_fixed 512 ?c4) (bn_fixed 512 ?ci2)"
  define Z where "Z = r + E * ?w"
  obtain mag where mag: "BN_bn2binpad 1199 \<bar>Z\<bar> = Some mag" "pr = \<lparr>pp_member_index = i, pp_E = bn_fixed 32 E, pp_Z = byte_of (if Z < 0 then 1 else 0) # mag\<rparr>"
    using pr by (auto simp: dao_partial_decryption_prove_def Let_def a b E_def Z_def mult.assoc split: if_splits option.splits)
  have E: "length (bn_fixed 32 E) = 32" "BN_bin2bn (bn_fixed 32 E) = E"
    using sha by (simp_all add: E_def challenge_hash_def bn_bytes_fixed)
  have Z: "length mag = 1199" "BN_bin2bn mag = \<bar>Z\<bar>" using binpad_number [OF mag(1)] by simp_all
  have len: "length V_K = 512" using V by (simp add: valid_iff)
  obtain a1 a2 where a12: "modexp_signed ?c4 Z ?n = Some a1" "modexp_signed ?ci2 (- E) ?n = Some a2" "BN_mod_mul a1 a2 ?n = zpow ?x y (4 * r) mod ?n"
    using proof_powers [OF y n, of 4 r E ?w] by (auto simp: c4 ci2 Z_def)
  obtain b1 b2 where b12: "modexp_signed ?X Z ?n = Some b1" "modexp_signed (BN_bin2bn V_K_i) (- E) ?n = Some b2" "BN_mod_mul b1 b2 ?n = zpow ?X Y (1 * r) mod ?n"
    using proof_powers [OF Y n, of 1 r E ?w] x1(2) by (auto simp: vki Z_def)
  show ?thesis
    using E Z len VKi(1) a12 b12 by (simp add: dao_partial_decryption_verify_def mag(2) Let_def) (simp add: E_def)
qed

end
