(* ===== verification/Spec2Isabelle.thy ===== *)
theory Spec2Isabelle
  imports Heartbeat_Rollback Service_Descriptors Governance Broadcast Include_Dirs Partial_Proofs
begin

text \<open>
  \<^bold>\<open>VeilRoot\<close> is a fork of the Monero daemon and wallet, written in C++, with a name service (VNS) and an
  on-chain governance (DAO) inside the consensus code. Names of the form \<^verbatim>\<open>label..extension\<close> are registered
  against a burned fee; proposals, which grant coins of a treasury or change the policy of names and fees, are
  submitted as transactions, voted on, decided when their voting period ends, and executed by later blocks.
  The repository also vendors libraries with two small Node.js scripts.

  \<^bold>\<open>How the parts interact.\<close> \<^verbatim>\<open>Blockchain::handle_block_to_main_chain\<close> gives every block to the governance
  manager, which runs the managers of proposals, votes and lifecycle in this order, and then books the treasury
  outputs, grants and policy changes of its transactions. \<^verbatim>\<open>pop_block_from_blockchain\<close> undoes a block when the
  chain is reorganised. Before a block is added, the messages in the extra fields of its transactions register,
  change and transfer names; afterwards the names that have gone without a heartbeat lose health and expire, and
  the heartbeats that arrived off-chain are applied. The registry of names is kept in memory and in the database; all other
  state is in LMDB tables. The policy resolver reads those tables, and falls back to tables compiled into the
  program, when a name is to be registered.

  \<^bold>\<open>Conventions.\<close> A byte is HOL's \<^typ>\<open>char\<close>; fixed-width integers are words and wrap around as in C++; strings
  and blobs are lists of bytes. A class or struct is a record with the field names of the source behind a short
  prefix, an enum is a datatype or a word. A function that may throw or return false has the type \<open>option\<close>, a result
  datatype, or \<open>step\<close>, which keeps the state it leaves. What the code takes from elsewhere (block storage, hashes,
  key derivation, the encrypted V2 votes, the \<^verbatim>\<open>ws\<close> package, the order of hash containers, uninitialised storage)
  is an argument of the definitions.

  \<^bold>\<open>Theories, sources, and what is shown.\<close>

  \<^item> \<^verbatim>\<open>VNS_Prelude\<close>, \<^verbatim>\<open>Byte_Codecs\<close>: bytes, character classes, substring search, integers in little-endian order, and
    the locale \<open>byte_codec\<close> that every serialised structure interprets.
  \<^item> \<^verbatim>\<open>Domain_Names\<close>, \<^verbatim>\<open>Domain_Tables\<close> (\<^verbatim>\<open>src/src/common/domain_utils.h\<close>): normalisation is a projection onto a grammar,
    the index-based validators decide that grammar, and parsing a normalised name succeeds; the compiled tables.
  \<^item> \<^verbatim>\<open>Governance_Params\<close> (\<^verbatim>\<open>governance_params.h\<close>, \<^verbatim>\<open>.cpp\<close>): binary form with its round trip, defaults that agree with
    the compiled tables.
  \<^item> \<^verbatim>\<open>LMDB_Tables\<close>, \<^verbatim>\<open>Policy_Tables\<close>, \<^verbatim>\<open>VNS_DB\<close> (\<^verbatim>\<open>db_lmdb.cpp\<close>, \<^verbatim>\<open>blockchain_db.h\<close>): tables with duplicate keys as lists in
    cursor order, the locale of a table that answers with the newest record in force, and all operations of the
    governance code on the database, which is one record. The table of pending names refines a map.
  \<^item> \<^verbatim>\<open>Domain_Policy\<close> (\<^verbatim>\<open>Blockchain::resolve_domain_policy\<close>): the decision on a name, whole, against a declarative
    specification.
  \<^item> \<^verbatim>\<open>Binary_Archive\<close>, \<^verbatim>\<open>Governance_Payloads\<close>, \<^verbatim>\<open>Tx_Extra\<close> (\<^verbatim>\<open>varint.h\<close>, \<^verbatim>\<open>serialization/\<close>, \<^verbatim>\<open>tx_extra.h\<close>,
    \<^verbatim>\<open>parse_tx_extra\<close>): varints, containers, payloads and extra fields, with their codecs.
  \<^item> \<^verbatim>\<open>Parameter_Execution\<close> (\<^verbatim>\<open>Blockchain::process_parameter_execution\<close>, \<^verbatim>\<open>execution.cpp\<close>, \<^verbatim>\<open>parameter_manager.cpp\<close>): a policy
    proposal is executed at most once and when due, keeps the floor of fees, a ban holds from then on, and
    rolling the block back restores the whole database.
  \<^item> \<^verbatim>\<open>Voting_Weight\<close>, \<^verbatim>\<open>Votes\<close> (\<^verbatim>\<open>voting_weight.cpp\<close>, \<^verbatim>\<open>vote_manager.cpp\<close>): the weight of an output, what counting a V1
    vote reads and writes, and when its rollback is exact.
  \<^item> \<^verbatim>\<open>Lifecycle\<close>, \<^verbatim>\<open>Execution_Queue\<close>, \<^verbatim>\<open>Proposals\<close> (\<^verbatim>\<open>treasury.cpp\<close>, \<^verbatim>\<open>lifecycle_manager.cpp\<close>, \<^verbatim>\<open>governance.cpp\<close>,
    \<^verbatim>\<open>proposal.cpp\<close>): indexing and its rollback, validation and what it guarantees for the execution, the decision
    at the end of voting with exact quorum, the queue of executions and its recovery.
  \<^item> \<^verbatim>\<open>Treasury_Flow\<close> (\<^verbatim>\<open>blockchain.cpp\<close>, \<^verbatim>\<open>tx_verification_utils.cpp\<close>): execution transactions as built for a
    template pass the validation of a block; accepted ones conserve coins; the balance after a block.
  \<^item> \<^verbatim>\<open>Governance\<close> (\<^verbatim>\<open>governance.cpp\<close> and its callers): the managers composed into connecting and popping a block, as
    step relations. All tables stay well-formed over every run, and the status of a proposal only moves forward
    while the chain grows. The locale \<open>kept\<close> carries what one step keeps to runs.
  \<^item> \<^verbatim>\<open>Domain_Objects\<close> (\<^verbatim>\<open>domain_utils.h\<close>, \<^verbatim>\<open>process_domain_registration\<close>): the messages about names as the wallet writes
    and the node reads them. The search through the extra field ends on every input, and what is written is read.
  \<^item> \<^verbatim>\<open>Domain_Registry\<close> (\<^verbatim>\<open>blockchain.cpp\<close>): the registry of names, with every operation that changes it. A
    registration is accepted exactly when policy and registry admit it, a name changes hands only with the
    consent of its owner, memory and database agree over every run, and a restart changes nothing.
  \<^item> \<^verbatim>\<open>Heartbeat_Rollback\<close> (the same): popping a block takes back its heartbeats, and when.
    \<^verbatim>\<open>Service_Descriptors\<close>: the cache keeps the newest descriptor of a registration.
  \<^item> \<^verbatim>\<open>Broadcast\<close> (\<^verbatim>\<open>external/ixwebsocket/ws/broadcast-server.js\<close>): relaying as a fold over the set of clients, refined
    by an abstract queue per client. \<^verbatim>\<open>Include_Dirs\<close> (\<^verbatim>\<open>external/rapidjson/include_dirs.js\<close>): the printed path.

  \<^bold>\<open>Bounds.\<close> No definition runs on fuel: loops over bytes and tables are structural or have a measure, except the
  search for a message about a name, a partial function that is proved to return for every input. Where a
  theorem needs that a sum stays below \<open>2\<^sup>6\<^sup>4\<close> or that a table has room, it says so; theorems about
  wrap-around show what happens beyond.

  \<^bold>\<open>Not modelled.\<close> The encrypted V2 votes, their tallies and the committee protocols rest on elliptic curves and
  homomorphic encryption that the sources only call; the block loops take them as an argument, with the
  hypothesis that they write nothing but the tables of votes. The rest of the Monero node (proof of work, fork choice,
  ring signatures, pool, network, wallet) is outside the name system, and so are the threads that fetch heartbeats
  from relays: the heartbeats they accept are inputs. Throwing is modelled where the code's
  own conditions throw, not for failures of the storage engine. Logging has no effect on the state.
\<close>

end
